(* ===== verification/Redis.thy ===== *)
theory Redis
  imports Prelude "HOL-Library.Product_Lexorder"
begin

text \<open>
  The interface to Redis.  The Go code reaches Redis only through the third-party client
  \<open>github.com/redis/go-redis\<close>; neither the client nor the server is part of the repository, so
  the model takes them as a parameter: a function \<open>exec\<close> from a command and a state of the
  outside world to a reply and the next state.  What the code relies on is the documented
  behaviour of the commands it sends, stated by the locale \<open>redis_server\<close> over an abstraction
  \<open>view\<close> of the world to a key space: keys with a value and the time they have left.  A reply may
  be an error at any time (a lost connection, a cancelled context); the command has then had its
  effect or not.  The extension \<open>reliable_redis\<close> adds that a well-typed command is
  answered.  \<open>rcall\<close> runs the documented semantics directly; the Lua script of the chat store
  is written over it, and it is the instance that shows the contracts satisfiable.
\<close>

section \<open>Key spaces and commands\<close>

datatype rvalue =
    VStr string
  | VHash "string \<rightharpoonup> string"
  | VSet "string set"
  | VZSet "string \<rightharpoonup> int"

type_synonym keyspace = "string \<rightharpoonup> rvalue \<times> Duration option"

datatype reply =
    ROk
  | RInt int
  | RBulk string
  | RNil
  | RList "string list"
  | RMap "string \<rightharpoonup> string"
  | RDur Duration
  | RErr string

datatype rcmd =
    GET string
  | SET string string Duration
  | DEL string
  | INCR string
  | EXPIRE string Duration
  | TTL string
  | EXISTS string
  | HSET string "(string \<times> string) list"
  | HGET string string
  | HGETALL string
  | SADD string string
  | SREM string string
  | SMEMBERS string
  | ZADD string int string
  | ZREM string string
  | ZRANGE string
  | ZSCORE string string
  | ZCARD string
  | ZRANGEBYSCORE string int int
  | EVAL "keyspace \<Rightarrow> reply \<times> keyspace"

type_synonym 'r redis = "rcmd \<Rightarrow> 'r \<Rightarrow> reply \<times> 'r"

text \<open>Typed access to a reply, as the client's \<open>Result()\<close>, \<open>Int()\<close> and \<open>Err()\<close> give it.\<close>

definition unexpected :: error where
  "unexpected = ErrReply ''unexpected reply''"

fun int_result :: "reply \<Rightarrow> int result" where
  "int_result (RInt n) = Inr n"
| "int_result RNil = Inl ErrNil"
| "int_result (RErr e) = Inl (ErrReply e)"
| "int_result _ = Inl unexpected"

fun string_result :: "reply \<Rightarrow> string result" where
  "string_result (RBulk v) = Inr v"
| "string_result RNil = Inl ErrNil"
| "string_result (RErr e) = Inl (ErrReply e)"
| "string_result _ = Inl unexpected"

fun list_result :: "reply \<Rightarrow> string list result" where
  "list_result (RList xs) = Inr xs"
| "list_result RNil = Inl ErrNil"
| "list_result (RErr e) = Inl (ErrReply e)"
| "list_result _ = Inl unexpected"

fun map_result :: "reply \<Rightarrow> (string \<rightharpoonup> string) result" where
  "map_result (RMap m) = Inr m"
| "map_result RNil = Inl ErrNil"
| "map_result (RErr e) = Inl (ErrReply e)"
| "map_result _ = Inl unexpected"

fun dur_result :: "reply \<Rightarrow> Duration result" where
  "dur_result (RDur d) = Inr d"
| "dur_result RNil = Inl ErrNil"
| "dur_result (RErr e) = Inl (ErrReply e)"
| "dur_result _ = Inl unexpected"

fun err_result :: "reply \<Rightarrow> error option" where
  "err_result (RErr e) = Some (ErrReply e)"
| "err_result RNil = Some ErrNil"
| "err_result _ = None"

text \<open>\<open>Get(...).Int()\<close>: a bulk reply read by \<open>strconv.Atoi\<close>.\<close>

definition atoi_result :: "reply \<Rightarrow> int result" where
  "atoi_result r =
     (case string_result r of
        Inl e \<Rightarrow> Inl e
      | Inr v \<Rightarrow> (case parse_int v of None \<Rightarrow> Inl (ErrText ''invalid syntax'') | Some n \<Rightarrow> Inr n))"

fun is_err :: "reply \<Rightarrow> bool" where
  "is_err (RErr e) = True"
| "is_err _ = False"

lemma result_Inr [simp]:
  "int_result r = Inr n \<longleftrightarrow> r = RInt n"
  "string_result r = Inr v \<longleftrightarrow> r = RBulk v"
  "list_result r = Inr xs \<longleftrightarrow> r = RList xs"
  "map_result r = Inr m \<longleftrightarrow> r = RMap m"
  "dur_result r = Inr d \<longleftrightarrow> r = RDur d"
  by (cases r; simp)+

section \<open>Documented effect of the commands\<close>

definition counter :: "string \<Rightarrow> int option" where
  "counter v =
     (case parse_int v of
        None \<Rightarrow> None
      | Some n \<Rightarrow> if show_int n = v \<and> n < 2 ^ 63 - 1 then Some n else None)"

lemma counter_show_int [simp]: "n < 2 ^ 63 - 1 \<Longrightarrow> counter (show_int n) = Some n"
  by (simp add: counter_def)

definition ttl_of :: "keyspace \<Rightarrow> string \<Rightarrow> Duration option" where
  "ttl_of ks k = (case ks k of None \<Rightarrow> None | Some (_, t) \<Rightarrow> t)"

text \<open>Redis deletes a set or sorted set with its last member.\<close>

definition put_set :: "string \<Rightarrow> string set \<Rightarrow> Duration option \<Rightarrow> keyspace \<Rightarrow> keyspace" where
  "put_set k S t ks = (if S = {} then ks(k := None) else ks(k \<mapsto> (VSet S, t)))"

definition put_zset :: "string \<Rightarrow> (string \<rightharpoonup> int) \<Rightarrow> Duration option \<Rightarrow> keyspace \<Rightarrow> keyspace" where
  "put_zset k z t ks = (if z = Map.empty then ks(k := None) else ks(k \<mapsto> (VZSet z, t)))"

fun effect :: "rcmd \<Rightarrow> keyspace \<Rightarrow> keyspace" where
  "effect (SET k v d) ks =
     ks(k \<mapsto> (VStr v, if d > 0 then Some d else if d = -1 then ttl_of ks k else None))"
| "effect (DEL k) ks = ks(k := None)"
| "effect (INCR k) ks =
     (case ks k of
        None \<Rightarrow> ks(k \<mapsto> (VStr (show_int 1), None))
      | Some (VStr v, t) \<Rightarrow>
          (case counter v of
             None \<Rightarrow> ks
           | Some n \<Rightarrow> ks(k \<mapsto> (VStr (show_int (n + 1)), t)))
      | _ \<Rightarrow> ks)"
| "effect (EXPIRE k d) ks =
     (case ks k of
        None \<Rightarrow> ks
      | Some (v, _) \<Rightarrow> if d > 0 then ks(k \<mapsto> (v, Some d)) else ks(k := None))"
| "effect (HSET k fvs) ks =
     (case ks k of
        None \<Rightarrow> ks(k \<mapsto> (VHash (foldl (\<lambda>h (f, v). h(f \<mapsto> v)) Map.empty fvs), None))
      | Some (VHash h, t) \<Rightarrow> ks(k \<mapsto> (VHash (foldl (\<lambda>h (f, v). h(f \<mapsto> v)) h fvs), t))
      | _ \<Rightarrow> ks)"
| "effect (SADD k m) ks =
     (case ks k of
        None \<Rightarrow> ks(k \<mapsto> (VSet {m}, None))
      | Some (VSet S, t) \<Rightarrow> ks(k \<mapsto> (VSet (insert m S), t))
      | _ \<Rightarrow> ks)"
| "effect (SREM k m) ks =
     (case ks k of Some (VSet S, t) \<Rightarrow> put_set k (S - {m}) t ks | _ \<Rightarrow> ks)"
| "effect (ZADD k sc m) ks =
     (case ks k of
        None \<Rightarrow> ks(k \<mapsto> (VZSet [m \<mapsto> sc], None))
      | Some (VZSet z, t) \<Rightarrow> ks(k \<mapsto> (VZSet (z(m \<mapsto> sc)), t))
      | _ \<Rightarrow> ks)"
| "effect (ZREM k m) ks =
     (case ks k of Some (VZSet z, t) \<Rightarrow> put_zset k (z(m := None)) t ks | _ \<Rightarrow> ks)"
| "effect (EVAL f) ks = snd (f ks)"
| "effect _ ks = ks"

section \<open>Documented replies\<close>

definition wrongtype :: reply where
  "wrongtype = RErr ''WRONGTYPE Operation against a key holding the wrong kind of value''"

definition zsorted :: "(string \<rightharpoonup> int) \<Rightarrow> string list" where
  "zsorted z = map snd (sorted_list_of_set ((\<lambda>m. (the (z m), m)) ` dom z))"

definition zbetween :: "int \<Rightarrow> int \<Rightarrow> (string \<rightharpoonup> int) \<Rightarrow> (string \<rightharpoonup> int)" where
  "zbetween lo hi z = (\<lambda>m. case z m of None \<Rightarrow> None | Some sc \<Rightarrow> if lo \<le> sc \<and> sc \<le> hi then Some sc else None)"

fun answer :: "rcmd \<Rightarrow> keyspace \<Rightarrow> reply" where
  "answer (GET k) ks =
     (case ks k of None \<Rightarrow> RNil | Some (VStr v, _) \<Rightarrow> RBulk v | _ \<Rightarrow> wrongtype)"
| "answer (SET k v d) ks = ROk"
| "answer (DEL k) ks = RInt (if ks k = None then 0 else 1)"
| "answer (INCR k) ks =
     (case ks k of
        None \<Rightarrow> RInt 1
      | Some (VStr v, _) \<Rightarrow>
          (case counter v of
             None \<Rightarrow> RErr ''ERR value is not an integer or out of range''
           | Some n \<Rightarrow> RInt (n + 1))
      | _ \<Rightarrow> wrongtype)"
| "answer (EXPIRE k d) ks = RInt (if ks k = None then 0 else 1)"
| "answer (TTL k) ks =
     (case ks k of
        None \<Rightarrow> RDur (-2)
      | Some (_, None) \<Rightarrow> RDur (-1)
      | Some (_, Some d) \<Rightarrow> RDur (max 0 d div Second * Second))"
| "answer (EXISTS k) ks = RInt (if ks k = None then 0 else 1)"
| "answer (HSET k fvs) ks =
     (case ks k of None \<Rightarrow> RInt (int (length fvs)) | Some (VHash h, _) \<Rightarrow> RInt 0 | _ \<Rightarrow> wrongtype)"
| "answer (HGET k f) ks =
     (case ks k of
        None \<Rightarrow> RNil
      | Some (VHash h, _) \<Rightarrow> (case h f of None \<Rightarrow> RNil | Some v \<Rightarrow> RBulk v)
      | _ \<Rightarrow> wrongtype)"
| "answer (HGETALL k) ks =
     (case ks k of None \<Rightarrow> RMap Map.empty | Some (VHash h, _) \<Rightarrow> RMap h | _ \<Rightarrow> wrongtype)"
| "answer (SADD k m) ks =
     (case ks k of
        None \<Rightarrow> RInt 1
      | Some (VSet S, _) \<Rightarrow> RInt (if m \<in> S then 0 else 1)
      | _ \<Rightarrow> wrongtype)"
| "answer (SREM k m) ks =
     (case ks k of
        None \<Rightarrow> RInt 0
      | Some (VSet S, _) \<Rightarrow> RInt (if m \<in> S then 1 else 0)
      | _ \<Rightarrow> wrongtype)"
| "answer (SMEMBERS k) ks =
     (case ks k of
        None \<Rightarrow> RList []
      | Some (VSet S, _) \<Rightarrow> RList (sorted_list_of_set S)
      | _ \<Rightarrow> wrongtype)"
| "answer (ZADD k sc m) ks =
     (case ks k of
        None \<Rightarrow> RInt 1
      | Some (VZSet z, _) \<Rightarrow> RInt (if z m = None then 1 else 0)
      | _ \<Rightarrow> wrongtype)"
| "answer (ZREM k m) ks =
     (case ks k of
        None \<Rightarrow> RInt 0
      | Some (VZSet z, _) \<Rightarrow> RInt (if z m = None then 0 else 1)
      | _ \<Rightarrow> wrongtype)"
| "answer (ZRANGE k) ks =
     (case ks k of None \<Rightarrow> RList [] | Some (VZSet z, _) \<Rightarrow> RList (zsorted z) | _ \<Rightarrow> wrongtype)"
| "answer (ZSCORE k m) ks =
     (case ks k of
        None \<Rightarrow> RNil
      | Some (VZSet z, _) \<Rightarrow> (case z m of None \<Rightarrow> RNil | Some sc \<Rightarrow> RInt sc)
      | _ \<Rightarrow> wrongtype)"
| "answer (ZCARD k) ks =
     (case ks k of None \<Rightarrow> RInt 0 | Some (VZSet z, _) \<Rightarrow> RInt (int (card (dom z))) | _ \<Rightarrow> wrongtype)"
| "answer (ZRANGEBYSCORE k lo hi) ks =
     (case ks k of
        None \<Rightarrow> RList []
      | Some (VZSet z, _) \<Rightarrow> RList (zsorted (zbetween lo hi z))
      | _ \<Rightarrow> wrongtype)"
| "answer (EVAL f) ks = fst (f ks)"

text \<open>
  The replies the documentation allows.  The members of a set come in no particular order, and a
  time to live is a whole number of seconds less than a second away from the time that is left;
  the number of fields a hash gained is not used by the code and left open.  Every other reply is
  \<^const>\<open>answer\<close>.
\<close>

fun reply_ok :: "rcmd \<Rightarrow> keyspace \<Rightarrow> reply \<Rightarrow> bool" where
  "reply_ok (SMEMBERS k) ks r =
     (case answer (SMEMBERS k) ks of
        RList xs \<Rightarrow> (case r of RList ys \<Rightarrow> distinct ys \<and> set ys = set xs | _ \<Rightarrow> False)
      | _ \<Rightarrow> r = answer (SMEMBERS k) ks)"
| "reply_ok (TTL k) ks r =
     (case ttl_of ks k of
        None \<Rightarrow> r = answer (TTL k) ks
      | Some d \<Rightarrow> (case r of RDur t \<Rightarrow> 0 \<le> t \<and> Second dvd t \<and> \<bar>t - max 0 d\<bar> < Second | _ \<Rightarrow> False))"
| "reply_ok (HSET k fvs) ks r =
     (case answer (HSET k fvs) ks of RInt _ \<Rightarrow> (case r of RInt _ \<Rightarrow> True | _ \<Rightarrow> False)
      | _ \<Rightarrow> r = answer (HSET k fvs) ks)"
| "reply_ok c ks r = (r = answer c ks)"

definition step_ok :: "rcmd \<Rightarrow> keyspace \<Rightarrow> reply \<Rightarrow> keyspace \<Rightarrow> bool" where
  "step_ok c ks r ks' =
     (if is_err r then ks' = ks \<or> ks' = effect c ks else reply_ok c ks r \<and> ks' = effect c ks)"

definition rcall :: "rcmd \<Rightarrow> keyspace \<Rightarrow> reply \<times> keyspace" where
  "rcall c ks = (answer c ks, effect c ks)"

section \<open>Time\<close>

definition advance :: "Duration \<Rightarrow> keyspace \<Rightarrow> keyspace" where
  "advance d ks =
     (\<lambda>k. case ks k of
        None \<Rightarrow> None
      | Some (v, None) \<Rightarrow> Some (v, None)
      | Some (v, Some t) \<Rightarrow> if t \<le> d then None else Some (v, Some (t - d)))"

lemma advance_0:
  assumes "\<And>k v t. ks k = Some (v, Some t) \<Longrightarrow> 0 < t"
  shows "advance 0 ks = ks"
  using assms by (fastforce simp: advance_def fun_eq_iff split: option.splits)

lemma advance_add: "0 \<le> a \<Longrightarrow> 0 \<le> b \<Longrightarrow> advance (a + b) ks = advance b (advance a ks)"
  by (auto simp: advance_def fun_eq_iff split: option.splits)

lemma advance_alive: "ks k = Some (v, Some t) \<Longrightarrow> d < t \<Longrightarrow> advance d ks k = Some (v, Some (t - d))"
  by (simp add: advance_def)

lemma advance_expired: "ks k = Some (v, Some t) \<Longrightarrow> t \<le> d \<Longrightarrow> advance d ks k = None"
  by (simp add: advance_def)

lemma advance_no_ttl [simp]:
  "ks k = None \<Longrightarrow> advance d ks k = None"
  "ks k = Some (v, None) \<Longrightarrow> advance d ks k = Some (v, None)"
  by (simp_all add: advance_def)

section \<open>Frames and well-formedness\<close>

fun cmd_key :: "rcmd \<Rightarrow> string option" where
  "cmd_key (GET k) = Some k"
| "cmd_key (SET k v d) = Some k"
| "cmd_key (DEL k) = Some k"
| "cmd_key (INCR k) = Some k"
| "cmd_key (EXPIRE k d) = Some k"
| "cmd_key (TTL k) = Some k"
| "cmd_key (EXISTS k) = Some k"
| "cmd_key (HSET k fvs) = Some k"
| "cmd_key (HGET k f) = Some k"
| "cmd_key (HGETALL k) = Some k"
| "cmd_key (SADD k m) = Some k"
| "cmd_key (SREM k m) = Some k"
| "cmd_key (SMEMBERS k) = Some k"
| "cmd_key (ZADD k sc m) = Some k"
| "cmd_key (ZREM k m) = Some k"
| "cmd_key (ZRANGE k) = Some k"
| "cmd_key (ZSCORE k m) = Some k"
| "cmd_key (ZCARD k) = Some k"
| "cmd_key (ZRANGEBYSCORE k lo hi) = Some k"
| "cmd_key (EVAL f) = None"

fun reads :: "rcmd \<Rightarrow> bool" where
  "reads (GET k) = True"
| "reads (TTL k) = True"
| "reads (EXISTS k) = True"
| "reads (HGET k f) = True"
| "reads (HGETALL k) = True"
| "reads (SMEMBERS k) = True"
| "reads (ZRANGE k) = True"
| "reads (ZSCORE k m) = True"
| "reads (ZCARD k) = True"
| "reads (ZRANGEBYSCORE k lo hi) = True"
| "reads _ = False"

lemma effect_reads [simp]: "reads c \<Longrightarrow> effect c ks = ks"
  by (cases c) simp_all

lemma effect_frame: "cmd_key c = Some k \<Longrightarrow> k' \<noteq> k \<Longrightarrow> effect c ks k' = ks k'"
  by (cases c) (auto simp: put_set_def put_zset_def split: option.splits rvalue.splits)

text \<open>A key space that Redis can hold: finite values, no empty aggregate, no time to live below zero.\<close>

fun wf_value :: "rvalue \<Rightarrow> bool" where
  "wf_value (VStr v) = True"
| "wf_value (VHash h) = (finite (dom h))"
| "wf_value (VSet S) = (finite S \<and> S \<noteq> {})"
| "wf_value (VZSet z) = (finite (dom z) \<and> z \<noteq> Map.empty)"

definition wf_keyspace :: "keyspace \<Rightarrow> bool" where
  "wf_keyspace ks \<longleftrightarrow> (\<forall>k v t. ks k = Some (v, t) \<longrightarrow> wf_value v \<and> (\<forall>d. t = Some d \<longrightarrow> 0 < d))"

lemma wf_keyspaceD:
  assumes "wf_keyspace ks" "ks k = Some (v, t)"
  shows "wf_value v" "t = Some d \<Longrightarrow> 0 < d"
  using assms by (auto simp: wf_keyspace_def)

lemma wf_keyspace_upd [wf_intros]:
  "wf_keyspace ks \<Longrightarrow> wf_value v \<Longrightarrow> (\<And>d. t = Some d \<Longrightarrow> 0 < d) \<Longrightarrow> wf_keyspace (ks(k \<mapsto> (v, t)))"
  by (auto simp: wf_keyspace_def)

lemma wf_keyspace_del [wf_intros]: "wf_keyspace ks \<Longrightarrow> wf_keyspace (ks(k := None))"
  by (auto simp: wf_keyspace_def)

lemma finite_dom_foldl:
  "finite (dom h) \<Longrightarrow> finite (dom (foldl (\<lambda>h (f, v). h(f \<mapsto> v)) h fvs))"
  by (induction fvs arbitrary: h) auto

lemma wf_keyspace_advance [wf_intros]: "wf_keyspace ks \<Longrightarrow> wf_keyspace (advance d ks)"
  by (auto simp: wf_keyspace_def advance_def split: option.splits if_splits)

lemma wf_keyspace_effect [wf_intros]:
  assumes "wf_keyspace ks" "cmd_key c = Some k"
  shows "wf_keyspace (effect c ks)"
proof (cases "ks k")
  case None
  with assms show ?thesis
    by (cases c) (auto intro!: wf_keyspace_upd wf_keyspace_del finite_dom_foldl simp: ttl_of_def split: if_splits)
next
  case (Some a)
  obtain v t where vt: "ks k = Some (v, t)" using Some by (cases a) auto
  note wf = wf_keyspaceD [OF assms(1) vt]
  from assms vt wf show ?thesis
    by (cases c)
       (auto intro!: wf_keyspace_upd wf_keyspace_del finite_dom_foldl
             simp: ttl_of_def put_set_def put_zset_def split: rvalue.splits option.splits if_splits)
qed

section \<open>The contract\<close>

locale redis_server =
  fixes exec :: "'r redis" and view :: "'r \<Rightarrow> keyspace"
  assumes step: "exec c s = (r, s') \<Longrightarrow> step_ok c (view s) r (view s')"
begin

lemma answered:
  assumes "exec c s = (r, s')" "\<not> is_err r"
  shows "reply_ok c (view s) r" "view s' = effect c (view s)"
  using step [OF assms(1)] assms(2) by (simp_all add: step_ok_def)

lemma view_cases:
  assumes "exec c s = (r, s')"
  obtains "view s' = view s" "is_err r" | "view s' = effect c (view s)"
  using step [OF assms] by (auto simp: step_ok_def split: if_splits)

lemma read_only: "reads c \<Longrightarrow> exec c s = (r, s') \<Longrightarrow> view s' = view s"
  using step [of c s r s'] by (auto simp: step_ok_def split: if_splits)

lemma frame: "exec c s = (r, s') \<Longrightarrow> cmd_key c = Some k \<Longrightarrow> k' \<noteq> k \<Longrightarrow> view s' k' = view s k'"
  using step [of c s r s'] by (auto simp: step_ok_def effect_frame split: if_splits)

lemma wf_step: "exec c s = (r, s') \<Longrightarrow> cmd_key c = Some k \<Longrightarrow> wf_keyspace (view s) \<Longrightarrow> wf_keyspace (view s')"
  by (metis view_cases wf_keyspace_effect)

lemma incr_reply:
  assumes "exec (INCR k) s = (RInt n, s')"
  shows "answer (INCR k) (view s) = RInt n" "view s' = effect (INCR k) (view s)"
    and "\<exists>t. view s' k = Some (VStr (show_int n), t) \<and> t = ttl_of (view s) k"
  using answered [OF assms]
  by (auto simp: ttl_of_def wrongtype_def split: option.splits rvalue.splits)

end

text \<open>The client's pipeline: the commands one after the other, the first error returned.\<close>

fun pipe_exec :: "'r redis \<Rightarrow> rcmd list \<Rightarrow> 'r \<Rightarrow> error option \<times> 'r" where
  "pipe_exec exec [] s = (None, s)"
| "pipe_exec exec (c # cs) s =
     (let (r, s1) = exec c s; (e, s2) = pipe_exec exec cs s1
      in (case err_result r of Some e0 \<Rightarrow> (Some e0, s2) | None \<Rightarrow> (e, s2)))"

lemma err_result_NoneD: "err_result r = None \<Longrightarrow> \<not> is_err r"
  by (cases r) simp_all

context redis_server
begin

lemma pipe_ok: "pipe_exec exec cs s = (None, s') \<Longrightarrow> view s' = fold effect cs (view s)"
proof (induction cs arbitrary: s)
  case Nil
  then show ?case by simp
next
  case (Cons c cs)
  obtain r s1 where c: "exec c s = (r, s1)" by fastforce
  with Cons.prems have r: "err_result r = None" and cs: "pipe_exec exec cs s1 = (None, s')"
    by (auto simp: Let_def split: option.splits prod.splits)
  from c r have "view s1 = effect c (view s)" by (simp add: answered(2) err_result_NoneD)
  with Cons.IH [OF cs] show ?case by simp
qed

lemma pipe_frame:
  "pipe_exec exec cs s = (e, s') \<Longrightarrow> \<forall>c \<in> set cs. \<exists>k. cmd_key c = Some k \<and> k' \<noteq> k \<Longrightarrow> view s' k' = view s k'"
proof (induction cs arbitrary: s e)
  case Nil
  then show ?case by simp
next
  case (Cons c cs)
  obtain r s1 where c: "exec c s = (r, s1)" by fastforce
  obtain e2 where cs: "pipe_exec exec cs s1 = (e2, s')"
    using Cons.prems(1) c by (auto simp: Let_def split: option.splits prod.splits)
  from c Cons.prems(2) have "view s1 k' = view s k'" by (auto intro: frame)
  with Cons.IH [OF cs] Cons.prems(2) show ?case by simp
qed

lemma pipe_wf:
  "pipe_exec exec cs s = (e, s') \<Longrightarrow> \<forall>c \<in> set cs. cmd_key c \<noteq> None \<Longrightarrow> wf_keyspace (view s) \<Longrightarrow> wf_keyspace (view s')"
proof (induction cs arbitrary: s e)
  case Nil
  then show ?case by simp
next
  case (Cons c cs)
  obtain r s1 where c: "exec c s = (r, s1)" by fastforce
  obtain e2 where cs: "pipe_exec exec cs s1 = (e2, s')"
    using Cons.prems(1) c by (auto simp: Let_def split: option.splits prod.splits)
  from c Cons.prems(2,3) have "wf_keyspace (view s1)" by (auto intro: wf_step)
  with Cons.IH [OF cs] Cons.prems(2) show ?case by simp
qed

end

text \<open>A server that is up and reached: a command whose key has the right type is answered.\<close>

locale reliable_redis = redis_server +
  assumes reliable: "\<not> is_err (answer c (view s)) \<Longrightarrow> \<not> is_err (fst (exec c s))"
begin

lemma answers:
  assumes "\<not> is_err (answer c (view s))"
  obtains r s' where "exec c s = (r, s')" "\<not> is_err r" "reply_ok c (view s) r" "view s' = effect c (view s)"
  using reliable [OF assms] answered by (metis prod.collapse)

end

text \<open>A server with a clock: \<open>wait d\<close> lets the duration \<open>d\<close> pass.\<close>

locale redis_clock = redis_server +
  fixes wait :: "Duration \<Rightarrow> 'r \<Rightarrow> 'r"
  assumes wait_view: "view (wait d s) = advance d (view s)"

locale reliable_redis_clock = reliable_redis + redis_clock

text \<open>The documented semantics meets the contracts.\<close>

lemma reply_ok_answer: "\<not> is_err (answer c ks) \<Longrightarrow> reply_ok c ks (answer c ks)"
proof (cases c)
  case (TTL k)
  moreover have "\<bar>m - m mod 1000000000 - m\<bar> < (1000000000 :: int)" for m :: int
    by simp
  ultimately show ?thesis
    by (auto simp: ttl_of_def minus_mod_eq_div_mult [symmetric] zmod_le_nonneg_dividend split: option.splits)
qed (auto simp: wrongtype_def split: option.splits rvalue.splits)

interpretation rref: reliable_redis rcall "\<lambda>ks. ks"
  by unfold_locales (auto simp: rcall_def step_ok_def reply_ok_answer)

interpretation rclk: reliable_redis_clock rcall "\<lambda>ks. ks" advance
  by unfold_locales simp

end
