(* ===== verification/Messaging.thy ===== *)
theory Messaging
  imports Prelude "HOL-Library.AList"
begin

text \<open>
  \<open>internal/messaging/nats.go\<close>: the wrapper of the NATS client.  The library
  \<open>github.com/nats-io/nats.go\<close> is a parameter: publishing, subscribing, which gives a handle, and
  ending a subscription.  A handler is a value of a type \<open>'h\<close>; the wrapper keeps the handle of the
  latest subscription under each key, and the contract \<open>nats_server\<close> says which subscriptions are active.
\<close>

section \<open>The wrapper\<close>

record ('e, 'h) nats =
  nats_publish :: "string \<Rightarrow> string \<Rightarrow> 'e \<Rightarrow> error option \<times> 'e"
  nats_subscribe :: "string \<Rightarrow> 'h \<Rightarrow> 'e \<Rightarrow> nat result \<times> 'e"
  nats_unsubscribe :: "nat \<Rightarrow> 'e \<Rightarrow> error option \<times> 'e"
  nats_drain_sub :: "nat \<Rightarrow> 'e \<Rightarrow> error option \<times> 'e"
  nats_drain :: "'e \<Rightarrow> error option \<times> 'e"

definition SubjectMatchRequest :: string where "SubjectMatchRequest = ''match.request''"
definition SubjectMatchCancel :: string where "SubjectMatchCancel = ''match.cancel''"
definition SubjectMatchFound :: string where "SubjectMatchFound = ''match.found''"
definition SubjectMatchNotify :: string where "SubjectMatchNotify = ''match.notify''"
definition SubjectChat :: string where "SubjectChat = ''chat''"
definition SubjectModeration :: string where "SubjectModeration = ''moderation.check''"
definition SubjectModerationResult :: string where "SubjectModerationResult = ''moderation.result''"

lemmas subject_defs = SubjectMatchRequest_def SubjectMatchCancel_def SubjectMatchFound_def SubjectMatchNotify_def
  SubjectChat_def SubjectModeration_def SubjectModerationResult_def

type_synonym subs = "string \<rightharpoonup> nat"

definition Publish :: "('e, 'h, 'z) nats_scheme \<Rightarrow> string \<Rightarrow> string \<Rightarrow> 'e \<Rightarrow> error option \<times> 'e" where
  "Publish N subject data e = nats_publish N subject data e"

definition Subscribe :: "('e, 'h, 'z) nats_scheme \<Rightarrow> string \<Rightarrow> 'h \<Rightarrow> subs \<Rightarrow> 'e \<Rightarrow> error option \<times> subs \<times> 'e" where
  "Subscribe N subject handler subs e =
     (case nats_subscribe N subject handler e of
        (Inl err, e1) \<Rightarrow> (Some (ErrWrap (''nats subscribe '' @ subject) err), subs, e1)
      | (Inr sub, e1) \<Rightarrow> (None, subs(subject \<mapsto> sub), e1))"

definition SubscribeToChat ::
    "('e, 'h, 'z) nats_scheme \<Rightarrow> string \<Rightarrow> string \<Rightarrow> 'h \<Rightarrow> subs \<Rightarrow> 'e \<Rightarrow> error option \<times> subs \<times> 'e" where
  "SubscribeToChat N chatID sessionID handler subs e =
     (let subject = SubjectChat @ ''.'' @ chatID;
          key = ''chatsub:'' @ sessionID
      in case nats_subscribe N subject handler e of
           (Inl err, e1) \<Rightarrow> (Some (ErrWrap (''nats subscribe '' @ subject) err), subs, e1)
         | (Inr sub, e1) \<Rightarrow> (None, subs(key \<mapsto> sub), e1))"

definition unsubscribe :: "('e, 'h, 'z) nats_scheme \<Rightarrow> string \<Rightarrow> subs \<Rightarrow> 'e \<Rightarrow> error option \<times> subs \<times> 'e" where
  "unsubscribe N subject subs e =
     (case subs subject of
        None \<Rightarrow> (Some (ErrText (''nats: no subscription for subject '' @ subject)), subs, e)
      | Some sub \<Rightarrow>
          (let subs1 = subs(subject := None)
           in case nats_unsubscribe N sub e of
                (Some err, e1) \<Rightarrow> (Some (ErrWrap (''nats unsubscribe '' @ subject) err), subs1, e1)
              | (None, e1) \<Rightarrow> (None, subs1, e1)))"

definition UnsubscribeFromChat :: "('e, 'h, 'z) nats_scheme \<Rightarrow> string \<Rightarrow> subs \<Rightarrow> 'e \<Rightarrow> error option \<times> subs \<times> 'e" where
  "UnsubscribeFromChat N sessionID = unsubscribe N (''chatsub:'' @ sessionID)"

definition PublishChatMessage :: "('e, 'h, 'z) nats_scheme \<Rightarrow> string \<Rightarrow> string \<Rightarrow> 'e \<Rightarrow> error option \<times> 'e" where
  "PublishChatMessage N chatID data = Publish N (SubjectChat @ ''.'' @ chatID) data"

definition PublishMatchRequest :: "('e, 'h, 'z) nats_scheme \<Rightarrow> string \<Rightarrow> 'e \<Rightarrow> error option \<times> 'e" where
  "PublishMatchRequest N data = Publish N SubjectMatchRequest data"

definition SubscribeMatchFound :: "('e, 'h, 'z) nats_scheme \<Rightarrow> string \<Rightarrow> 'h \<Rightarrow> subs \<Rightarrow> 'e \<Rightarrow> error option \<times> subs \<times> 'e" where
  "SubscribeMatchFound N sessionID = Subscribe N (SubjectMatchFound @ ''.'' @ sessionID)"

definition UnsubscribeMatchFound :: "('e, 'h, 'z) nats_scheme \<Rightarrow> string \<Rightarrow> subs \<Rightarrow> 'e \<Rightarrow> error option \<times> subs \<times> 'e" where
  "UnsubscribeMatchFound N sessionID = unsubscribe N (SubjectMatchFound @ ''.'' @ sessionID)"

definition SubscribeMatchRequest :: "('e, 'h, 'z) nats_scheme \<Rightarrow> 'h \<Rightarrow> subs \<Rightarrow> 'e \<Rightarrow> error option \<times> subs \<times> 'e" where
  "SubscribeMatchRequest N = Subscribe N SubjectMatchRequest"

definition SubscribeMatchCancel :: "('e, 'h, 'z) nats_scheme \<Rightarrow> 'h \<Rightarrow> subs \<Rightarrow> 'e \<Rightarrow> error option \<times> subs \<times> 'e" where
  "SubscribeMatchCancel N = Subscribe N SubjectMatchCancel"

definition PublishMatchCancel :: "('e, 'h, 'z) nats_scheme \<Rightarrow> string \<Rightarrow> 'e \<Rightarrow> error option \<times> 'e" where
  "PublishMatchCancel N data = Publish N SubjectMatchCancel data"

definition SubscribeMatchNotify :: "('e, 'h, 'z) nats_scheme \<Rightarrow> string \<Rightarrow> 'h \<Rightarrow> subs \<Rightarrow> 'e \<Rightarrow> error option \<times> subs \<times> 'e" where
  "SubscribeMatchNotify N sessionID = Subscribe N (SubjectMatchNotify @ ''.'' @ sessionID)"

definition UnsubscribeMatchNotify :: "('e, 'h, 'z) nats_scheme \<Rightarrow> string \<Rightarrow> subs \<Rightarrow> 'e \<Rightarrow> error option \<times> subs \<times> 'e" where
  "UnsubscribeMatchNotify N sessionID = unsubscribe N (SubjectMatchNotify @ ''.'' @ sessionID)"

definition PublishMatchNotify :: "('e, 'h, 'z) nats_scheme \<Rightarrow> string \<Rightarrow> string \<Rightarrow> 'e \<Rightarrow> error option \<times> 'e" where
  "PublishMatchNotify N sessionID data = Publish N (SubjectMatchNotify @ ''.'' @ sessionID) data"

definition PublishModerationRequest :: "('e, 'h, 'z) nats_scheme \<Rightarrow> string \<Rightarrow> 'e \<Rightarrow> error option \<times> 'e" where
  "PublishModerationRequest N data = Publish N SubjectModeration data"

definition SubscribeModerationCheck :: "('e, 'h, 'z) nats_scheme \<Rightarrow> 'h \<Rightarrow> subs \<Rightarrow> 'e \<Rightarrow> error option \<times> subs \<times> 'e" where
  "SubscribeModerationCheck N = Subscribe N SubjectModeration"

definition PublishModerationResult :: "('e, 'h, 'z) nats_scheme \<Rightarrow> string \<Rightarrow> string \<Rightarrow> 'e \<Rightarrow> error option \<times> 'e" where
  "PublishModerationResult N sessionID data = Publish N (SubjectModerationResult @ ''.'' @ sessionID) data"

definition SubscribeModerationResult :: "('e, 'h, 'z) nats_scheme \<Rightarrow> string \<Rightarrow> 'h \<Rightarrow> subs \<Rightarrow> 'e \<Rightarrow> error option \<times> subs \<times> 'e" where
  "SubscribeModerationResult N sessionID = Subscribe N (SubjectModerationResult @ ''.'' @ sessionID)"

definition UnsubscribeModerationResult :: "('e, 'h, 'z) nats_scheme \<Rightarrow> string \<Rightarrow> subs \<Rightarrow> 'e \<Rightarrow> error option \<times> subs \<times> 'e" where
  "UnsubscribeModerationResult N sessionID = unsubscribe N (SubjectModerationResult @ ''.'' @ sessionID)"

text \<open>\<open>Close\<close> drains the subscriptions in the order in which Go visits the map, then the connection.\<close>

fun drain_all :: "('e, 'h, 'z) nats_scheme \<Rightarrow> nat list \<Rightarrow> 'e \<Rightarrow> 'e" where
  "drain_all N [] e = e"
| "drain_all N (sub # rest) e = drain_all N rest (snd (nats_drain_sub N sub e))"

definition Close :: "('e, 'h, 'z) nats_scheme \<Rightarrow> string list \<Rightarrow> subs \<Rightarrow> 'e \<Rightarrow> subs \<times> 'e" where
  "Close N keys subs e =
     (let e1 = drain_all N (List.map_filter subs keys) e; (_, e2) = nats_drain N e1
      in (Map.empty, e2))"

section \<open>The contract\<close>

text \<open>
  \<open>active\<close> gives the active subscriptions: handle, subject and handler; \<open>sent\<close> the messages
  published so far.  A new subscription has a new handle.  A call that fails has had its effect or not.
\<close>

locale nats_server =
  fixes N :: "('e, 'h, 'z) nats_scheme"
    and active :: "'e \<Rightarrow> nat \<rightharpoonup> string \<times> 'h" and sent :: "'e \<Rightarrow> (string \<times> string) list"
  assumes publish_active: "nats_publish N subject data e = (r, e') \<Longrightarrow> active e' = active e"
    and publish_ok: "nats_publish N subject data e = (None, e') \<Longrightarrow> sent e' = sent e @ [(subject, data)]"
    and publish_err: "nats_publish N subject data e = (Some err, e') \<Longrightarrow>
      sent e' = sent e \<or> sent e' = sent e @ [(subject, data)]"
    and subscribe_sent: "nats_subscribe N subject h e = (x, e') \<Longrightarrow> sent e' = sent e"
    and subscribe_ok: "nats_subscribe N subject h e = (Inr sub, e') \<Longrightarrow>
      active e sub = None \<and> active e' = (active e)(sub \<mapsto> (subject, h))"
    and subscribe_err: "nats_subscribe N subject h e = (Inl err, e') \<Longrightarrow> active e' = active e"
    and unsubscribe_sent: "nats_unsubscribe N sub e = (r, e') \<Longrightarrow> sent e' = sent e"
    and unsubscribe_ok: "nats_unsubscribe N sub e = (None, e') \<Longrightarrow> active e' = (active e)(sub := None)"
    and unsubscribe_err: "nats_unsubscribe N sub e = (Some err, e') \<Longrightarrow>
      active e' = active e \<or> active e' = (active e)(sub := None)"
    and drain_sub_ok: "nats_drain_sub N sub e = (None, e') \<Longrightarrow> active e' = (active e)(sub := None)"
    and drain_ok: "nats_drain N e = (None, e') \<Longrightarrow> active e' = Map.empty"

text \<open>
  The wrapper has track of a connection's subscriptions: every active one is kept under exactly one key,
  and every handle kept is active, so that each can be ended by its key.
\<close>

definition tracked :: "subs \<Rightarrow> (nat \<rightharpoonup> 'x) \<Rightarrow> bool" where
  "tracked subs act \<longleftrightarrow> ran subs = dom act \<and> (\<forall>k k' sub. subs k = Some sub \<longrightarrow> subs k' = Some sub \<longrightarrow> k = k')"

lemma tracked_empty [simp]: "tracked Map.empty Map.empty"
  by (simp add: tracked_def)

lemma tracked_add:
  assumes "tracked subs act" "subs k = None" "act sub = None"
  shows "tracked (subs(k \<mapsto> sub)) (act(sub \<mapsto> x))"
proof -
  have "sub \<notin> ran subs" using assms by (auto simp: tracked_def)
  then have "subs k' \<noteq> Some sub" for k' by (auto simp: ran_def)
  with assms show ?thesis by (auto simp: tracked_def)
qed

lemma tracked_del:
  assumes "tracked subs act" "subs k = Some sub"
  shows "tracked (subs(k := None)) (act(sub := None))"
proof -
  have "ran (subs(k := None)) = ran subs - {sub}"
  proof (intro set_eqI iffI)
    show "x \<in> ran subs - {sub}" if "x \<in> ran (subs(k := None))" for x
      using that assms by (fastforce simp: tracked_def ran_def split: if_splits)
  next
    fix x assume x: "x \<in> ran subs - {sub}"
    then obtain key where "subs key = Some x" by (auto simp: ran_def)
    with x assms(2) have "(subs(k := None)) key = Some x" by auto
    then show "x \<in> ran (subs(k := None))" by (rule ranI)
  qed
  with assms show ?thesis by (auto simp: tracked_def)
qed

text \<open>The calls on the wrapper as a sequence, with the results they return.\<close>

datatype 'h nats_op =
    OpPublish string string
  | OpSubscribe string 'h
  | OpChat string string 'h
  | OpUnsubscribe string
  | OpLeaveChat string

fun nats_exec :: "('e, 'h, 'z) nats_scheme \<Rightarrow> 'h nats_op \<Rightarrow> subs \<times> 'e \<Rightarrow> error option \<times> subs \<times> 'e" where
  "nats_exec N (OpPublish subject data) (subs, e) = (let (r, e1) = Publish N subject data e in (r, subs, e1))"
| "nats_exec N (OpSubscribe subject h) (subs, e) = Subscribe N subject h subs e"
| "nats_exec N (OpChat chatID sid h) (subs, e) = SubscribeToChat N chatID sid h subs e"
| "nats_exec N (OpUnsubscribe subject) (subs, e) = unsubscribe N subject subs e"
| "nats_exec N (OpLeaveChat sid) (subs, e) = UnsubscribeFromChat N sid subs e"

fun nats_run :: "('e, 'h, 'z) nats_scheme \<Rightarrow> 'h nats_op list \<Rightarrow> subs \<times> 'e \<Rightarrow> error option list \<times> subs \<times> 'e" where
  "nats_run N [] st = ([], st)"
| "nats_run N (x # xs) st = (let (r, st1) = nats_exec N x st; (rs, st2) = nats_run N xs st1 in (r # rs, st2))"

text \<open>No key is subscribed again while it is held.\<close>

fun op_key :: "'h nats_op \<Rightarrow> string option" where
  "op_key (OpSubscribe subject h) = Some subject"
| "op_key (OpChat chatID sid h) = Some (''chatsub:'' @ sid)"
| "op_key _ = None"

fun op_frees :: "'h nats_op \<Rightarrow> string option" where
  "op_frees (OpUnsubscribe subject) = Some subject"
| "op_frees (OpLeaveChat sid) = Some (''chatsub:'' @ sid)"
| "op_frees _ = None"

fun keys_fresh :: "string set \<Rightarrow> 'h nats_op list \<Rightarrow> bool" where
  "keys_fresh K [] = True"
| "keys_fresh K (x # xs) =
     (case op_key x of
        Some k \<Rightarrow> k \<notin> K \<and> keys_fresh (insert k K) xs
      | None \<Rightarrow> keys_fresh (case op_frees x of Some k \<Rightarrow> K - {k} | None \<Rightarrow> K) xs)"

context nats_server
begin

lemma Subscribe_ok:
  assumes "Subscribe N subject h subs e = (None, subs', e')"
  obtains sub where "active e sub = None" "active e' = (active e)(sub \<mapsto> (subject, h))" "subs' = subs(subject \<mapsto> sub)"
  using assms by (auto simp: Subscribe_def dest!: subscribe_ok split: prod.splits sum.splits)

lemma SubscribeToChat_ok:
  assumes "SubscribeToChat N chatID sid h subs e = (None, subs', e')"
  obtains sub where "active e sub = None" "active e' = (active e)(sub \<mapsto> (SubjectChat @ ''.'' @ chatID, h))"
    "subs' = subs(''chatsub:'' @ sid \<mapsto> sub)"
  using assms by (auto simp: SubscribeToChat_def Let_def dest!: subscribe_ok split: prod.splits sum.splits)

lemma unsubscribe_okE:
  assumes "unsubscribe N key subs e = (None, subs', e')"
  obtains sub where "subs key = Some sub" "active e' = (active e)(sub := None)" "subs' = subs(key := None)"
  using assms by (auto simp: unsubscribe_def Let_def dest!: unsubscribe_ok split: option.splits prod.splits)

lemma nats_exec_tracked:
  assumes "nats_exec N x (subs, e) = (None, subs', e')" "tracked subs (active e)" "\<forall>k. op_key x = Some k \<longrightarrow> subs k = None"
  shows "tracked subs' (active e')"
    and "dom subs' = (case op_key x of Some k \<Rightarrow> insert k (dom subs) | None \<Rightarrow> (case op_frees x of Some k \<Rightarrow> dom subs - {k} | None \<Rightarrow> dom subs))"
proof -
  have "tracked subs' (active e') \<and>
    dom subs' = (case op_key x of Some k \<Rightarrow> insert k (dom subs) | None \<Rightarrow> (case op_frees x of Some k \<Rightarrow> dom subs - {k} | None \<Rightarrow> dom subs))"
  proof (cases x)
    case (OpPublish subject data)
    with assms show ?thesis by (auto simp: Publish_def dest: publish_active split: prod.splits)
  next
    case (OpSubscribe subject h)
    with assms(1) obtain sub where "active e sub = None" "active e' = (active e)(sub \<mapsto> (subject, h))" "subs' = subs(subject \<mapsto> sub)"
      by (auto elim: Subscribe_ok)
    with OpSubscribe assms(2,3) show ?thesis by (simp add: tracked_add)
  next
    case (OpChat c sid h)
    with assms(1) obtain sub where "active e sub = None" "active e' = (active e)(sub \<mapsto> (SubjectChat @ ''.'' @ c, h))"
      "subs' = subs(''chatsub:'' @ sid \<mapsto> sub)" by (auto elim: SubscribeToChat_ok)
    with OpChat assms(2,3) show ?thesis by (simp add: tracked_add)
  next
    case (OpUnsubscribe subject)
    with assms(1) obtain sub where "subs subject = Some sub" "active e' = (active e)(sub := None)" "subs' = subs(subject := None)"
      by (auto elim: unsubscribe_okE)
    with OpUnsubscribe assms(2) show ?thesis by (simp add: tracked_del)
  next
    case (OpLeaveChat sid)
    with assms(1) obtain sub where "subs (''chatsub:'' @ sid) = Some sub" "active e' = (active e)(sub := None)"
      "subs' = subs(''chatsub:'' @ sid := None)" by (auto simp: UnsubscribeFromChat_def elim: unsubscribe_okE)
    with OpLeaveChat assms(2) show ?thesis by (simp add: tracked_del)
  qed
  then show "tracked subs' (active e')"
    and "dom subs' = (case op_key x of Some k \<Rightarrow> insert k (dom subs) | None \<Rightarrow> (case op_frees x of Some k \<Rightarrow> dom subs - {k} | None \<Rightarrow> dom subs))"
    by auto
qed

lemma nats_run_tracked:
  "nats_run N xs (subs, e) = (rs, subs', e') \<Longrightarrow> list_all (\<lambda>r. r = None) rs \<Longrightarrow> keys_fresh (dom subs) xs \<Longrightarrow>
   tracked subs (active e) \<Longrightarrow> tracked subs' (active e')"
proof (induction xs arbitrary: subs e rs)
  case (Cons x xs)
  obtain r subs1 e1 where x: "nats_exec N x (subs, e) = (r, subs1, e1)" by (cases "nats_exec N x (subs, e)") auto
  obtain rs2 where xs: "nats_run N xs (subs1, e1) = (rs2, subs', e')" "r = None" "list_all (\<lambda>r. r = None) rs2"
    using Cons.prems(1,2) x by (auto simp: Let_def split: prod.splits)
  have k: "\<forall>k. op_key x = Some k \<longrightarrow> subs k = None" using Cons.prems(3) by auto
  note step = nats_exec_tracked [OF x [unfolded xs(2)] Cons.prems(4) k]
  have "keys_fresh (dom subs1) xs" using Cons.prems(3) step(2) by (auto split: option.splits)
  with Cons.IH [OF xs(1,3)] step(1) show ?case by simp
qed simp

lemma resubscribe:
  assumes "Subscribe N subject h subs e = (None, subs', e')" "subs subject = Some old" "tracked subs (active e)"
  shows "active e' old = active e old \<and> active e old \<noteq> None \<and> old \<notin> ran subs'"
proof -
  obtain sub where sub: "active e sub = None" "active e' = (active e)(sub \<mapsto> (subject, h))" "subs' = subs(subject \<mapsto> sub)"
    by (rule Subscribe_ok [OF assms(1)])
  have old: "old \<in> dom (active e)" using assms(2,3) by (auto simp: tracked_def ran_def)
  with sub assms show ?thesis by (auto simp: tracked_def ran_def)
qed

end

section \<open>A reference server\<close>

record 'h nats_world =
  nw_active :: "(nat \<times> string \<times> 'h) list"
  nw_sent :: "(string \<times> string) list"

definition nats_ref :: "(('h, 'z) nats_world_scheme, 'h) nats" where
  "nats_ref = \<lparr>
     nats_publish = (\<lambda>subject data w. (None, w\<lparr>nw_sent := nw_sent w @ [(subject, data)]\<rparr>)),
     nats_subscribe = (\<lambda>subject h w.
       (let sub = Suc (sum_list (map fst (nw_active w)))
        in (Inr sub, w\<lparr>nw_active := (sub, subject, h) # nw_active w\<rparr>))),
     nats_unsubscribe = (\<lambda>sub w. (None, w\<lparr>nw_active := AList.delete sub (nw_active w)\<rparr>)),
     nats_drain_sub = (\<lambda>sub w. (None, w\<lparr>nw_active := AList.delete sub (nw_active w)\<rparr>)),
     nats_drain = (\<lambda>w. (None, w\<lparr>nw_active := []\<rparr>))\<rparr>"

lemma fresh_handle: "map_of xs (Suc (sum_list (map fst xs))) = None"
proof -
  have "k \<le> sum_list (map fst xs)" if "k \<in> fst ` set xs" for k :: nat
    using member_le_sum_list [of k "map fst xs"] that by simp
  then show ?thesis by (force simp: map_of_eq_None_iff)
qed

interpretation nref: nats_server nats_ref "\<lambda>w. map_of (nw_active w)" nw_sent
  by unfold_locales (auto simp: nats_ref_def Let_def delete_conv' fresh_handle)

section \<open>Properties\<close>

text \<open>
  C30.  From any state the wrapper has track of, a sequence of calls that all succeed and never
  subscribe under a key that is still held keeps track: the subscriptions active at the server are exactly those the
  wrapper holds, each under one key.
\<close>

theorem subscriptions_tracked:
  assumes "nats_server N active sent" and "tracked subs (active e)" and "keys_fresh (dom subs) calls"
    and "nats_run N calls (subs, e) = (rs, subs', e')" and "list_all (\<lambda>r. r = None) rs"
  shows "tracked subs' (active e')"
  by (rule nats_server.nats_run_tracked [OF assms(1) assms(4,5,3,2)])

definition call_example :: "bool nats_op list" where
  "call_example = [OpSubscribe ''match.found.u'' True, OpChat ''c'' ''u'' False, OpUnsubscribe ''match.found.u'']"

theorem subscriptions_tracked_witness:
  "let (rs, subs', w) = nats_run nats_ref call_example (Map.empty, \<lparr>nw_active = [], nw_sent = []\<rparr>)
   in rs = [None, None, None] \<and> map_of (nw_active w) 3 = None \<and> tracked subs' (map_of (nw_active w))"
proof -
  let ?w = "\<lparr>nw_active = [], nw_sent = []\<rparr>"
  obtain rs subs' w where run: "nats_run nats_ref call_example (Map.empty, ?w) = (rs, subs', w)"
    by (cases "nats_run nats_ref call_example (Map.empty, ?w)") auto
  moreover have "rs = [None, None, None]" "map_of (nw_active w) 3 = None"
    using run by (auto simp: call_example_def Subscribe_def SubscribeToChat_def unsubscribe_def nats_ref_def)
  moreover have "keys_fresh (dom Map.empty) call_example" by (simp add: call_example_def)
  ultimately show ?thesis
    using subscriptions_tracked [OF nref.nats_server_axioms _ _ run] by simp
qed

text \<open>
  Subscribing under a key that is already held does not end the earlier subscription: it stays active,
  and no key leads to it any more, so that the wrapper can no longer end it.
\<close>

lemma resubscription_leaks:
  assumes "nats_server N active sent" and "tracked subs (active e)" and "subs subject = Some old"
    and "Subscribe N subject h subs e = (None, subs', e')"
  shows "active e' old = active e old \<and> active e old \<noteq> None \<and> old \<notin> ran subs'"
  by (rule nats_server.resubscribe [OF assms(1,4,3,2)])

lemma resubscription_leaks_witness:
  "let w = \<lparr>nw_active = [(1, ''moderation.result.u'', True)], nw_sent = []\<rparr>;
       (r, subs', w') = SubscribeModerationResult nats_ref ''u'' False [''moderation.result.u'' \<mapsto> 1] w
   in r = None \<and> map_of (nw_active w') 1 = Some (''moderation.result.u'', True) \<and> 1 \<notin> ran subs'"
proof -
  let ?w = "\<lparr>nw_active = [(1, ''moderation.result.u'', True)], nw_sent = []\<rparr>"
  let ?k = "''moderation.result.u''"
  obtain r subs' w' where run: "Subscribe nats_ref ?k False [?k \<mapsto> 1] ?w = (r, subs', w')"
    by (cases "Subscribe nats_ref ?k False [?k \<mapsto> 1] ?w") auto
  moreover have r: "r = None" using run by (simp add: Subscribe_def nats_ref_def)
  moreover have "tracked [?k \<mapsto> 1] (map_of (nw_active ?w))" by (simp add: tracked_def)
  ultimately show ?thesis
    using resubscription_leaks [OF nref.nats_server_axioms _ _ run [unfolded r], of 1]
    by (simp add: SubscribeModerationResult_def SubjectModerationResult_def)
qed

end
