(* ===== verification/World.thy ===== *)
theory World
  imports Redis Messaging
begin

text \<open>
  The services a process of the program is connected to, seen as one outside world: Redis, the NATS
  server, the clock and the source of identifiers.  The record \<open>env\<close> extends the NATS client with the
  others; \<open>world\<close> says that they do not interfere: a Redis command publishes nothing, and publishing
  or subscribing leaves the key space alone.
\<close>

section \<open>What Redis leaves alone\<close>

text \<open>A part \<open>f\<close> of the world that no Redis command changes.\<close>

locale redis_frame =
  fixes exec :: "'r redis" and f :: "'r \<Rightarrow> 'x"
  assumes redis_step: "exec c s = (r, s') \<Longrightarrow> f s' = f s"
begin

lemma pipe_step: "pipe_exec exec cs s = (r, s') \<Longrightarrow> f s' = f s"
proof (induction cs arbitrary: s r)
  case (Cons c cs)
  obtain x s1 where c: "exec c s = (x, s1)" by fastforce
  obtain r2 where "pipe_exec exec cs s1 = (r2, s')"
    using Cons.prems c by (auto simp: Let_def split: option.splits prod.splits)
  from Cons.IH [OF this] redis_step [OF c] show ?case by simp
qed simp

lemmas redis_snd [world_simps] = redis_step [OF surjective_pairing] pipe_step [OF surjective_pairing]

end

section \<open>Services\<close>

text \<open>
  \<open>env_now\<close> is the clock in nanoseconds since 1970, \<open>env_uuid\<close> is \<open>uuid.New().String()\<close>.
\<close>

record ('e, 'h) env = "('e, 'h) nats" +
  env_redis :: "'e redis"
  env_now :: "'e \<Rightarrow> int"
  env_uuid :: "'e \<Rightarrow> string \<times> 'e"

definition UnixMilli :: "('e, 'h, 'z) env_scheme \<Rightarrow> 'e \<Rightarrow> int" where
  "UnixMilli E e = env_now E e div Millisecond"

definition Unix :: "('e, 'h, 'z) env_scheme \<Rightarrow> 'e \<Rightarrow> int" where
  "Unix E e = env_now E e div Second"

locale world = rs: redis_server "env_redis E" view + ns: nats_server E active sent
  for E :: "('e, 'h, 'z) env_scheme" and view and active and sent +
  assumes redis_sent: "env_redis E c e = (r, e') \<Longrightarrow> sent e' = sent e"
    and redis_active: "env_redis E c e = (r, e') \<Longrightarrow> active e' = active e"
    and publish_view: "nats_publish E subject data e = (b, e') \<Longrightarrow> view e' = view e"
    and subscribe_view: "nats_subscribe E subject h e = (x, e') \<Longrightarrow> view e' = view e"
    and unsubscribe_view: "nats_unsubscribe E sub e = (b, e') \<Longrightarrow> view e' = view e"
    and uuid_view: "env_uuid E e = (i, e') \<Longrightarrow> view e' = view e"
    and uuid_sent: "env_uuid E e = (i, e') \<Longrightarrow> sent e' = sent e"
    and uuid_active: "env_uuid E e = (i, e') \<Longrightarrow> active e' = active e"
begin

lemma Publish_cases:
  assumes "Publish E subject data e = (r, e')"
  obtains "view e' = view e" "sent e' = sent e" "r \<noteq> None" | "view e' = view e" "sent e' = sent e @ [(subject, data)]"
  using assms publish_view ns.publish_ok ns.publish_err unfolding Publish_def by (cases r) blast+

lemmas world_snd [world_simps] =
  publish_view [OF surjective_pairing] subscribe_view [OF surjective_pairing] unsubscribe_view [OF surjective_pairing]
  uuid_view [OF surjective_pairing] uuid_sent [OF surjective_pairing] uuid_active [OF surjective_pairing]
  ns.publish_active [OF surjective_pairing] ns.subscribe_sent [OF surjective_pairing] ns.unsubscribe_sent [OF surjective_pairing]

lemma Publish_snd [world_simps]:
  "view (snd (Publish E subject data e)) = view e" "active (snd (Publish E subject data e)) = active e"
  by (simp_all add: Publish_def world_snd)

end

sublocale world \<subseteq> sf: redis_frame "env_redis E" sent
  by unfold_locales (rule redis_sent)

sublocale world \<subseteq> af: redis_frame "env_redis E" active
  by unfold_locales (rule redis_active)

text \<open>Redis and NATS up and reached.\<close>

locale reliable_world = world + rr: reliable_redis "env_redis E" view +
  assumes publish_reliable: "fst (nats_publish E subject data e) = None"
begin

lemma Publish_reliable:
  obtains e' where "Publish E subject data e = (None, e')" "view e' = view e" "sent e' = sent e @ [(subject, data)]"
proof -
  obtain e' where "nats_publish E subject data e = (None, e')" using publish_reliable by (metis prod.collapse)
  with that publish_view ns.publish_ok show thesis by (auto simp: Publish_def)
qed

end

section \<open>A reference world\<close>

record 'h ref_world = "'h nats_world" +
  wd_keys :: keyspace
  wd_now :: int
  wd_next :: nat

definition env_ref :: "(('h, 'z) ref_world_scheme, 'h) env" where
  "env_ref = nats.extend nats_ref
     \<lparr>env_redis = (\<lambda>c w. let (r, ks) = rcall c (wd_keys w) in (r, w\<lparr>wd_keys := ks\<rparr>)),
      env_now = wd_now,
      env_uuid = (\<lambda>w. (show_nat (wd_next w), w\<lparr>wd_next := Suc (wd_next w)\<rparr>))\<rparr>"

lemma env_ref_sel:
  "nats_publish env_ref = nats_publish nats_ref" "nats_subscribe env_ref = nats_subscribe nats_ref"
  "nats_unsubscribe env_ref = nats_unsubscribe nats_ref" "nats_drain_sub env_ref = nats_drain_sub nats_ref"
  "nats_drain env_ref = nats_drain nats_ref"
  "env_redis env_ref c w = (answer c (wd_keys w), w\<lparr>wd_keys := effect c (wd_keys w)\<rparr>)"
  "env_now env_ref w = wd_now w" "env_uuid env_ref w = (show_nat (wd_next w), w\<lparr>wd_next := Suc (wd_next w)\<rparr>)"
  by (simp_all add: env_ref_def nats_ref_def nats.defs rcall_def)

interpretation wref: reliable_world env_ref wd_keys "\<lambda>w. map_of (nw_active w)" nw_sent
  by unfold_locales
     (auto simp: env_ref_sel nats_ref_def Let_def delete_conv' fresh_handle step_ok_def reply_ok_answer)

end
