(* ===== verification/Connections.thy ===== *)
theory Connections
  imports World
begin

text \<open>
  \<open>connection.go\<close> and \<open>epoll.go\<close> of \<open>internal/ws\<close>: the registry of the open connections.  A
  \<open>*Connection\<close> is an address in a heap, since the registry, the event loop and the heartbeat share and
  change the same object; the two maps of the \<open>ConnectionManager\<close> and the map of the \<open>Epoll\<close> are association
  lists.  Sockets are numbers.  The system calls on them (reading and writing frames, closing, the registration with
  the kernel) are a parameter.
\<close>

section \<open>The network\<close>

datatype frame = TextFrame string | PingFrame

text \<open>The header \<open>wsutil.NextReader\<close> gives, or why it gives none.\<close>

datatype header =
    ReadTimedOut
  | ReadFailed error
  | ControlFrame bool
  | DataFrame int

text \<open>
  \<open>serverName\<close> is the name the session store was created with; \<open>net_fd\<close> is \<open>socketFD\<close>, the descriptor of a socket,
  which a closed socket no longer has; \<open>net_payload\<close> reads a payload of the given length, \<open>None\<close> when the connection breaks; \<open>net_discard\<close> throws the
  payload away; \<open>epoll_ctl\<close> adds (\<open>True\<close>) or removes a descriptor.
\<close>

record ('e, 'h) wsenv = "('e, 'h) env" +
  serverName :: string
  net_fd :: "nat \<Rightarrow> 'e \<Rightarrow> int"
  net_upgrade :: "'e \<Rightarrow> nat result \<times> 'e"
  net_next :: "nat \<Rightarrow> 'e \<Rightarrow> header \<times> 'e"
  net_payload :: "nat \<Rightarrow> int \<Rightarrow> 'e \<Rightarrow> string option \<times> 'e"
  net_discard :: "nat \<Rightarrow> 'e \<Rightarrow> 'e"
  net_write :: "nat \<Rightarrow> frame \<Rightarrow> 'e \<Rightarrow> error option \<times> 'e"
  net_close :: "nat \<Rightarrow> 'e \<Rightarrow> 'e"
  epoll_ctl :: "bool \<Rightarrow> int \<Rightarrow> 'e \<Rightarrow> error option \<times> 'e"

section \<open>Connections\<close>

record Connection =
  conn_ID :: string
  conn_Conn :: nat
  conn_Fd :: int
  conn_CreatedAt :: int
  conn_LastPing :: int
  conn_processing :: bool

type_synonym conn = nat

text \<open>
  The state of the server: the heap of connections and its first free address, the registry, the map of the
  \<open>Epoll\<close>, the flags of a shutdown, and the outside world.
\<close>

record 'e server =
  heap :: "conn \<Rightarrow> Connection"
  next_conn :: conn
  byID :: "(string \<times> conn) list"
  byFd :: "(int \<times> conn) list"
  epoll_conns :: "(int \<times> nat) list"
  draining :: bool
  world :: 'e

text \<open>A call on the outside world.\<close>

definition outside :: "('e \<Rightarrow> 'a \<times> 'e) \<Rightarrow> ('e, 'z) server_scheme \<Rightarrow> 'a \<times> ('e, 'z) server_scheme" where
  "outside f p = (let (x, e) = f (world p) in (x, p\<lparr>world := e\<rparr>))"

definition outside0 :: "('e \<Rightarrow> 'a \<times> 'e) \<Rightarrow> ('e, 'z) server_scheme \<Rightarrow> ('e, 'z) server_scheme" where
  "outside0 f p = snd (outside f p)"

definition WriteMessage ::
    "('e, 'h, 'y) wsenv_scheme \<Rightarrow> conn \<Rightarrow> string \<Rightarrow> ('e, 'z) server_scheme \<Rightarrow> error option \<times> ('e, 'z) server_scheme" where
  "WriteMessage E c data p = outside (net_write E (conn_Conn (heap p c)) (TextFrame data)) p"

definition WritePing ::
    "('e, 'h, 'y) wsenv_scheme \<Rightarrow> conn \<Rightarrow> ('e, 'z) server_scheme \<Rightarrow> error option \<times> ('e, 'z) server_scheme" where
  "WritePing E c p = outside (net_write E (conn_Conn (heap p c)) PingFrame) p"

definition Close :: "('e, 'h, 'y) wsenv_scheme \<Rightarrow> conn \<Rightarrow> ('e, 'z) server_scheme \<Rightarrow> ('e, 'z) server_scheme" where
  "Close E c p = p\<lparr>world := net_close E (conn_Conn (heap p c)) (world p)\<rparr>"

section \<open>The registry\<close>

definition Add :: "conn \<Rightarrow> ('e, 'z) server_scheme \<Rightarrow> ('e, 'z) server_scheme" where
  "Add c p = p\<lparr>byID := AList.update (conn_ID (heap p c)) c (byID p), byFd := AList.update (conn_Fd (heap p c)) c (byFd p)\<rparr>"

definition Remove ::
    "('e, 'h, 'y) wsenv_scheme \<Rightarrow> string \<Rightarrow> ('e, 'z) server_scheme \<Rightarrow> bool \<times> ('e, 'z) server_scheme" where
  "Remove E i p =
     (case map_of (byID p) i of
        None \<Rightarrow> (False, p)
      | Some c \<Rightarrow>
          (True, Close E c (p\<lparr>byID := AList.delete i (byID p), byFd := AList.delete (conn_Fd (heap p c)) (byFd p)\<rparr>)))"

definition RemoveByFd ::
    "('e, 'h, 'y) wsenv_scheme \<Rightarrow> int \<Rightarrow> ('e, 'z) server_scheme \<Rightarrow> conn option \<times> ('e, 'z) server_scheme" where
  "RemoveByFd E fd p =
     (case map_of (byFd p) fd of
        None \<Rightarrow> (None, p)
      | Some c \<Rightarrow>
          (Some c, Close E c (p\<lparr>byFd := AList.delete fd (byFd p), byID := AList.delete (conn_ID (heap p c)) (byID p)\<rparr>)))"

definition Get :: "string \<Rightarrow> ('e, 'z) server_scheme \<Rightarrow> conn option" where
  "Get i p = map_of (byID p) i"

definition GetByFd :: "int \<Rightarrow> ('e, 'z) server_scheme \<Rightarrow> conn option" where
  "GetByFd fd p = map_of (byFd p) fd"

definition GetByConn :: "('e, 'h, 'y) wsenv_scheme \<Rightarrow> nat \<Rightarrow> ('e, 'z) server_scheme \<Rightarrow> conn option" where
  "GetByConn E net p = GetByFd (net_fd E net (world p)) p"

definition Count :: "('e, 'z) server_scheme \<Rightarrow> int" where
  "Count p = int (length (byID p))"

text \<open>Ranging over \<open>byID\<close> visits the connections in any order; a parameter chooses one.\<close>

definition All :: "(conn list \<Rightarrow> conn list) \<Rightarrow> ('e, 'z) server_scheme \<Rightarrow> conn list" where
  "All ord p = ord (map snd (byID p))"

definition Broadcast ::
    "('e, 'h, 'y) wsenv_scheme \<Rightarrow> (conn list \<Rightarrow> conn list) \<Rightarrow> string \<Rightarrow> ('e, 'z) server_scheme \<Rightarrow> ('e, 'z) server_scheme" where
  "Broadcast E ord msg p = fold (\<lambda>c p. snd (WriteMessage E c msg p)) (All ord p) p"

section \<open>The event poll\<close>

definition epoll_Add ::
    "('e, 'h, 'y) wsenv_scheme \<Rightarrow> nat \<Rightarrow> ('e, 'z) server_scheme \<Rightarrow> error option \<times> ('e, 'z) server_scheme" where
  "epoll_Add E net p =
     (let fd = net_fd E net (world p)
      in case outside (epoll_ctl E True fd) p of
           (Some err, p1) \<Rightarrow> (Some err, p1)
         | (None, p1) \<Rightarrow> (None, p1\<lparr>epoll_conns := AList.update fd net (epoll_conns p1)\<rparr>))"

definition epoll_Remove ::
    "('e, 'h, 'y) wsenv_scheme \<Rightarrow> nat \<Rightarrow> ('e, 'z) server_scheme \<Rightarrow> error option \<times> ('e, 'z) server_scheme" where
  "epoll_Remove E net p =
     (let fd = net_fd E net (world p)
      in case outside (epoll_ctl E False fd) p of
           (Some err, p1) \<Rightarrow> (Some err, p1)
         | (None, p1) \<Rightarrow> (None, p1\<lparr>epoll_conns := AList.delete fd (epoll_conns p1)\<rparr>))"

text \<open>\<open>Wait\<close> after the kernel has reported the descriptors \<open>fds\<close>.\<close>

definition epoll_Wait :: "int list \<Rightarrow> ('e, 'z) server_scheme \<Rightarrow> nat list" where
  "epoll_Wait fds p = List.map_filter (map_of (epoll_conns p)) fds"

section \<open>The invariant of the registry\<close>

text \<open>
  Both maps hold the same connections, each under its own identifier and descriptor, and every connection held
  has been allocated.
\<close>

definition consistent :: "(conn \<Rightarrow> Connection) \<Rightarrow> conn \<Rightarrow> (string \<rightharpoonup> conn) \<Rightarrow> (int \<rightharpoonup> conn) \<Rightarrow> bool" where
  "consistent h n f g \<longleftrightarrow>
     (\<forall>i c. f i = Some c \<longrightarrow> conn_ID (h c) = i \<and> g (conn_Fd (h c)) = Some c \<and> c < n) \<and>
     (\<forall>fd c. g fd = Some c \<longrightarrow> conn_Fd (h c) = fd \<and> f (conn_ID (h c)) = Some c)"

definition registered :: "('e, 'z) server_scheme \<Rightarrow> bool" where
  "registered p \<longleftrightarrow> distinct (map fst (byID p)) \<and> distinct (map fst (byFd p)) \<and>
     consistent (heap p) (next_conn p) (map_of (byID p)) (map_of (byFd p))"

lemma consistent_add:
  "consistent h n f g \<Longrightarrow> f (conn_ID (h c)) = None \<Longrightarrow> g (conn_Fd (h c)) = None \<Longrightarrow> c < n \<Longrightarrow>
   consistent h n (f(conn_ID (h c) \<mapsto> c)) (g(conn_Fd (h c) \<mapsto> c))"
  by (auto simp: consistent_def) (metis option.distinct(1))+

lemma consistent_del:
  "consistent h n f g \<Longrightarrow> f i = Some c \<Longrightarrow> consistent h n (f(i := None)) (g(conn_Fd (h c) := None))"
  by (auto simp: consistent_def) (metis option.inject)+

lemma consistent_cong:
  assumes "\<And>c. conn_ID (h' c) = conn_ID (h c) \<and> conn_Fd (h' c) = conn_Fd (h c)"
  shows "consistent h' n f g \<longleftrightarrow> consistent h n f g"
  by (simp add: consistent_def assms)

text \<open>The parts of the state the registry consists of.\<close>

definition same_registry :: "('e, 'z) server_scheme \<Rightarrow> ('e, 'z) server_scheme \<Rightarrow> bool" where
  "same_registry p q \<longleftrightarrow> byID q = byID p \<and> byFd q = byFd p \<and> next_conn q = next_conn p \<and>
     (\<forall>c. conn_ID (heap q c) = conn_ID (heap p c) \<and> conn_Fd (heap q c) = conn_Fd (heap p c) \<and> conn_Conn (heap q c) = conn_Conn (heap p c))"

lemma same_registry_refl [simp]: "same_registry p p"
  by (simp add: same_registry_def)

lemma same_registry_trans: "same_registry p q \<Longrightarrow> same_registry q r \<Longrightarrow> same_registry p r"
  by (simp add: same_registry_def)

lemma registered_same: "same_registry p q \<Longrightarrow> registered p \<Longrightarrow> registered q"
  using consistent_cong [of "heap q" "heap p"] by (simp add: same_registry_def registered_def)

lemma registry_simps [simp]:
  "same_registry p (q\<lparr>world := e\<rparr>) = same_registry p q" "same_registry p (q\<lparr>epoll_conns := x\<rparr>) = same_registry p q"
  "same_registry p (q\<lparr>draining := b\<rparr>) = same_registry p q"
  by (simp_all add: same_registry_def)

lemma outside_registry [simp]:
  "same_registry p (snd (outside f q)) = same_registry p q" "same_registry p (outside0 f q) = same_registry p q"
  by (simp_all add: outside_def outside0_def case_prod_beta Let_def)

lemma call_registry [simp]:
  "same_registry p (snd (WriteMessage E c data q)) = same_registry p q"
  "same_registry p (snd (WritePing E c q)) = same_registry p q"
  "same_registry p (Close E c q) = same_registry p q"
  "same_registry p (snd (epoll_Add E net q)) = same_registry p q"
  "same_registry p (snd (epoll_Remove E net q)) = same_registry p q"
  by (simp_all add: WriteMessage_def WritePing_def Close_def epoll_Add_def epoll_Remove_def Let_def case_prod_beta split: option.split)

lemma Add_registered:
  assumes "registered p" "map_of (byID p) (conn_ID (heap p c)) = None" "map_of (byFd p) (conn_Fd (heap p c)) = None" "c < next_conn p"
  shows "registered (Add c p)"
  using assms consistent_add [of "heap p" "next_conn p"]
  by (simp add: registered_def Add_def AList.distinct_update AList.update_conv')

lemma Remove_registered:
  assumes "registered p"
  shows "registered (snd (Remove E i p))" "map_of (byID (snd (Remove E i p))) = (map_of (byID p))(i := None)"
    "fst (Remove E i p) \<longleftrightarrow> map_of (byID p) i \<noteq> None" "heap (snd (Remove E i p)) = heap p"
    "next_conn (snd (Remove E i p)) = next_conn p"
proof -
  show "registered (snd (Remove E i p))"
  proof (cases "map_of (byID p) i")
    case (Some c)
    let ?q = "p\<lparr>byID := AList.delete i (byID p), byFd := AList.delete (conn_Fd (heap p c)) (byFd p)\<rparr>"
    have "registered ?q"
      using assms consistent_del [of "heap p" "next_conn p" "map_of (byID p)" "map_of (byFd p)" i c] Some by (simp add: registered_def AList.distinct_delete AList.delete_conv')
    then have "registered (Close E c ?q)" by (rule registered_same [rotated]) simp
    with Some show ?thesis by (simp add: Remove_def)
  qed (use assms in \<open>simp add: Remove_def\<close>)
  show "map_of (byID (snd (Remove E i p))) = (map_of (byID p))(i := None)"
    by (auto simp: Remove_def Close_def AList.delete_conv' split: option.splits)
qed (auto simp: Remove_def Close_def split: option.splits)

end
