(* ===== verification/Session.thy ===== *)
theory Session
  imports Redis
begin

text \<open>
  \<open>internal/session/store.go\<close>: a user's session is the Redis hash \<open>session:<id>\<close>.  The store never
  reads before it writes, so an operation on a session that has expired writes a hash with a few
  of the fields only; \<open>Get\<close> tells such a remnant from a session by its missing \<open>id\<close>.
\<close>

section \<open>The store\<close>

definition SessionPrefix :: string where "SessionPrefix = ''session:''"
definition SessionTTL :: Duration where "SessionTTL = 1 * Hour"
definition StatusIdle :: string where "StatusIdle = ''idle''"
definition StatusMatching :: string where "StatusMatching = ''matching''"
definition StatusChatting :: string where "StatusChatting = ''chatting''"

record Session =
  sess_ID :: string
  sess_Status :: string
  sess_ChatID :: string
  sess_Server :: string
  sess_Interests :: string
  sess_Fingerprint :: string
  sess_CreatedAt :: int
  sess_LastActive :: int

definition Create :: "'r redis \<Rightarrow> string \<Rightarrow> int \<Rightarrow> string \<Rightarrow> 'r \<Rightarrow> error option \<times> 'r" where
  "Create R serverName now sessionID s =
     (let key = SessionPrefix @ sessionID;
          session =
            [(''id'', sessionID),
             (''status'', StatusIdle),
             (''chat_id'', []),
             (''server'', serverName),
             (''interests'', []),
             (''fingerprint'', []),
             (''created_at'', show_int now),
             (''last_active'', show_int now)]
      in pipe_exec R [HSET key session, EXPIRE key SessionTTL] s)"

text \<open>
  \<open>HGetAll(...).Scan(&session)\<close>: every field of the hash that the struct has is stored in it, a
  number by \<open>strconv.ParseInt\<close>; a field that is missing keeps its zero value.
\<close>

definition scan_int64 :: "(string \<rightharpoonup> string) \<Rightarrow> string \<Rightarrow> int result" where
  "scan_int64 h f =
     (case h f of
        None \<Rightarrow> Inr 0
      | Some v \<Rightarrow>
          (case parse_int v of
             None \<Rightarrow> Inl (ErrText ''cannot scan'')
           | Some n \<Rightarrow> if - (2 ^ 63) \<le> n \<and> n < 2 ^ 63 then Inr n else Inl (ErrText ''cannot scan'')))"

definition scan_session :: "(string \<rightharpoonup> string) \<Rightarrow> Session result" where
  "scan_session h =
     (case scan_int64 h ''created_at'' of
        Inl e \<Rightarrow> Inl e
      | Inr created \<Rightarrow>
          (case scan_int64 h ''last_active'' of
             Inl e \<Rightarrow> Inl e
           | Inr active \<Rightarrow> Inr \<lparr>
               sess_ID = field h ''id'',
               sess_Status = field h ''status'',
               sess_ChatID = field h ''chat_id'',
               sess_Server = field h ''server'',
               sess_Interests = field h ''interests'',
               sess_Fingerprint = field h ''fingerprint'',
               sess_CreatedAt = created,
               sess_LastActive = active\<rparr>))"

definition Get :: "'r redis \<Rightarrow> string \<Rightarrow> 'r \<Rightarrow> Session option result \<times> 'r" where
  "Get R sessionID s =
     (let key = SessionPrefix @ sessionID;
          (r, s1) = R (HGETALL key) s
      in case map_result r of
           Inl e \<Rightarrow> (Inl e, s1)
         | Inr h \<Rightarrow>
             (case scan_session h of
                Inl e \<Rightarrow> (Inl e, s1)
              | Inr session \<Rightarrow> if sess_ID session = [] then (Inr None, s1) else (Inr (Some session), s1)))"

definition UpdateStatus :: "'r redis \<Rightarrow> int \<Rightarrow> string \<Rightarrow> string \<Rightarrow> 'r \<Rightarrow> error option \<times> 'r" where
  "UpdateStatus R now sessionID status s =
     (let key = SessionPrefix @ sessionID
      in pipe_exec R
           [HSET key [(''status'', status), (''last_active'', show_int now)],
            EXPIRE key SessionTTL] s)"

definition SetInterests :: "'r redis \<Rightarrow> int \<Rightarrow> string \<Rightarrow> string \<Rightarrow> 'r \<Rightarrow> error option \<times> 'r" where
  "SetInterests R now sessionID interests s =
     (let key = SessionPrefix @ sessionID;
          (r, s1) = R (HSET key [(''interests'', interests), (''last_active'', show_int now)]) s
      in (err_result r, s1))"

definition SetChatID :: "'r redis \<Rightarrow> int \<Rightarrow> string \<Rightarrow> string \<Rightarrow> 'r \<Rightarrow> error option \<times> 'r" where
  "SetChatID R now sessionID chatID s =
     (let key = SessionPrefix @ sessionID;
          (r, s1) = R (HSET key [(''chat_id'', chatID), (''status'', StatusChatting),
                                 (''last_active'', show_int now)]) s
      in (err_result r, s1))"

definition ClearChatID :: "'r redis \<Rightarrow> int \<Rightarrow> string \<Rightarrow> 'r \<Rightarrow> error option \<times> 'r" where
  "ClearChatID R now sessionID s =
     (let key = SessionPrefix @ sessionID;
          (r, s1) = R (HSET key [(''chat_id'', []), (''status'', StatusIdle),
                                 (''last_active'', show_int now)]) s
      in (err_result r, s1))"

definition SetFingerprint :: "'r redis \<Rightarrow> string \<Rightarrow> string \<Rightarrow> 'r \<Rightarrow> error option \<times> 'r" where
  "SetFingerprint R sessionID fingerprint s =
     (let key = SessionPrefix @ sessionID;
          (r, s1) = R (HSET key [(''fingerprint'', fingerprint)]) s
      in (err_result r, s1))"

definition RefreshTTL :: "'r redis \<Rightarrow> string \<Rightarrow> 'r \<Rightarrow> error option \<times> 'r" where
  "RefreshTTL R sessionID s =
     (let key = SessionPrefix @ sessionID;
          (r, s1) = R (EXPIRE key SessionTTL) s
      in (err_result r, s1))"

definition Delete :: "'r redis \<Rightarrow> string \<Rightarrow> 'r \<Rightarrow> error option \<times> 'r" where
  "Delete R sessionID s =
     (let key = SessionPrefix @ sessionID;
          (r, s1) = R (DEL key) s
      in (err_result r, s1))"

section \<open>The abstract store\<close>

text \<open>
  What the clients see: at most one session per identifier; the setters change the fields
  they name of a session that exists and nothing otherwise.
\<close>

datatype session_op =
    OpCreate
  | OpUpdateStatus string
  | OpSetInterests string
  | OpSetChatID string
  | OpClearChatID
  | OpSetFingerprint string
  | OpRefreshTTL
  | OpDelete

fun session_exec :: "'r redis \<Rightarrow> string \<Rightarrow> int \<Rightarrow> string \<Rightarrow> session_op \<Rightarrow> 'r \<Rightarrow> error option \<times> 'r" where
  "session_exec R srv now sid OpCreate = Create R srv now sid"
| "session_exec R srv now sid (OpUpdateStatus st) = UpdateStatus R now sid st"
| "session_exec R srv now sid (OpSetInterests i) = SetInterests R now sid i"
| "session_exec R srv now sid (OpSetChatID c) = SetChatID R now sid c"
| "session_exec R srv now sid OpClearChatID = ClearChatID R now sid"
| "session_exec R srv now sid (OpSetFingerprint fp) = SetFingerprint R sid fp"
| "session_exec R srv now sid OpRefreshTTL = RefreshTTL R sid"
| "session_exec R srv now sid OpDelete = Delete R sid"

fun session_spec :: "string \<Rightarrow> int \<Rightarrow> string \<Rightarrow> session_op \<Rightarrow> Session option \<Rightarrow> Session option" where
  "session_spec srv now sid OpCreate x =
     Some \<lparr>sess_ID = sid, sess_Status = StatusIdle, sess_ChatID = [], sess_Server = srv, sess_Interests = [],
           sess_Fingerprint = [], sess_CreatedAt = now, sess_LastActive = now\<rparr>"
| "session_spec srv now sid (OpUpdateStatus st) x =
     map_option (\<lambda>z. z\<lparr>sess_Status := st, sess_LastActive := now\<rparr>) x"
| "session_spec srv now sid (OpSetInterests i) x =
     map_option (\<lambda>z. z\<lparr>sess_Interests := i, sess_LastActive := now\<rparr>) x"
| "session_spec srv now sid (OpSetChatID c) x =
     map_option (\<lambda>z. z\<lparr>sess_ChatID := c, sess_Status := StatusChatting, sess_LastActive := now\<rparr>) x"
| "session_spec srv now sid OpClearChatID x =
     map_option (\<lambda>z. z\<lparr>sess_ChatID := [], sess_Status := StatusIdle, sess_LastActive := now\<rparr>) x"
| "session_spec srv now sid (OpSetFingerprint fp) x = map_option (\<lambda>z. z\<lparr>sess_Fingerprint := fp\<rparr>) x"
| "session_spec srv now sid OpRefreshTTL x = x"
| "session_spec srv now sid OpDelete x = None"

text \<open>The session a key space holds, and the keys the store can meet.\<close>

definition session_hash :: "keyspace \<Rightarrow> string \<Rightarrow> (string \<rightharpoonup> string) option" where
  "session_hash ks sid =
     (case ks (SessionPrefix @ sid) of
        None \<Rightarrow> Some Map.empty
      | Some (VHash h, _) \<Rightarrow> Some h
      | _ \<Rightarrow> None)"

definition session_at :: "keyspace \<Rightarrow> string \<Rightarrow> Session option" where
  "session_at ks sid =
     (case session_hash ks sid of
        None \<Rightarrow> None
      | Some h \<Rightarrow>
          (case scan_session h of Inl _ \<Rightarrow> None | Inr x \<Rightarrow> if sess_ID x = [] then None else Some x))"

definition scannable :: "(string \<rightharpoonup> string) \<Rightarrow> bool" where
  "scannable h \<longleftrightarrow> (\<exists>x. scan_session h = Inr x)"

definition session_typed :: "keyspace \<Rightarrow> string \<Rightarrow> bool" where
  "session_typed ks sid \<longleftrightarrow> (\<exists>h. session_hash ks sid = Some h \<and> scannable h)"

definition int64 :: "int \<Rightarrow> bool" where
  "int64 n \<longleftrightarrow> - (2 ^ 63) \<le> n \<and> n < 2 ^ 63"

lemma scan_int64_upd: "g \<noteq> f \<Longrightarrow> scan_int64 (h(f \<mapsto> v)) g = scan_int64 h g"
  by (simp add: scan_int64_def)

lemma scan_int64_show: "int64 n \<Longrightarrow> scan_int64 (h(f \<mapsto> show_int n)) f = Inr n"
  by (auto simp: scan_int64_def int64_def)

lemma session_at_hash:
  "session_hash ks sid = Some h \<Longrightarrow>
   session_at ks sid = (case scan_session h of Inl _ \<Rightarrow> None | Inr x \<Rightarrow> if sess_ID x = [] then None else Some x)"
  by (simp add: session_at_def)

text \<open>The effect of a single \<open>HSET\<close> on the hash of a session.\<close>

lemma HSET_session:
  assumes "session_hash ks sid = Some h"
  shows "session_hash (effect (HSET (SessionPrefix @ sid) fvs) ks) sid = Some (foldl (\<lambda>h (f, v). h(f \<mapsto> v)) h fvs)"
  using assms by (auto simp: session_hash_def split: option.splits rvalue.splits)

lemma EXPIRE_session:
  "0 < d \<Longrightarrow> session_hash (effect (EXPIRE (SessionPrefix @ sid) d) ks) sid = session_hash ks sid"
  by (auto simp: session_hash_def split: option.splits rvalue.splits)

lemma DEL_session: "session_hash (effect (DEL (SessionPrefix @ sid)) ks) sid = Some Map.empty"
  by (simp add: session_hash_def)

text \<open>The fields an operation writes, and the commands it sends.\<close>

fun written :: "string \<Rightarrow> int \<Rightarrow> string \<Rightarrow> session_op \<Rightarrow> (string \<times> string) list" where
  "written srv now sid OpCreate =
     [(''id'', sid), (''status'', StatusIdle), (''chat_id'', []), (''server'', srv), (''interests'', []),
      (''fingerprint'', []), (''created_at'', show_int now), (''last_active'', show_int now)]"
| "written srv now sid (OpUpdateStatus st) = [(''status'', st), (''last_active'', show_int now)]"
| "written srv now sid (OpSetInterests i) = [(''interests'', i), (''last_active'', show_int now)]"
| "written srv now sid (OpSetChatID c) = [(''chat_id'', c), (''status'', StatusChatting), (''last_active'', show_int now)]"
| "written srv now sid OpClearChatID = [(''chat_id'', []), (''status'', StatusIdle), (''last_active'', show_int now)]"
| "written srv now sid (OpSetFingerprint fp) = [(''fingerprint'', fp)]"
| "written srv now sid OpRefreshTTL = []"
| "written srv now sid OpDelete = []"

fun op_cmds :: "string \<Rightarrow> int \<Rightarrow> string \<Rightarrow> session_op \<Rightarrow> rcmd list" where
  "op_cmds srv now sid OpRefreshTTL = [EXPIRE (SessionPrefix @ sid) SessionTTL]"
| "op_cmds srv now sid OpDelete = [DEL (SessionPrefix @ sid)]"
| "op_cmds srv now sid op =
     HSET (SessionPrefix @ sid) (written srv now sid op) #
     (if op = OpCreate \<or> (\<exists>st. op = OpUpdateStatus st) then [EXPIRE (SessionPrefix @ sid) SessionTTL] else [])"

lemma session_exec_cmds: "session_exec R srv now sid op s = pipe_exec R (op_cmds srv now sid op) s"
  by (cases op)
     (auto simp: Create_def UpdateStatus_def SetInterests_def SetChatID_def ClearChatID_def SetFingerprint_def
        RefreshTTL_def Delete_def Let_def split: prod.splits option.splits)

lemma op_cmds_key: "c \<in> set (op_cmds srv now sid op) \<Longrightarrow> cmd_key c = Some (SessionPrefix @ sid)"
  by (cases op) (auto split: if_splits)

lemma SessionTTL_pos [simp]: "0 < SessionTTL"
  by (simp add: SessionTTL_def)

lemma op_cmds_hash:
  assumes "session_hash ks sid = Some h"
  shows "session_hash (fold effect (op_cmds srv now sid op) ks) sid =
    Some (if op = OpDelete then Map.empty else foldl (\<lambda>h (f, v). h(f \<mapsto> v)) h (written srv now sid op))"
  by (cases op) (simp_all add: HSET_session [OF assms] EXPIRE_session DEL_session assms del: effect.simps)

text \<open>Reading the hash after a field is written.\<close>

lemma scan_upd_string:
  assumes "scan_session h = Inr x"
  shows "scan_session (h(''id'' \<mapsto> v)) = Inr (x\<lparr>sess_ID := v\<rparr>)"
    and "scan_session (h(''status'' \<mapsto> v)) = Inr (x\<lparr>sess_Status := v\<rparr>)"
    and "scan_session (h(''chat_id'' \<mapsto> v)) = Inr (x\<lparr>sess_ChatID := v\<rparr>)"
    and "scan_session (h(''server'' \<mapsto> v)) = Inr (x\<lparr>sess_Server := v\<rparr>)"
    and "scan_session (h(''interests'' \<mapsto> v)) = Inr (x\<lparr>sess_Interests := v\<rparr>)"
    and "scan_session (h(''fingerprint'' \<mapsto> v)) = Inr (x\<lparr>sess_Fingerprint := v\<rparr>)"
  using assms by (auto simp: scan_session_def scan_int64_upd field_def split: sum.splits)

lemma scan_upd_int:
  assumes "scan_session h = Inr x" "int64 n"
  shows "scan_session (h(''created_at'' \<mapsto> show_int n)) = Inr (x\<lparr>sess_CreatedAt := n\<rparr>)"
    and "scan_session (h(''last_active'' \<mapsto> show_int n)) = Inr (x\<lparr>sess_LastActive := n\<rparr>)"
  using assms by (auto simp: scan_session_def scan_int64_upd scan_int64_show field_def split: sum.splits)

lemma scan_Create:
  assumes "scan_session h = Inr x" "int64 now"
  shows "scan_session (foldl (\<lambda>h (f, v). h(f \<mapsto> v)) h (written srv now sid OpCreate)) =
    Inr \<lparr>sess_ID = sid, sess_Status = StatusIdle, sess_ChatID = [], sess_Server = srv, sess_Interests = [],
         sess_Fingerprint = [], sess_CreatedAt = now, sess_LastActive = now\<rparr>"
proof -
  note u = scan_upd_string(1) [OF assms(1), of sid]
  note u = scan_upd_string(2) [OF u, of StatusIdle]
  note u = scan_upd_string(3) [OF u, of "[]"]
  note u = scan_upd_string(4) [OF u, of srv]
  note u = scan_upd_string(5) [OF u, of "[]"]
  note u = scan_upd_string(6) [OF u, of "[]"]
  note u = scan_upd_int(2) [OF scan_upd_int(1) [OF u assms(2)] assms(2)]
  show ?thesis by (simp only: written.simps foldl.simps prod.case u) simp
qed

lemma scan_written:
  assumes "int64 now" "scan_session h = Inr x" "op \<noteq> OpDelete" "sid \<noteq> []"
  shows "\<exists>y. scan_session (foldl (\<lambda>h (f, v). h(f \<mapsto> v)) h (written srv now sid op)) = Inr y \<and>
    (if sess_ID y = [] then None else Some y) =
    session_spec srv now sid op (if sess_ID x = [] then None else Some x)"
proof -
  note last = scan_upd_int(2) [OF scan_upd_string(2) [OF scan_upd_string(3) [OF assms(2)]] assms(1)]
    scan_upd_int(2) [OF scan_upd_string(2) [OF assms(2)] assms(1)]
    scan_upd_int(2) [OF scan_upd_string(5) [OF assms(2)] assms(1)] scan_upd_string(6) [OF assms(2)]
  show ?thesis
  proof (cases "op = OpCreate")
    case True
    with scan_Create [OF assms(2,1), of srv sid] assms(4) show ?thesis by simp
  next
    case False
    with assms(2,3) show ?thesis by (cases op) (simp_all add: last)
  qed
qed

lemma scannable_empty: "scan_session Map.empty = Inr x \<Longrightarrow> sess_ID x = []" "scannable Map.empty"
  by (auto simp: scannable_def scan_session_def scan_int64_def field_def)

lemma spec_step:
  assumes "int64 now" "session_typed ks sid" "sid \<noteq> []" "ks' = fold effect (op_cmds srv now sid op) ks"
  shows "session_typed ks' sid \<and> session_at ks' sid = session_spec srv now sid op (session_at ks sid)"
proof -
  obtain h x where h: "session_hash ks sid = Some h" "scan_session h = Inr x"
    using assms(2) by (auto simp: session_typed_def scannable_def)
  note h' = op_cmds_hash [OF h(1), of srv now op, folded assms(4)]
  show ?thesis
  proof (cases "op = OpDelete")
    case True
    with h' scannable_empty show ?thesis
      by (auto simp: session_typed_def session_at_hash split: sum.splits)
  next
    case False
    from scan_written [OF assms(1) h(2) False assms(3), of srv] False h' show ?thesis
      by (auto simp: session_typed_def session_at_hash [OF h(1)] session_at_hash [OF h'] scannable_def h(2))
  qed
qed

context redis_server
begin

lemma Get_session:
  assumes "session_typed (view s) sid" "Get exec sid s = (Inr x, s')"
  shows "x = session_at (view s) sid \<and> view s' = view s"
proof -
  obtain r where r: "exec (HGETALL (SessionPrefix @ sid)) s = (r, s')"
    using assms(2) by (auto simp: Get_def Let_def split: prod.splits sum.splits if_splits)
  obtain h where h: "session_hash (view s) sid = Some h" "scannable h"
    using assms(1) by (auto simp: session_typed_def)
  have v: "view s' = view s" using read_only [OF _ r] by simp
  obtain m where "r = RMap m" using assms(2) r
    by (auto simp: Get_def Let_def split: prod.splits sum.splits if_splits)
  with answered(1) [OF r] h have "r = RMap h"
    by (auto simp: session_hash_def wrongtype_def split: option.splits rvalue.splits)
  with r v assms(2) show ?thesis
    by (auto simp: Get_def session_at_hash [OF h(1)] split: sum.splits if_splits)
qed

end

text \<open>
  C23.  The session store implements a map from identifiers to sessions: an operation that
  succeeds takes the session the store holds to the one the abstract operation gives, touches no other
  key, and what \<open>Get\<close> then returns is that session.  In particular a setter applied to a session that
  is gone does not bring it back.
\<close>

theorem session_refines:
  assumes "redis_server R view" and "int64 now" and "sid \<noteq> []" and "session_typed (view s) sid"
    and "session_exec R srv now sid op s = (None, s')"
  shows "session_typed (view s') sid \<and>
    session_at (view s') sid = session_spec srv now sid op (session_at (view s) sid) \<and>
    (\<forall>k. k \<noteq> SessionPrefix @ sid \<longrightarrow> view s' k = view s k) \<and>
    (\<forall>x s2. Get R sid s' = (Inr x, s2) \<longrightarrow>
        x = session_spec srv now sid op (session_at (view s) sid) \<and> view s2 = view s')"
proof -
  note run = assms(5) [unfolded session_exec_cmds]
  from spec_step [OF assms(2,4,3) redis_server.pipe_ok [OF assms(1) run]]
  have "session_typed (view s') sid" "session_at (view s') sid = session_spec srv now sid op (session_at (view s) sid)"
    by simp_all
  moreover have "\<forall>k. k \<noteq> SessionPrefix @ sid \<longrightarrow> view s' k = view s k"
    using redis_server.pipe_frame [OF assms(1) run] op_cmds_key by blast
  ultimately show ?thesis using redis_server.Get_session [OF assms(1)] by metis
qed

lemma absent_session: "ks (SessionPrefix @ sid) = None \<Longrightarrow> session_typed ks sid \<and> session_at ks sid = None"
  by (auto simp: session_typed_def session_at_def session_hash_def scannable_empty split: sum.splits)

theorem session_refines_witness:
  "\<exists>s'. session_exec rcall ''ws1'' 7 ''u'' OpCreate Map.empty = (None, s') \<and>
     map_option sess_Status (session_at s' ''u'') = Some ''idle''"
proof -
  obtain s' where s: "session_exec rcall ''ws1'' 7 ''u'' OpCreate Map.empty = (None, s')"
    by (simp add: Create_def rcall_def SessionPrefix_def)
  from session_refines [OF rref.redis_server_axioms _ _ _ s] absent_session [of Map.empty "''u''"] s
  show ?thesis by (auto simp: int64_def StatusIdle_def)
qed

section \<open>Time to live\<close>

lemma touch_ttl:
  assumes "op = OpCreate \<or> (\<exists>st. op = OpUpdateStatus st)" "session_typed ks sid"
  shows "ttl_of (fold effect (op_cmds srv now sid op) ks) (SessionPrefix @ sid) = Some SessionTTL"
  using assms
  by (auto simp: session_typed_def session_hash_def ttl_of_def split: option.splits rvalue.splits)

lemma session_at_advance:
  assumes "ttl_of ks (SessionPrefix @ sid) = Some t"
  shows "session_at (advance d ks) sid = (if d < t then session_at ks sid else None)"
proof -
  obtain v where v: "ks (SessionPrefix @ sid) = Some (v, Some t)"
    using assms by (auto simp: ttl_of_def split: option.splits)
  show ?thesis
  proof (cases "d < t")
    case True
    with v have "session_hash (advance d ks) sid = session_hash ks sid"
      by (simp add: session_hash_def advance_alive)
    with True show ?thesis by (simp add: session_at_def)
  next
    case False
    with v have "advance d ks (SessionPrefix @ sid) = None" by (simp add: advance_expired)
    with False absent_session show ?thesis by simp
  qed
qed

text \<open>
  A session lives for one hour after it is created or changes status, and no longer: until
  then \<open>Get\<close> finds the session as it was left, afterwards there is none.
\<close>

lemma session_lives_an_hour:
  assumes "redis_clock R view wait" and "int64 now" and "sid \<noteq> []" and "session_typed (view s) sid"
    and "op = OpCreate \<or> (\<exists>st. op = OpUpdateStatus st)"
    and "session_exec R srv now sid op s = (None, s')"
  shows "session_at (view (wait d s')) sid =
    (if d < 1 * Hour then session_spec srv now sid op (session_at (view s) sid) else None)"
proof -
  have R: "redis_server R view" using assms(1) by (simp add: redis_clock_def)
  note v = redis_server.pipe_ok [OF R assms(6) [unfolded session_exec_cmds]]
  from spec_step [OF assms(2,4,3) v] touch_ttl [OF assms(5,4), of srv now]
    session_at_advance [of "view s'" sid SessionTTL d] v
  show ?thesis by (simp add: redis_clock.wait_view [OF assms(1)] SessionTTL_def)
qed

lemma session_lives_an_hour_witness:
  "\<exists>s'. session_exec rcall ''ws1'' 7 ''u'' OpCreate Map.empty = (None, s') \<and>
     map_option sess_Server (session_at (advance (59 * Minute) s') ''u'') = Some ''ws1'' \<and>
     session_at (advance (60 * Minute) s') ''u'' = None"
proof -
  obtain s' where s: "session_exec rcall ''ws1'' 7 ''u'' OpCreate Map.empty = (None, s')"
    by (simp add: Create_def rcall_def SessionPrefix_def)
  note w = session_lives_an_hour [OF rclk.redis_clock_axioms _ _ _ _ s]
  from w [of "59 * Minute"] w [of "60 * Minute"] absent_session [of Map.empty "''u''"] s
  show ?thesis by (auto simp: int64_def)
qed

text \<open>
  A setter that does not renew the time to live, applied to a session that has expired, leaves
  a hash that never expires: at every later time the key still exists, although \<open>Get\<close> does not take
  it for a session.
\<close>

lemma setter_leaves_remnant:
  assumes "redis_clock R view wait" and "sid \<noteq> []" and "view s (SessionPrefix @ sid) = None"
    and "op = OpSetInterests i \<or> op = OpSetChatID i \<or> op = OpClearChatID \<or> op = OpSetFingerprint i"
    and "int64 now" and "session_exec R srv now sid op s = (None, s')"
  shows "\<exists>h. (\<forall>d. view (wait d s') (SessionPrefix @ sid) = Some (VHash h, None)) \<and>
    (\<forall>d. session_at (view (wait d s')) sid = None)"
proof -
  have R: "redis_server R view" using assms(1) by (simp add: redis_clock_def)
  note v = redis_server.pipe_ok [OF R assms(6) [unfolded session_exec_cmds]]
  note ab = absent_session [of "view s" sid, OF assms(3)]
  obtain h where h: "view s' (SessionPrefix @ sid) = Some (VHash h, None)"
    using v assms(3,4) by auto
  have w: "view (wait d s') (SessionPrefix @ sid) = Some (VHash h, None)" for d
    using h by (simp add: redis_clock.wait_view [OF assms(1)])
  have "session_at (view s') sid = None"
    using spec_step [OF assms(5) conjunct1 [OF ab] assms(2) v] ab assms(4) by auto
  moreover have "session_at (view (wait d s')) sid = session_at (view s') sid" for d
    by (simp add: session_at_def session_hash_def w h)
  ultimately show ?thesis using w by (intro exI [of _ h]) simp
qed

lemma setter_leaves_remnant_witness:
  "\<exists>h s'. session_exec rcall ''ws1'' 7 ''u'' (OpSetChatID ''c'') Map.empty = (None, s') \<and>
     advance (1000 * Hour) s' ''session:u'' = Some (VHash h, None) \<and> session_at (advance (1000 * Hour) s') ''u'' = None"
proof -
  obtain s' where s: "session_exec rcall ''ws1'' 7 ''u'' (OpSetChatID ''c'') Map.empty = (None, s')"
    by (simp add: SetChatID_def rcall_def SessionPrefix_def)
  obtain h where "\<forall>d. advance d s' (SessionPrefix @ ''u'') = Some (VHash h, None)"
      "\<forall>d. session_at (advance d s') ''u'' = None"
    using setter_leaves_remnant [OF rclk.redis_clock_axioms _ _ _ _ s, of "''c''"]
    by (simp add: int64_def del: session_exec.simps) blast
  then have "advance (1000 * Hour) s' ''session:u'' = Some (VHash h, None)"
      "session_at (advance (1000 * Hour) s') ''u'' = None"
    by (simp_all add: SessionPrefix_def)
  with s show ?thesis by blast
qed

end
