(* ===== verification/Utf8.thy ===== *)
theory Utf8
  imports Prelude
begin

text \<open>
  Go's strings are byte sequences; this theory models what the sources use of the package
  \<open>unicode/utf8\<close> and of \<open>range\<close> over a string: decoding one rune (an invalid byte is the rune
  U+FFFD of width one), encoding, counting and validating.  The main results are the two round trips
  between valid byte sequences and lists of Unicode scalar values.
\<close>

section \<open>Decoding and encoding\<close>

type_synonym rune = nat

definition RuneError :: rune where "RuneError = 65533"

definition byte :: "char \<Rightarrow> nat" where "byte c = of_char c"

definition is_cont :: "char \<Rightarrow> bool" where
  "is_cont c \<longleftrightarrow> 128 \<le> byte c \<and> byte c \<le> 191"

text \<open>The range of second bytes a lead byte accepts.\<close>

definition accept_range :: "nat \<Rightarrow> nat \<times> nat" where
  "accept_range b =
     (if b = 224 then (160, 191)
      else if b = 237 then (128, 159)
      else if b = 240 then (144, 191)
      else if b = 244 then (128, 143)
      else (128, 191))"

definition accepts :: "char \<Rightarrow> char \<Rightarrow> bool" where
  "accepts c d = (case accept_range (byte c) of (lo, hi) \<Rightarrow> lo \<le> byte d \<and> byte d \<le> hi)"

text \<open>\<open>utf8.DecodeRuneInString\<close>: the first rune and its width.\<close>

definition DecodeRune :: "string \<Rightarrow> rune \<times> nat" where
  "DecodeRune s =
     (case s of
        [] \<Rightarrow> (RuneError, 0)
      | c # s1 \<Rightarrow>
          let b = byte c in
          if b < 128 then (b, 1)
          else if b < 194 \<or> 244 < b then (RuneError, 1)
          else case s1 of
            [] \<Rightarrow> (RuneError, 1)
          | d # s2 \<Rightarrow>
              if \<not> accepts c d then (RuneError, 1)
              else if b < 224 then ((b - 192) * 64 + (byte d - 128), 2)
              else case s2 of
                [] \<Rightarrow> (RuneError, 1)
              | e # s3 \<Rightarrow>
                  if \<not> is_cont e then (RuneError, 1)
                  else if b < 240 then ((b - 224) * 4096 + (byte d - 128) * 64 + (byte e - 128), 3)
                  else case s3 of
                    [] \<Rightarrow> (RuneError, 1)
                  | f # s4 \<Rightarrow>
                      if \<not> is_cont f then (RuneError, 1)
                      else ((b - 240) * 262144 + (byte d - 128) * 4096 + (byte e - 128) * 64 + (byte f - 128), 4))"

definition is_scalar :: "rune \<Rightarrow> bool" where
  "is_scalar r \<longleftrightarrow> r < 55296 \<or> 57343 < r \<and> r < 1114112"

text \<open>\<open>string(r)\<close> and \<open>strings.Builder.WriteRune\<close>: a value that is no rune is written as U+FFFD.\<close>

definition EncodeRune :: "rune \<Rightarrow> string" where
  "EncodeRune r0 =
     (let r = (if is_scalar r0 then r0 else RuneError) in
      if r < 128 then [char_of r]
      else if r < 2048 then [char_of (192 + r div 64), char_of (128 + r mod 64)]
      else if r < 65536 then
        [char_of (224 + r div 4096), char_of (128 + r div 64 mod 64), char_of (128 + r mod 64)]
      else
        [char_of (240 + r div 262144), char_of (128 + r div 4096 mod 64),
         char_of (128 + r div 64 mod 64), char_of (128 + r mod 64)])"

lemma DecodeRune_width: "s \<noteq> [] \<Longrightarrow> 0 < snd (DecodeRune s) \<and> snd (DecodeRune s) \<le> length s"
  by (auto simp: DecodeRune_def Let_def split: list.splits)

lemma DecodeRune_pos: "(r, w) = DecodeRune s \<Longrightarrow> s \<noteq> [] \<Longrightarrow> 0 < w"
  using DecodeRune_width [of s] by (metis snd_conv)

text \<open>\<open>for _, r := range s\<close>: the runes of a string.\<close>

function runes :: "string \<Rightarrow> rune list" where
  "runes s = (if s = [] then [] else (case DecodeRune s of (r, w) \<Rightarrow> r # runes (drop w s)))"
  by auto
termination
  by (relation "measure length") (auto dest: DecodeRune_pos)

declare runes.simps [simp del]

definition RuneCountInString :: "string \<Rightarrow> int" where
  "RuneCountInString s = int (length (runes s))"

function ValidString :: "string \<Rightarrow> bool" where
  "ValidString s =
     (if s = [] then True
      else (case DecodeRune s of (r, w) \<Rightarrow> if r = RuneError \<and> w = 1 then False else ValidString (drop w s)))"
  by auto
termination
  by (relation "measure length") (auto dest: DecodeRune_pos)

declare ValidString.simps [simp del]

definition encode :: "rune list \<Rightarrow> string" where
  "encode rs = concat (map EncodeRune rs)"

section \<open>Round trips\<close>

lemma byte_char_of [simp]: "n < 256 \<Longrightarrow> byte (char_of n) = n"
  by (simp add: byte_def)

lemma char_of_byte [simp]: "char_of (byte c) = c"
  by (simp add: byte_def)

lemma byte_less [simp]: "byte c < 256"
  by (simp add: byte_def)

lemma Decode_bytes:
  "byte c < 128 \<Longrightarrow> DecodeRune (c # s) = (byte c, 1)"
  "194 \<le> byte c \<Longrightarrow> byte c < 224 \<Longrightarrow> accepts c d \<Longrightarrow>
     DecodeRune (c # d # s) = ((byte c - 192) * 64 + (byte d - 128), 2)"
  "224 \<le> byte c \<Longrightarrow> byte c < 240 \<Longrightarrow> accepts c d \<Longrightarrow> is_cont e \<Longrightarrow>
     DecodeRune (c # d # e # s) = ((byte c - 224) * 4096 + (byte d - 128) * 64 + (byte e - 128), 3)"
  "240 \<le> byte c \<Longrightarrow> byte c \<le> 244 \<Longrightarrow> accepts c d \<Longrightarrow> is_cont e \<Longrightarrow> is_cont f \<Longrightarrow>
     DecodeRune (c # d # e # f # s) =
       ((byte c - 240) * 262144 + (byte d - 128) * 4096 + (byte e - 128) * 64 + (byte f - 128), 4)"
  by (simp_all add: DecodeRune_def Let_def)

text \<open>The base-64 digits of a rune.\<close>

lemma base64:
  fixes r :: nat
  obtains a b c d where "r mod 64 = d" "r div 64 mod 64 = c" "r div 4096 mod 64 = b" "r div 64 = (a * 64 + b) * 64 + c"
    "r div 4096 = a * 64 + b" "r div 262144 = a" "r = ((a * 64 + b) * 64 + c) * 64 + d" "b < 64" "c < 64" "d < 64"
proof -
  have q: "r div 4096 = r div 64 div 64" "r div 262144 = r div 64 div 64 div 64"
    by (simp_all add: div_mult2_eq [symmetric])
  show thesis
    by (rule that [of "r mod 64" "r div 64 mod 64" "r div 64 div 64 mod 64" "r div 64 div 64 div 64"])
       (simp_all only: q div_mult_mod_eq mod_less_divisor zero_less_numeral)
qed

lemma accepts_chars:
  "x < 256 \<Longrightarrow> y < 256 \<Longrightarrow>
   accepts (char_of x) (char_of y) = (fst (accept_range x) \<le> y \<and> y \<le> snd (accept_range x))"
  by (simp add: accepts_def split: prod.splits)

lemma is_cont_char: "x < (64 :: nat) \<Longrightarrow> is_cont (char_of (128 + x))"
  by (simp add: is_cont_def)

lemma Decode2:
  assumes "128 \<le> r" "r < 2048"
  shows "DecodeRune (char_of (192 + r div 64) # char_of (128 + r mod 64) # s) = (r, 2)"
proof -
  have b: "2 \<le> r div 64" "r div 64 < 32" "r mod 64 < 64" using assms by auto
  then have "accepts (char_of (192 + r div 64)) (char_of (128 + r mod 64))"
    by (simp add: accepts_chars accept_range_def)
  from Decode_bytes(2) [OF _ _ this] b show ?thesis by simp
qed

lemma Decode3:
  assumes "2048 \<le> r" "r < 65536" "is_scalar r"
  shows "DecodeRune (char_of (224 + r div 4096) # char_of (128 + r div 64 mod 64) # char_of (128 + r mod 64) # s) = (r, 3)"
proof (rule base64 [of r])
  fix a b c d :: nat
  assume r: "r mod 64 = d" "r div 64 mod 64 = c" "r div 4096 = a * 64 + b" "r = ((a * 64 + b) * 64 + c) * 64 + d"
    "b < 64" "c < 64" "d < 64"
  have a: "a = 0" using r(4) assms(2) by simp
  then have b: "b < 16" using r(4) assms(2) by simp
  have "b = 0 \<Longrightarrow> 32 \<le> c" using a r(4,7) assms(1) by simp
  moreover have "b = 13 \<Longrightarrow> c < 32" using a r(4,6,7) assms(3) unfolding is_scalar_def by auto
  ultimately have "accepts (char_of (224 + b)) (char_of (128 + c))"
    using b r(6) by (auto simp: accepts_chars accept_range_def)
  from Decode_bytes(3) [OF _ _ this is_cont_char [OF r(7)]] a b r(6,7)
  show ?thesis unfolding r(1-3) by (simp add: r(4))
qed

lemma Decode4:
  assumes "65536 \<le> r" "r < 1114112"
  shows "DecodeRune (char_of (240 + r div 262144) # char_of (128 + r div 4096 mod 64) #
    char_of (128 + r div 64 mod 64) # char_of (128 + r mod 64) # s) = (r, 4)"
proof (rule base64 [of r])
  fix a b c d :: nat
  assume r: "r mod 64 = d" "r div 64 mod 64 = c" "r div 4096 mod 64 = b" "r div 262144 = a"
    "r = ((a * 64 + b) * 64 + c) * 64 + d" "b < 64" "c < 64" "d < 64"
  have a: "a \<le> 4" using r(5) assms(2) by simp
  have "a = 0 \<Longrightarrow> 16 \<le> b" using r(5,7,8) assms(1) by simp
  moreover have "a = 4 \<Longrightarrow> b < 16" using r(5) assms(2) by simp
  ultimately have "accepts (char_of (240 + a)) (char_of (128 + b))"
    using a r(6) by (auto simp: accepts_chars accept_range_def)
  from Decode_bytes(4) [OF _ _ this is_cont_char [OF r(7)] is_cont_char [OF r(8)]] a r(6,7,8)
  show ?thesis unfolding r(1-4) by (simp add: r(5))
qed

lemma Decode_Encode: "is_scalar r \<Longrightarrow> DecodeRune (EncodeRune r @ s) = (r, length (EncodeRune r))"
  by (auto simp: EncodeRune_def Let_def Decode_bytes(1) Decode2 Decode3 Decode4 is_scalar_def)

lemma EncodeRune_nonempty [simp]: "EncodeRune r \<noteq> []"
  by (simp add: EncodeRune_def Let_def)

lemma runes_encode: "list_all is_scalar rs \<Longrightarrow> runes (encode rs @ s) = rs @ runes s"
proof (induction rs)
  case Nil
  then show ?case by (simp add: encode_def)
next
  case (Cons r rs)
  then show ?case by (subst runes.simps) (simp add: encode_def Decode_Encode)
qed

lemma Valid_encode: "list_all is_scalar rs \<Longrightarrow> ValidString (encode rs)"
proof (induction rs)
  case Nil
  then show ?case by (subst ValidString.simps) (simp add: encode_def)
next
  case (Cons r rs)
  have "\<not> (r = RuneError \<and> length (EncodeRune r) = 1)"
    by (simp add: EncodeRune_def RuneError_def is_scalar_def)
  with Cons show ?case by (subst ValidString.simps) (simp add: encode_def Decode_Encode)
qed

text \<open>A rune that decodes without error is a scalar value, and its bytes are its encoding.\<close>

lemma byte_split:
  fixes b d :: nat
  assumes "128 \<le> d" "d < 192"
  shows "(b * 64 + (d - 128)) div 64 = b" "(b * 64 + (d - 128)) mod 64 = d - 128"
proof -
  define x where "x = d - 128"
  have "d = 128 + x" "x < 64" using assms by (simp_all add: x_def)
  then show "(b * 64 + (d - 128)) div 64 = b" "(b * 64 + (d - 128)) mod 64 = d - 128" by simp_all
qed

lemma div_pow64: "(r :: nat) div 4096 = r div 64 div 64" "r div 262144 = r div 64 div 64 div 64"
  by (simp_all add: div_mult2_eq [symmetric])

lemma Encode_Decode:
  assumes "DecodeRune s = (r, w)" "s \<noteq> []" "\<not> (r = RuneError \<and> w = 1)"
  shows "is_scalar r \<and> EncodeRune r = take w s"
proof -
  obtain c s1 where s: "s = c # s1" using assms(2) by (cases s) auto
  let ?b = "byte c"
  consider (one) "?b < 128" "r = ?b" "w = 1"
    | (two) d s2 where "s1 = d # s2" "194 \<le> ?b" "?b < 224" "accepts c d" "r = (?b - 192) * 64 + (byte d - 128)" "w = 2"
    | (three) d e s3 where "s1 = d # e # s3" "224 \<le> ?b" "?b < 240" "accepts c d" "is_cont e"
        "r = (?b - 224) * 4096 + (byte d - 128) * 64 + (byte e - 128)" "w = 3"
    | (four) d e f s4 where "s1 = d # e # f # s4" "240 \<le> ?b" "?b \<le> 244" "accepts c d" "is_cont e" "is_cont f"
        "r = (?b - 240) * 262144 + (byte d - 128) * 4096 + (byte e - 128) * 64 + (byte f - 128)" "w = 4"
    using assms s unfolding DecodeRune_def Let_def by (auto split: list.splits if_splits)
  then show ?thesis
  proof cases
    case one
    then show ?thesis using s by (simp add: is_scalar_def EncodeRune_def)
  next
    case two
    then have d: "128 \<le> byte d" "byte d < 192" by (auto simp: accepts_def accept_range_def)
    have "128 \<le> r" "r < 2048" using two d by auto
    with two s byte_split [OF d, of "?b - 192"] d show ?thesis
      by (simp add: is_scalar_def EncodeRune_def)
  next
    case three
    then have d: "128 \<le> byte d" "byte d < 192" and e: "128 \<le> byte e" "byte e < 192"
      by (auto simp: accepts_def accept_range_def is_cont_def split: if_splits)
    have r: "r = ((?b - 224) * 64 + (byte d - 128)) * 64 + (byte e - 128)" using three(6) by simp
    have div: "r div 64 = (?b - 224) * 64 + (byte d - 128)" "r mod 64 = byte e - 128"
      unfolding r by (rule byte_split [OF e])+
    have q: "r div 4096 = ?b - 224" "r div 64 mod 64 = byte d - 128"
      by (simp_all only: div_pow64 div(1) byte_split [OF d])
    have "2048 \<le> r" "is_scalar r" "r < 65536"
      using three d e by (auto simp: accepts_def accept_range_def is_scalar_def split: if_splits)
    moreover have "char_of (224 + r div 4096) = c" "char_of (128 + r div 64 mod 64) = d" "char_of (128 + r mod 64) = e"
      unfolding q div(2) using three(2) d e by simp_all
    ultimately show ?thesis by (simp add: EncodeRune_def s three(1,7))
  next
    case four
    then have d: "128 \<le> byte d" "byte d < 192" and e: "128 \<le> byte e" "byte e < 192"
      and f: "128 \<le> byte f" "byte f < 192"
      by (auto simp: accepts_def accept_range_def is_cont_def split: if_splits)
    have r: "r = (((?b - 240) * 64 + (byte d - 128)) * 64 + (byte e - 128)) * 64 + (byte f - 128)" using four(7) by simp
    have div: "r div 64 = ((?b - 240) * 64 + (byte d - 128)) * 64 + (byte e - 128)" "r mod 64 = byte f - 128"
      unfolding r by (rule byte_split [OF f])+
    have div2: "r div 4096 = (?b - 240) * 64 + (byte d - 128)" "r div 64 mod 64 = byte e - 128"
      by (simp_all only: div_pow64 div(1) byte_split [OF e])
    have q: "r div 262144 = ?b - 240" "r div 4096 mod 64 = byte d - 128"
      by (simp_all only: div_pow64 div(1) byte_split [OF d] byte_split [OF e])
    have "?b = 240 \<Longrightarrow> 144 \<le> byte d" "?b = 244 \<Longrightarrow> byte d \<le> 143"
      using four(4) by (auto simp: accepts_def accept_range_def)
    then have "65536 \<le> r" "r < 1114112"
      using four(2,3,7) d e f by (cases "?b = 240"; cases "?b = 244"; simp)+
    moreover have "char_of (240 + r div 262144) = c" "char_of (128 + r div 4096 mod 64) = d"
        "char_of (128 + r div 64 mod 64) = e" "char_of (128 + r mod 64) = f"
      unfolding q div(2) div2(2) using four(2) d e f by simp_all
    ultimately show ?thesis by (simp add: EncodeRune_def is_scalar_def s four(1,8))
  qed
qed

lemma encode_runes: "ValidString s \<Longrightarrow> encode (runes s) = s \<and> list_all is_scalar (runes s)"
proof (induction s rule: runes.induct)
  case (1 s)
  show ?case
  proof (cases "s = []")
    case True
    then show ?thesis by (subst (1 2) runes.simps) (simp add: encode_def)
  next
    case False
    obtain r w where d: "DecodeRune s = (r, w)" by fastforce
    have "(if r = RuneError \<and> w = 1 then False else ValidString (drop w s))"
      using 1(2) False d unfolding ValidString.simps [of s] by simp
    then have v: "\<not> (r = RuneError \<and> w = 1)" "ValidString (drop w s)" by (simp_all split: if_splits)
    from 1(1) [OF False d [symmetric]] v have "encode (runes (drop w s)) = drop w s"
      "list_all is_scalar (runes (drop w s))" by auto
    moreover have "runes s = r # runes (drop w s)" using False d by (subst runes.simps) simp
    ultimately show ?thesis using Encode_Decode [OF d False v(1)] by (simp add: encode_def)
  qed
qed

lemma runes_ascii: "list_all (\<lambda>c. byte c < 128) s \<Longrightarrow> runes s = map byte s"
proof (induction s)
  case Nil
  then show ?case by (simp add: runes.simps [of "[]"])
next
  case (Cons c s)
  then show ?case by (simp add: runes.simps [of "c # s"] Decode_bytes(1))
qed

end
