(* ===== verification/Json.thy ===== *)
theory Json
  imports Utf8
begin

text \<open>
  What the sources use of \<open>encoding/json\<close>: the syntax check and parser behind \<open>json.Unmarshal\<close>, the
  text \<open>json.Marshal\<close> writes, and the rules by which a document is stored in a Go struct.  A number
  is kept as its literal.  The parser takes fuel; \<open>json_parse\<close> gives it enough for every input,
  which \<open>pval_enough\<close> shows.
\<close>

section \<open>Documents and their text\<close>

datatype json =
    JNull
  | JBool bool
  | JNum string
  | JStr string
  | JArr "json list"
  | JObj "(string \<times> json) list"

definition quote_char :: char where "quote_char = CHR 0x22"
definition backslash :: char where "backslash = CHR 0x5C"

definition hex_digit :: "nat \<Rightarrow> char" where
  "hex_digit d = char_of (if d < 10 then 48 + d else 87 + d)"

definition hex_val :: "char \<Rightarrow> nat option" where
  "hex_val c =
     (let b = byte c in
      if 48 \<le> b \<and> b \<le> 57 then Some (b - 48)
      else if 97 \<le> b \<and> b \<le> 102 then Some (b - 87)
      else if 65 \<le> b \<and> b \<le> 70 then Some (b - 55)
      else None)"

definition u_escape :: "nat \<Rightarrow> string" where
  "u_escape r =
     [backslash, CHR ''u'', hex_digit (r div 4096 mod 16), hex_digit (r div 256 mod 16),
      hex_digit (r div 16 mod 16), hex_digit (r mod 16)]"

text \<open>The escapes of a string literal; \<open><\<close>, \<open>>\<close> and \<open>&\<close> are escaped as \<open>json.Marshal\<close> does by default.\<close>

definition esc_ascii :: "nat \<Rightarrow> string" where
  "esc_ascii r =
     (if r = 34 then [backslash, quote_char]
      else if r = 92 then [backslash, backslash]
      else if r = 8 then [backslash, CHR ''b'']
      else if r = 12 then [backslash, CHR ''f'']
      else if r = 10 then [backslash, CHR ''n'']
      else if r = 13 then [backslash, CHR ''r'']
      else if r = 9 then [backslash, CHR ''t'']
      else if r < 32 \<or> r = 60 \<or> r = 62 \<or> r = 38 then u_escape r
      else [char_of r])"

definition esc_rune :: "rune \<Rightarrow> nat \<Rightarrow> string" where
  "esc_rune r w =
     (if r < 128 then esc_ascii r
      else if r = RuneError \<and> w = 1 then u_escape RuneError
      else if r = 8232 \<or> r = 8233 then u_escape r
      else EncodeRune r)"

function esc_string :: "string \<Rightarrow> string" where
  "esc_string s = (if s = [] then [] else (case DecodeRune s of (r, w) \<Rightarrow> esc_rune r w @ esc_string (drop w s)))"
  by auto
termination
  by (relation "measure length") (auto dest: DecodeRune_pos)

declare esc_string.simps [simp del]

definition quote :: "string \<Rightarrow> string" where
  "quote s = [quote_char] @ esc_string s @ [quote_char]"

fun json_text :: "json \<Rightarrow> string" where
  "json_text JNull = ''null''"
| "json_text (JBool b) = (if b then ''true'' else ''false'')"
| "json_text (JNum l) = l"
| "json_text (JStr s) = quote s"
| "json_text (JArr js) = ''['' @ join '','' (map json_text js) @ '']''"
| "json_text (JObj fs) = ''{'' @ join '','' (map (\<lambda>(k, v). quote k @ '':'' @ json_text v) fs) @ ''}''"

section \<open>The parser\<close>

definition is_ws :: "char \<Rightarrow> bool" where
  "is_ws c \<longleftrightarrow> byte c \<in> {32, 9, 10, 13}"

abbreviation skip_ws :: "string \<Rightarrow> string" where
  "skip_ws \<equiv> dropWhile is_ws"

definition hex4 :: "string \<Rightarrow> (nat \<times> string) option" where
  "hex4 s =
     (case s of
        a # b # c # d # s1 \<Rightarrow>
          (case (hex_val a, hex_val b, hex_val c, hex_val d) of
             (Some w, Some x, Some y, Some z) \<Rightarrow> Some (((w * 16 + x) * 16 + y) * 16 + z, s1)
           | _ \<Rightarrow> None)
      | _ \<Rightarrow> None)"

text \<open>\<open>\u\<close> escapes: a surrogate pair is one rune, a lone surrogate is U+FFFD.\<close>

definition u_rune :: "string \<Rightarrow> (rune \<times> string) option" where
  "u_rune s =
     (case hex4 s of
        None \<Rightarrow> None
      | Some (r, s1) \<Rightarrow>
          if 55296 \<le> r \<and> r \<le> 57343 then
            (case s1 of
               c # d # s2 \<Rightarrow>
                 if c = backslash \<and> d = CHR ''u'' then
                   (case hex4 s2 of
                      Some (r2, s3) \<Rightarrow>
                        if r \<le> 56319 \<and> 56320 \<le> r2 \<and> r2 \<le> 57343
                        then Some (65536 + (r - 55296) * 1024 + (r2 - 56320), s3)
                        else Some (RuneError, s1)
                    | None \<Rightarrow> Some (RuneError, s1))
                 else Some (RuneError, s1)
             | _ \<Rightarrow> Some (RuneError, s1))
          else Some (r, s1))"

definition simple_escape :: "char \<Rightarrow> nat option" where
  "simple_escape e =
     (if e = quote_char then Some 34 else if e = backslash then Some 92 else if e = CHR ''/'' then Some 47
      else if e = CHR ''b'' then Some 8 else if e = CHR ''f'' then Some 12 else if e = CHR ''n'' then Some 10
      else if e = CHR ''r'' then Some 13 else if e = CHR ''t'' then Some 9 else None)"

lemma hex4_length: "hex4 s = Some (r, s1) \<Longrightarrow> length s1 < length s"
  by (auto simp: hex4_def split: list.splits option.splits)

lemma u_rune_length: "u_rune s = Some (r, s1) \<Longrightarrow> length s1 < length s"
  by (auto simp: u_rune_def split: option.splits prod.splits list.splits if_splits dest!: hex4_length)

text \<open>One rune of a string literal: \<open>None\<close> is a syntax error.\<close>

definition next_rune :: "string \<Rightarrow> (rune \<times> string) option" where
  "next_rune s =
     (case s of
        [] \<Rightarrow> None
      | c # s1 \<Rightarrow>
          if c = backslash then
            (case s1 of
               [] \<Rightarrow> None
             | e # s2 \<Rightarrow>
                 if e = CHR ''u'' then u_rune s2
                 else map_option (\<lambda>r. (r, s2)) (simple_escape e))
          else if byte c < 32 then None
          else (case DecodeRune s of (r, w) \<Rightarrow> Some (r, drop w s)))"

lemma next_rune_length: "next_rune s = Some (r, s1) \<Longrightarrow> length s1 < length s"
  using DecodeRune_width [of s]
  by (auto simp: next_rune_def split: list.splits if_splits prod.splits dest: u_rune_length)

text \<open>The rest of a string literal after its opening quote.\<close>

function unquote :: "string \<Rightarrow> (string \<times> string) option" where
  "unquote s =
     (if s \<noteq> [] \<and> hd s = quote_char then Some ([], tl s)
      else (case next_rune s of
              None \<Rightarrow> None
            | Some (r, s1) \<Rightarrow> map_option (\<lambda>(t, s2). (EncodeRune r @ t, s2)) (unquote s1)))"
  by auto
termination
  by (relation "measure length") (auto dest: next_rune_length)

declare unquote.simps [simp del]

text \<open>A number literal.\<close>

definition scan_digits :: "string \<Rightarrow> (string \<times> string) option" where
  "scan_digits s = (let d = takeWhile is_digit s in if d = [] then None else Some (d, dropWhile is_digit s))"

definition scan_int_part :: "string \<Rightarrow> (string \<times> string) option" where
  "scan_int_part s =
     (case s of
        [] \<Rightarrow> None
      | c # s1 \<Rightarrow> if c = CHR ''0'' then Some ([c], s1) else scan_digits s)"

definition scan_frac :: "string \<Rightarrow> (string \<times> string) option" where
  "scan_frac s =
     (case s of
        c # s1 \<Rightarrow> if c = CHR ''.'' then map_option (\<lambda>(d, r). (c # d, r)) (scan_digits s1) else Some ([], s)
      | [] \<Rightarrow> Some ([], s))"

definition scan_exp :: "string \<Rightarrow> (string \<times> string) option" where
  "scan_exp s =
     (case s of
        c # s1 \<Rightarrow>
          if c = CHR ''e'' \<or> c = CHR ''E'' then
            (case s1 of
               [] \<Rightarrow> None
             | g # s2 \<Rightarrow>
                 if g = CHR ''+'' \<or> g = CHR ''-'' then map_option (\<lambda>(d, r). (c # g # d, r)) (scan_digits s2)
                 else map_option (\<lambda>(d, r). (c # d, r)) (scan_digits s1))
          else Some ([], s)
      | [] \<Rightarrow> Some ([], s))"

definition scan_number :: "string \<Rightarrow> (string \<times> string) option" where
  "scan_number s =
     (let (sign, s0) = (if s \<noteq> [] \<and> hd s = CHR ''-'' then ([hd s], tl s) else ([], s)) in
      (case scan_int_part s0 of
         None \<Rightarrow> None
       | Some (i, s1) \<Rightarrow>
           (case scan_frac s1 of
              None \<Rightarrow> None
            | Some (f, s2) \<Rightarrow>
                (case scan_exp s2 of
                   None \<Rightarrow> None
                 | Some (e, s3) \<Rightarrow> Some (sign @ i @ f @ e, s3)))))"

definition literal :: "string \<Rightarrow> json \<Rightarrow> string \<Rightarrow> (json \<times> string) option" where
  "literal w j s = (if take (length w) s = w then Some (j, drop (length w) s) else None)"

text \<open>The key of an object member and the colon.\<close>

definition scan_key :: "string \<Rightarrow> (string \<times> string) option" where
  "scan_key s =
     (case skip_ws s of
        [] \<Rightarrow> None
      | c # r \<Rightarrow>
          if c \<noteq> quote_char then None
          else (case unquote r of
             None \<Rightarrow> None
           | Some (k, r1) \<Rightarrow>
               (case skip_ws r1 of
                  [] \<Rightarrow> None
                | c1 # r2 \<Rightarrow> if c1 \<noteq> CHR '':'' then None else Some (k, r2))))"

fun pval :: "nat \<Rightarrow> nat \<Rightarrow> string \<Rightarrow> (json \<times> string) option"
  and pelems :: "nat \<Rightarrow> nat \<Rightarrow> string \<Rightarrow> (json list \<times> string) option"
  and pmembers :: "nat \<Rightarrow> nat \<Rightarrow> string \<Rightarrow> ((string \<times> json) list \<times> string) option" where
  "pval 0 d s = None"
| "pval (Suc n) d s =
     (case skip_ws s of
        [] \<Rightarrow> None
      | c # r \<Rightarrow>
          if c = CHR ''{'' then
            (if d = 0 then None
             else (case skip_ws r of
                     [] \<Rightarrow> None
                   | e # r1 \<Rightarrow>
                       if e = CHR ''}'' then Some (JObj [], r1)
                       else map_option (\<lambda>(fs, q). (JObj fs, q)) (pmembers n (d - 1) r)))
          else if c = CHR ''['' then
            (if d = 0 then None
             else (case skip_ws r of
                     [] \<Rightarrow> None
                   | e # r1 \<Rightarrow>
                       if e = CHR '']'' then Some (JArr [], r1)
                       else map_option (\<lambda>(js, q). (JArr js, q)) (pelems n (d - 1) r)))
          else if c = quote_char then map_option (\<lambda>(t, q). (JStr t, q)) (unquote r)
          else if c = CHR ''t'' then literal ''true'' (JBool True) (c # r)
          else if c = CHR ''f'' then literal ''false'' (JBool False) (c # r)
          else if c = CHR ''n'' then literal ''null'' JNull (c # r)
          else map_option (\<lambda>(l, q). (JNum l, q)) (scan_number (c # r)))"
| "pelems 0 d s = None"
| "pelems (Suc n) d s =
     (case pval n d s of
        None \<Rightarrow> None
      | Some (j, r) \<Rightarrow>
          (case skip_ws r of
             [] \<Rightarrow> None
           | c # r1 \<Rightarrow>
               if c = CHR '','' then map_option (\<lambda>(js, q). (j # js, q)) (pelems n d r1)
               else if c = CHR '']'' then Some ([j], r1)
               else None))"
| "pmembers 0 d s = None"
| "pmembers (Suc n) d s =
     (case scan_key s of
        None \<Rightarrow> None
      | Some (k, r) \<Rightarrow>
          (case pval n d r of
             None \<Rightarrow> None
           | Some (j, r1) \<Rightarrow>
               (case skip_ws r1 of
                  [] \<Rightarrow> None
                | c # r2 \<Rightarrow>
                    if c = CHR '','' then map_option (\<lambda>(fs, q). ((k, j) # fs, q)) (pmembers n d r2)
                    else if c = CHR ''}'' then Some ([(k, j)], r2)
                    else None)))"

text \<open>A document is one value, nested at most 10000 deep, with nothing but white space around it.\<close>

definition json_parse :: "string \<Rightarrow> json option" where
  "json_parse s =
     (case pval (2 * length s + 2) 10000 s of
        None \<Rightarrow> None
      | Some (j, r) \<Rightarrow> if skip_ws r = [] then Some j else None)"

section \<open>The fuel is enough\<close>

lemma unquote_length: "unquote s = Some (t, r) \<Longrightarrow> length r < length s"
proof (induction s arbitrary: t rule: unquote.induct)
  case (1 s)
  show ?case
  proof (cases "s \<noteq> [] \<and> hd s = quote_char")
    case True
    with 1(2) show ?thesis by (subst (asm) unquote.simps) (cases s; simp)
  next
    case False
    then obtain c s1 t1 where n: "next_rune s = Some (c, s1)" "unquote s1 = Some (t1, r)"
      using 1(2) by (subst (asm) unquote.simps) (auto split: option.splits)
    have "length r < length s1" by (rule 1(1) [OF False n(1) refl n(2)])
    with next_rune_length [OF n(1)] show ?thesis by simp
  qed
qed

lemma scan_digits_length: "scan_digits s = Some (d, r) \<Longrightarrow> length r < length s"
  unfolding scan_digits_def Let_def
  by (metis (no_types, lifting) add.commute length_append length_greater_0_conv less_add_same_cancel1
      option.distinct(1) option.inject prod.inject takeWhile_dropWhile_id)

lemma scan_number_length: "scan_number s = Some (l, r) \<Longrightarrow> length r < length s"
proof -
  have 1: "scan_int_part a = Some (x, b) \<Longrightarrow> length b < length a" for a x b
    by (auto simp: scan_int_part_def split: list.splits if_splits dest: scan_digits_length)
  have 2: "scan_frac a = Some (x, b) \<Longrightarrow> length b \<le> length a" for a x b
    by (fastforce simp: scan_frac_def split: list.splits if_splits dest: scan_digits_length)
  have 3: "scan_exp a = Some (x, b) \<Longrightarrow> length b \<le> length a" for a x b
    by (fastforce simp: scan_exp_def split: list.splits if_splits dest: scan_digits_length)
  assume "scan_number s = Some (l, r)"
  then obtain i s1 f s2 e where "scan_int_part (tl s) = Some (i, s1) \<or> scan_int_part s = Some (i, s1)"
      "scan_frac s1 = Some (f, s2)" "scan_exp s2 = Some (e, r)"
    by (auto simp: scan_number_def Let_def split: option.splits prod.splits if_splits) blast+
  with 1 [of "tl s" i s1] 1 [of s i s1] 2 [of s1 f s2] 3 [of s2 e r] show ?thesis by auto
qed

lemma skip_ws_length: "skip_ws s = c # r \<Longrightarrow> length r < length s"
  by (metis length_Cons length_dropWhile_le less_eq_Suc_le)

lemma literal_length: "literal w j s = Some (x, r) \<Longrightarrow> w \<noteq> [] \<Longrightarrow> length r < length s"
  by (cases s) (auto simp: literal_def split: if_splits)

lemma scan_key_length: "scan_key s = Some (k, r) \<Longrightarrow> length r < length s"
  by (auto simp: scan_key_def split: list.splits option.splits if_splits
      dest!: skip_ws_length unquote_length)

lemma parse_length:
  "pval n d s = Some (j, r) \<Longrightarrow> length r < length s"
  "pelems n d s = Some (js, r) \<Longrightarrow> length r < length s"
  "pmembers n d s = Some (fs, r) \<Longrightarrow> length r < length s"
proof (induction n arbitrary: d s j js fs r)
  case 0
  {
    case 1 then show ?case by simp
  next
    case 2 then show ?case by simp
  next
    case 3 then show ?case by simp
  }
next
  case (Suc n)
  {
    case 1
    obtain c q where q: "skip_ws s = c # q" using 1 by (auto split: list.splits)
    have "length r < length (c # q)"
      using 1 q Suc.IH(2,3)
      by (auto split: list.splits if_splits dest!: unquote_length scan_number_length literal_length skip_ws_length)
         (metis Suc_lessD less_SucI less_trans_Suc)+
    with q show ?case by (metis length_dropWhile_le less_le_trans)
  next
    case 2
    then obtain j1 q c q1 where q: "pval n d s = Some (j1, q)" "skip_ws q = c # q1"
      by (auto split: option.splits list.splits)
    have "length r \<le> length q1" using 2 q by (auto split: if_splits dest!: Suc.IH(2))
    with Suc.IH(1) [OF q(1)] skip_ws_length [OF q(2)] show ?case by simp
  next
    case 3
    then obtain k q j1 q1 c q2 where q: "scan_key s = Some (k, q)" "pval n d q = Some (j1, q1)" "skip_ws q1 = c # q2"
      by (auto split: option.splits list.splits)
    have "length r \<le> length q2" using 3 q by (auto split: if_splits dest!: Suc.IH(3))
    with Suc.IH(1) [OF q(2)] skip_ws_length [OF q(3)] scan_key_length [OF q(1)] show ?case by simp
  }
qed

text \<open>Two units of fuel per character are enough: more fuel changes nothing.\<close>

lemma pval_enough:
  "2 * length s + 1 \<le> n \<Longrightarrow> pval (Suc n) d s = pval n d s"
  "2 * length s + 2 \<le> n \<Longrightarrow> pelems (Suc n) d s = pelems n d s"
  "2 * length s + 2 \<le> n \<Longrightarrow> pmembers (Suc n) d s = pmembers n d s"
proof (induction n arbitrary: d s)
  case 0
  {
    case 1 then show ?case by simp
  next
    case 2 then show ?case by simp
  next
    case 3 then show ?case by simp
  }
next
  case (Suc n)
  {
    case 1
    show ?case
    proof (cases "skip_ws s")
      case (Cons c q)
      have "2 * length q + 2 \<le> n" using 1 skip_ws_length [OF Cons] by simp
      with Cons Suc.IH(2,3) show ?thesis by (simp only: pval.simps list.case)
    qed (simp only: pval.simps list.case)
  next
    case 2
    have v: "pval (Suc n) d s = pval n d s" using 2 Suc.IH(1) by simp
    show ?case
    proof (cases "pval n d s")
      case (Some jr)
      obtain j q where jq: "jr = (j, q)" by fastforce
      show ?thesis
      proof (cases "skip_ws q")
        case (Cons c q1)
        have "2 * length q1 + 2 \<le> n" using 2 skip_ws_length [OF Cons] parse_length(1) [OF Some [unfolded jq]] by simp
        with v Some jq Cons Suc.IH(2) show ?thesis by (simp only: pelems.simps option.case prod.case list.case)
      qed (simp only: pelems.simps v Some jq option.case prod.case list.case)
    qed (simp only: pelems.simps v option.case)
  next
    case 3
    show ?case
    proof (cases "scan_key s")
      case (Some kr)
      obtain k r where kr: "kr = (k, r)" by fastforce
      note lr = scan_key_length [OF Some [unfolded kr]]
      have v: "pval (Suc n) d r = pval n d r" using 3 lr Suc.IH(1) by simp
      show ?thesis
      proof (cases "pval n d r")
        case (Some jr)
        obtain j q where jq: "jr = (j, q)" by fastforce
        show ?thesis
        proof (cases "skip_ws q")
          case (Cons c q1)
          have "2 * length q1 + 2 \<le> n"
            using 3 lr skip_ws_length [OF Cons] parse_length(1) [OF Some [unfolded jq]] by simp
          with v Some kr \<open>scan_key s = Some kr\<close> jq Cons Suc.IH(3) show ?thesis
            by (simp only: pmembers.simps option.case prod.case list.case)
        qed (simp only: pmembers.simps v \<open>scan_key s = Some kr\<close> kr Some jq option.case prod.case list.case)
      qed (simp only: pmembers.simps v Some kr option.case prod.case)
    qed (simp only: pmembers.simps option.case)
  }
qed

section \<open>Reading back what was written\<close>

lemma hex_val_digit: "d < 16 \<Longrightarrow> hex_val (hex_digit d) = Some d"
  by (simp add: hex_val_def hex_digit_def)

lemma hex4_digits:
  "a < 16 \<Longrightarrow> b < 16 \<Longrightarrow> c < 16 \<Longrightarrow> d < 16 \<Longrightarrow>
   hex4 (hex_digit a # hex_digit b # hex_digit c # hex_digit d # s) = Some (((a * 16 + b) * 16 + c) * 16 + d, s)"
  by (simp add: hex4_def hex_val_digit)

lemma hex4_escape:
  assumes "r < 65536"
  shows "hex4 (hex_digit (r div 4096 mod 16) # hex_digit (r div 256 mod 16) # hex_digit (r div 16 mod 16) #
    hex_digit (r mod 16) # s) = Some (r, s)"
proof -
  have q: "r div 256 = r div 16 div 16" "r div 4096 = r div 16 div 16 div 16"
    by (simp_all add: div_mult2_eq [symmetric])
  have "r div 16 div 16 div 16 < 16" using assms by (simp add: div_mult2_eq [symmetric])
  then have "((r div 4096 mod 16 * 16 + r div 256 mod 16) * 16 + r div 16 mod 16) * 16 + r mod 16 = r"
    unfolding q by (simp only: mod_less div_mult_mod_eq)
  with hex4_digits [of "r div 4096 mod 16" "r div 256 mod 16" "r div 16 mod 16" "r mod 16" s]
  show ?thesis by (simp only: mod_less_divisor zero_less_numeral)
qed

lemma backslash_byte [simp]: "byte backslash = 92" "byte quote_char = 34"
  by (simp_all add: backslash_def quote_char_def byte_def)

lemma next_rune_u_escape: "r < 55296 \<or> 57343 < r \<Longrightarrow> r < 65536 \<Longrightarrow> next_rune (u_escape r @ s) = Some (r, s)"
  using hex4_escape [of r s] by (auto simp: next_rune_def u_escape_def u_rune_def)

lemma char_of_eq: "n < 256 \<Longrightarrow> char_of n = c \<longleftrightarrow> n = byte c"
  by auto

lemma quote_escape_distinct [simp]: "quote_char \<noteq> backslash" "backslash \<noteq> quote_char"
  by (simp_all add: quote_char_def backslash_def)

lemma esc_ascii_other:
  "r \<notin> {34, 92, 8, 12, 10, 13, 9} \<Longrightarrow>
   esc_ascii r = (if r < 32 \<or> r = 60 \<or> r = 62 \<or> r = 38 then u_escape r else [char_of r])"
  by (simp add: esc_ascii_def)

lemma next_rune_ascii:
  assumes "r < 128"
  shows "next_rune (esc_ascii r @ s) = Some (r, s)"
proof (cases "r \<in> {34, 92, 8, 12, 10, 13, 9}")
  case True
  then show ?thesis
    by (auto simp: esc_ascii_def next_rune_def simple_escape_def quote_char_def backslash_def)
next
  case False
  then have "char_of r \<noteq> backslash" using assms by (simp add: char_of_eq)
  with False show ?thesis
    using assms by (simp add: esc_ascii_other next_rune_u_escape) (simp add: next_rune_def Decode_bytes(1))
qed

lemma EncodeRune_head: "is_scalar r \<Longrightarrow> 128 \<le> r \<Longrightarrow> \<exists>c t. EncodeRune r = c # t \<and> 128 \<le> byte c"
  by (auto simp: EncodeRune_def Let_def is_scalar_def)

lemma next_rune_esc:
  assumes "is_scalar r"
  shows "next_rune (esc_rune r (length (EncodeRune r)) @ s) = Some (r, s)"
proof (cases "r < 128")
  case True
  then show ?thesis by (simp add: esc_rune_def next_rune_ascii)
next
  case False
  obtain c t where c: "EncodeRune r = c # t" "128 \<le> byte c" using EncodeRune_head [OF assms] False by auto
  have ne: "\<not> (r = RuneError \<and> length (EncodeRune r) = 1)"
    by (simp add: EncodeRune_def RuneError_def is_scalar_def)
  show ?thesis
  proof (cases "r = 8232 \<or> r = 8233")
    case True
    then show ?thesis by (auto simp: esc_rune_def RuneError_def next_rune_u_escape)
  next
    case F: False
    have "esc_rune r (length (EncodeRune r)) = EncodeRune r" using False F ne by (auto simp: esc_rune_def)
    moreover have "next_rune (EncodeRune r @ s) = Some (r, s)"
      using Decode_Encode [OF assms, of s] c by (auto simp: next_rune_def)
    ultimately show ?thesis by simp
  qed
qed

lemma esc_rune_head: "esc_rune r w \<noteq> [] \<and> hd (esc_rune r w) \<noteq> quote_char"
proof (cases "r < 128")
  case True
  then show ?thesis by (auto simp: esc_rune_def esc_ascii_def u_escape_def char_of_eq)
next
  case False
  then show ?thesis
    using EncodeRune_head [of r] EncodeRune_head [of RuneError] backslash_byte
    by (auto simp: esc_rune_def u_escape_def RuneError_def is_scalar_def EncodeRune_def Let_def char_of_eq)
qed

lemma esc_string_encode:
  "list_all is_scalar rs \<Longrightarrow> esc_string (encode rs) = concat (map (\<lambda>r. esc_rune r (length (EncodeRune r))) rs)"
proof (induction rs)
  case Nil
  then show ?case by (subst esc_string.simps) (simp add: encode_def)
next
  case (Cons r rs)
  then show ?case by (subst esc_string.simps) (simp add: encode_def Decode_Encode)
qed

lemma unquote_escaped:
  "list_all is_scalar rs \<Longrightarrow>
   unquote (concat (map (\<lambda>r. esc_rune r (length (EncodeRune r))) rs) @ quote_char # s) = Some (encode rs, s)"
proof (induction rs)
  case Nil
  then show ?case by (subst unquote.simps) (simp add: encode_def)
next
  case (Cons r rs)
  then show ?case
    using esc_rune_head [of r "length (EncodeRune r)"]
    by (subst unquote.simps) (simp add: next_rune_esc encode_def hd_append)
qed

lemma unquote_esc: "ValidString t \<Longrightarrow> unquote (esc_string t @ quote_char # s) = Some (t, s)"
  using unquote_escaped [of "runes t" s] esc_string_encode [of "runes t"] encode_runes [of t] by simp

text \<open>Numbers: the decimal form of an integer is a literal.\<close>

lemma show_nat_lead: "show_nat n = ''0'' \<or> hd (show_nat n) \<noteq> CHR ''0''"
proof (induction n rule: show_nat.induct)
  case (1 n)
  show ?case
  proof (cases "n < 10")
    case True
    then have "n \<in> {0, 1, 2, 3, 4, 5, 6, 7, 8, 9}" by auto
    then show ?thesis by (auto simp: show_nat.simps [of n] digit_char_def)
  next
    case False
    moreover have "digits_val 0 ''0'' = 0" by (simp add: digits_val_def digit_val_def)
    with False have "show_nat (n div 10) \<noteq> ''0''"
      using digits_val_show_nat [of "n div 10"] by auto
    ultimately show ?thesis using 1 show_nat_digits [of "n div 10"]
      by (subst (1 2) show_nat.simps) simp
  qed
qed

definition delim :: "string \<Rightarrow> bool" where
  "delim s \<longleftrightarrow> s = [] \<or> hd s \<in> {CHR '','', CHR '']'', CHR ''}'', CHR 0x0A}"

lemma delim_not_number:
  assumes "delim s"
  shows "takeWhile is_digit s = []" "dropWhile is_digit s = s" "scan_frac s = Some ([], s)" "scan_exp s = Some ([], s)"
  using assms by (cases s; auto simp: delim_def is_digit_def scan_frac_def scan_exp_def)+

lemma scan_nat: "delim s \<Longrightarrow> scan_int_part (show_nat n @ s) = Some (show_nat n, s)"
proof -
  assume s: "delim s"
  obtain c cs where c: "show_nat n = c # cs" using show_nat_digits [of n] by (cases "show_nat n") auto
  have d: "\<forall>x \<in> set (show_nat n). is_digit x" using show_nat_digits [of n] by (simp add: list_all_iff)
  show ?thesis
  proof (cases "c = CHR ''0''")
    case True
    then have "cs = []" using show_nat_lead [of n] c by simp
    then show ?thesis using True c by (simp add: scan_int_part_def)
  next
    case False
    have "scan_digits (show_nat n @ s) = Some (show_nat n, s)"
      using d c delim_not_number [OF s] by (simp add: scan_digits_def takeWhile_append2 dropWhile_append2)
    then show ?thesis using False c by (simp add: scan_int_part_def)
  qed
qed

lemma scan_show_int: "delim s \<Longrightarrow> scan_number (show_int n @ s) = Some (show_int n, s)"
proof -
  assume s: "delim s"
  obtain c cs where c: "show_nat (nat n) = c # cs" "is_digit c"
    using show_nat_digits [of "nat n"] by (cases "show_nat (nat n)") auto
  then have "c \<noteq> CHR ''-''" using not_digit_sign by auto
  then show ?thesis
    using c scan_nat [OF s, of "nat n"] scan_nat [OF s, of "nat (- n)"] delim_not_number [OF s]
    by (simp add: scan_number_def show_int_def)
qed

text \<open>
  The documents the program writes: integers as numbers, valid UTF-8 in strings, nested at most
  \<open>d\<close> deep.
\<close>

fun wf_json :: "nat \<Rightarrow> json \<Rightarrow> bool" where
  "wf_json d JNull = True"
| "wf_json d (JBool b) = True"
| "wf_json d (JNum l) = (\<exists>n. l = show_int n)"
| "wf_json d (JStr t) = ValidString t"
| "wf_json d (JArr js) = (0 < d \<and> (\<forall>j \<in> set js. wf_json (d - 1) j))"
| "wf_json d (JObj fs) = (0 < d \<and> (\<forall>(k, v) \<in> set fs. ValidString k \<and> wf_json (d - 1) v))"

definition value_head :: "char \<Rightarrow> bool" where
  "value_head c \<longleftrightarrow> \<not> is_ws c \<and> c \<noteq> CHR '']'' \<and> c \<noteq> CHR ''}''"

lemma show_int_head: "\<exists>c t. show_int n = c # t \<and> (is_digit c \<or> c = CHR ''-'')"
  using show_nat_digits [of "nat n"] by (cases "show_nat (nat n)") (auto simp: show_int_def)

lemma digit_value_head:
  "is_digit c \<or> c = CHR ''-'' \<Longrightarrow> value_head c \<and> c \<notin> {CHR ''{'', CHR ''['', quote_char, CHR ''t'', CHR ''f'', CHR ''n''}"
  by (auto simp: is_digit_def value_head_def is_ws_def byte_def quote_char_def)

lemma not_ws: "\<not> is_ws (CHR ''{'')" "\<not> is_ws (CHR ''['')" "\<not> is_ws (CHR ''}'')" "\<not> is_ws (CHR '']'')"
  "\<not> is_ws (CHR '','')" "\<not> is_ws (CHR '':'')" "\<not> is_ws quote_char" "\<not> is_ws (CHR ''t'')" "\<not> is_ws (CHR ''f'')"
  "\<not> is_ws (CHR ''n'')"
  by (simp_all add: is_ws_def byte_def quote_char_def)

lemma text_head: "wf_json d j \<Longrightarrow> \<exists>c t. json_text j = c # t \<and> value_head c"
proof (cases j)
  case (JNum l)
  moreover assume "wf_json d j"
  ultimately obtain n where "json_text j = show_int n" by auto
  with show_int_head [of n] digit_value_head show ?thesis by metis
qed (auto simp: value_head_def not_ws quote_def quote_char_def is_ws_def byte_def)

lemma parse_elems:
  assumes "\<And>j. j \<in> set js \<Longrightarrow> wf_json d j"
    and "\<And>j s. j \<in> set js \<Longrightarrow> delim s \<Longrightarrow> \<exists>N. \<forall>n \<ge> N. pval n d (json_text j @ s) = Some (j, s)"
    and "js \<noteq> []"
  shows "\<exists>N. \<forall>n \<ge> N. pelems n d (join '','' (map json_text js) @ '']'' @ s) = Some (js, s)"
  using assms
proof (induction js)
  case (Cons j js)
  define q where "q = (if js = [] then '']'' @ s else '','' @ join '','' (map json_text js) @ '']'' @ s)"
  have tx: "join '','' (map json_text (j # js)) @ '']'' @ s = json_text j @ q"
    by (cases js) (simp_all add: q_def)
  have "delim q" by (simp add: q_def delim_def)
  with Cons.prems(2) [of j q] obtain N where N: "\<forall>n \<ge> N. pval n d (json_text j @ q) = Some (j, q)" by auto
  show ?case
  proof (cases "js = []")
    case True
    have "pelems n d (json_text j @ q) = Some ([j], s)" if n: "Suc N \<le> n" for n
      using n N True by (cases n) (simp_all add: q_def not_ws)
    with True tx show ?thesis by metis
  next
    case False
    with Cons obtain M where M: "\<forall>n \<ge> M. pelems n d (join '','' (map json_text js) @ '']'' @ s) = Some (js, s)"
      by (metis list.set_intros(2))
    have "pelems n d (json_text j @ q) = Some (j # js, s)" if n: "Suc (max N M) \<le> n" for n
      using n N M False by (cases n) (simp_all add: q_def not_ws)
    with tx show ?thesis by metis
  qed
qed simp

lemma scan_key_quote: "ValidString k \<Longrightarrow> scan_key (quote k @ CHR '':'' # s) = Some (k, s)"
  using unquote_esc [of k "CHR '':'' # s"] by (simp add: scan_key_def quote_def not_ws)

lemma parse_members:
  assumes "\<And>k j s. (k, j) \<in> set fs \<Longrightarrow> delim s \<Longrightarrow>
      ValidString k \<and> (\<exists>N. \<forall>n \<ge> N. pval n d (json_text j @ s) = Some (j, s))"
    and "fs \<noteq> []"
  shows "\<exists>N. \<forall>n \<ge> N. pmembers n d (join '','' (map (\<lambda>(k, v). quote k @ '':'' @ json_text v) fs) @ ''}'' @ s) = Some (fs, s)"
  using assms
proof (induction fs)
  case (Cons f fs)
  obtain k j where f: "f = (k, j)" by fastforce
  let ?t = "\<lambda>(k, v). quote k @ '':'' @ json_text v"
  define q where "q = (if fs = [] then ''}'' @ s else '','' @ join '','' (map ?t fs) @ ''}'' @ s)"
  have tx: "join '','' (map ?t (f # fs)) @ ''}'' @ s = quote k @ CHR '':'' # json_text j @ q"
    by (cases fs) (simp_all add: q_def f)
  have "delim q" by (simp add: q_def delim_def)
  with Cons.prems(1) f obtain N where k: "ValidString k" and N: "\<forall>n \<ge> N. pval n d (json_text j @ q) = Some (j, q)"
    by (metis list.set_intros(1))
  note key = scan_key_quote [OF k, of "json_text j @ q"]
  show ?case
  proof (cases "fs = []")
    case True
    have "pmembers n d (quote k @ CHR '':'' # json_text j @ q) = Some ([(k, j)], s)" if n: "Suc N \<le> n" for n
      using n N key True by (cases n) (simp_all add: q_def not_ws)
    with True f tx show ?thesis by metis
  next
    case False
    with Cons obtain M where M: "\<forall>n \<ge> M. pmembers n d (join '','' (map ?t fs) @ ''}'' @ s) = Some (fs, s)"
      by (metis list.set_intros(2))
    have "pmembers n d (quote k @ CHR '':'' # json_text j @ q) = Some ((k, j) # fs, s)" if n: "Suc (max N M) \<le> n" for n
      using n N M key False by (cases n) (simp_all add: q_def not_ws)
    with f tx show ?thesis by metis
  qed
qed simp

lemma wf_JArr_head: "js \<noteq> [] \<Longrightarrow> \<forall>j \<in> set js. wf_json d j \<Longrightarrow> \<exists>c t. join '','' (map json_text js) = c # t \<and> value_head c"
  using text_head by (cases js; cases "tl js") fastforce+

lemma parse_text: "wf_json d j \<Longrightarrow> delim s \<Longrightarrow> \<exists>N. \<forall>n \<ge> N. pval n d (json_text j @ s) = Some (j, s)"
proof (induction j arbitrary: d s)
  case JNull
  have "pval n d (json_text JNull @ s) = Some (JNull, s)" if "Suc 0 \<le> n" for n
    using that by (cases n) (simp_all add: not_ws literal_def quote_char_def)
  then show ?case by blast
next
  case (JBool b)
  have "pval n d (json_text (JBool b) @ s) = Some (JBool b, s)" if "Suc 0 \<le> n" for n
    using that by (cases n) (simp_all add: not_ws literal_def quote_char_def)
  then show ?case by blast
next
  case (JNum l)
  then obtain m where m: "l = show_int m" by auto
  obtain c t where c: "show_int m = c # t" "is_digit c \<or> c = CHR ''-''" using show_int_head by blast
  note h = digit_value_head [OF c(2)]
  have "pval n d (json_text (JNum l) @ s) = Some (JNum l, s)" if "Suc 0 \<le> n" for n
    using that h scan_show_int [OF JNum(2), of m] m c(1) by (cases n) (simp_all add: value_head_def)
  then show ?case by blast
next
  case (JStr t)
  have "pval n d (json_text (JStr t) @ s) = Some (JStr t, s)" if "Suc 0 \<le> n" for n
    using that unquote_esc [of t s] JStr(1)
    by (cases n) (simp_all add: quote_def not_ws, simp add: quote_char_def)
  then show ?case by blast
next
  case (JArr js)
  show ?case
  proof (cases "js = []")
    case True
    have "pval n d (json_text (JArr js) @ s) = Some (JArr js, s)" if "Suc 0 \<le> n" for n
      using that True JArr.prems by (cases n) (simp_all add: not_ws)
    then show ?thesis by blast
  next
    case False
    have wf: "\<forall>j \<in> set js. wf_json (d - 1) j" "0 < d" using JArr.prems by auto
    obtain N where N: "\<forall>n \<ge> N. pelems n (d - 1) (join '','' (map json_text js) @ '']'' @ s) = Some (js, s)"
      using parse_elems [OF _ JArr.IH False, of "d - 1" s] wf(1) by blast
    obtain c t where c: "join '','' (map json_text js) = c # t" "value_head c" using wf_JArr_head [OF False wf(1)] by blast
    have "pval n d (json_text (JArr js) @ s) = Some (JArr js, s)" if "Suc N \<le> n" for n
      using that N c wf(2) by (cases n) (simp_all add: not_ws value_head_def)
    then show ?thesis by blast
  qed
next
  case (JObj fs)
  show ?case
  proof (cases "fs = []")
    case True
    have "pval n d (json_text (JObj fs) @ s) = Some (JObj fs, s)" if "Suc 0 \<le> n" for n
      using that True JObj.prems by (cases n) (simp_all add: not_ws)
    then show ?thesis by blast
  next
    case False
    let ?t = "\<lambda>(k, v). quote k @ '':'' @ json_text v"
    have wf: "\<forall>(k, v) \<in> set fs. ValidString k \<and> wf_json (d - 1) v" "0 < d" using JObj.prems by auto
    have "ValidString k \<and> (\<exists>N. \<forall>n \<ge> N. pval n (d - 1) (json_text j @ s) = Some (j, s))"
      if "(k, j) \<in> set fs" "delim s" for k j s
      using JObj.IH [OF that(1) _ _ that(2), of j "d - 1"] wf(1) that(1) by auto
    from parse_members [OF this False, of s] obtain N
      where N: "\<forall>n \<ge> N. pmembers n (d - 1) (join '','' (map ?t fs) @ ''}'' @ s) = Some (fs, s)" by blast
    obtain t where t: "join '','' (map ?t fs) = quote_char # t"
      using False by (cases fs; cases "tl fs") (auto simp: quote_def)
    have "pval n d (json_text (JObj fs) @ s) = Some (JObj fs, s)" if "Suc N \<le> n" for n
      using that N t wf(2) by (cases n) (simp_all add: not_ws, simp add: quote_char_def)
    then show ?thesis by blast
  qed
qed

lemma pval_more: "2 * length s + 2 \<le> n \<Longrightarrow> pval n d s = pval (2 * length s + 2) d s"
  by (induction rule: dec_induct) (simp_all add: pval_enough del: pval.simps)

text \<open>Reading back a document the program wrote gives the document.\<close>

lemma json_parse_text:
  assumes "wf_json 10000 j"
  shows "json_parse (json_text j) = Some j"
proof -
  obtain N where N: "\<forall>n \<ge> N. pval n 10000 (json_text j) = Some (j, [])"
    using parse_text [OF assms, of "[]"] by (auto simp: delim_def)
  let ?m = "max N (2 * length (json_text j) + 2)"
  have "pval (2 * length (json_text j) + 2) 10000 (json_text j) = pval ?m 10000 (json_text j)"
    using pval_more [of "json_text j" ?m 10000] by (simp only: max.cobounded2)
  with N show ?thesis by (simp add: json_parse_def del: pval.simps)
qed

text \<open>The same for a document that \<open>Encoder.Encode\<close> has written, with a newline after it.\<close>

lemma json_parse_line:
  assumes "wf_json 10000 j"
  shows "json_parse (json_text j @ [CHR 0x0A]) = Some j"
proof -
  let ?s = "json_text j @ [CHR 0x0A]"
  obtain N where N: "\<forall>n \<ge> N. pval n 10000 ?s = Some (j, [CHR 0x0A])" using parse_text [OF assms, of "[CHR 0x0A]"] by (auto simp: delim_def)
  have "pval (2 * length ?s + 2) 10000 ?s = pval (max N (2 * length ?s + 2)) 10000 ?s"
    using pval_more [of ?s "max N (2 * length ?s + 2)" 10000] by (simp only: max.cobounded2)
  with N show ?thesis by (simp add: json_parse_def is_ws_def byte_def del: pval.simps json_text.simps)
qed

section \<open>Documents and Go structs\<close>

text \<open>
  The fields of a struct with their values: strings, booleans, integers and slices of strings.  A
  slice is nil or a length with the array behind it; decoding into a slice that is not nil reuses
  that array.
\<close>

datatype fval =
    FStr string
  | FBool bool
  | FInt int
  | FStrs "(nat \<times> string list) option"

type_synonym fields = "(string \<times> fval) list"

definition type_error :: error where
  "type_error = ErrText ''json: cannot unmarshal value''"

text \<open>A key names a field if it is equal to its name, or, failing that, equal up to case folding.\<close>

definition fold_rune :: "rune \<Rightarrow> rune" where
  "fold_rune r = (if 97 \<le> r \<and> r \<le> 122 then r - 32 else if r = 8490 then 75 else if r = 383 then 83 else r)"

definition fold_name :: "string \<Rightarrow> rune list" where
  "fold_name k = map fold_rune (runes k)"

definition find_field :: "string \<Rightarrow> fields \<Rightarrow> string option" where
  "find_field k fs =
     (if k \<in> fst ` set fs then Some k
      else map_option fst (find (\<lambda>f. fold_name (fst f) = fold_name k) fs))"

fun decode_elems :: "nat \<Rightarrow> string list \<Rightarrow> json list \<Rightarrow> string list \<times> bool" where
  "decode_elems i arr [] = (arr, True)"
| "decode_elems i arr (j # js) =
     (let arr1 = (if i < length arr then arr else arr @ [[]]);
          (arr2, ok) = (case j of JNull \<Rightarrow> (arr1, True) | JStr t \<Rightarrow> (arr1[i := t], True) | _ \<Rightarrow> (arr1, False));
          (arr3, ok') = decode_elems (Suc i) arr2 js
      in (arr3, ok \<and> ok'))"

fun decode_val :: "fval \<Rightarrow> json \<Rightarrow> fval \<times> bool" where
  "decode_val (FStr t) (JStr u) = (FStr u, True)"
| "decode_val (FBool b) (JBool c) = (FBool c, True)"
| "decode_val (FInt n) (JNum l) =
     (case parse_int l of
        Some m \<Rightarrow> if - (2 ^ 63) \<le> m \<and> m < 2 ^ 63 then (FInt m, True) else (FInt n, False)
      | None \<Rightarrow> (FInt n, False))"
| "decode_val (FStrs x) (JArr js) =
     (if js = [] then (FStrs (Some (0, [])), True)
      else (let (arr, ok) = decode_elems 0 (case x of None \<Rightarrow> [] | Some (_, a) \<Rightarrow> a) js
            in (FStrs (Some (length js, arr)), ok)))"
| "decode_val (FStrs x) JNull = (FStrs None, True)"
| "decode_val v JNull = (v, True)"
| "decode_val v _ = (v, False)"

fun decode_members :: "fields \<Rightarrow> (string \<times> json) list \<Rightarrow> fields \<times> bool" where
  "decode_members fs [] = (fs, True)"
| "decode_members fs ((k, j) # ms) =
     (case find_field k fs of
        None \<Rightarrow> decode_members fs ms
      | Some name \<Rightarrow>
          (case map_of fs name of
             None \<Rightarrow> decode_members fs ms
           | Some v \<Rightarrow>
               (let (v', ok) = decode_val v j;
                    (fs', ok') = decode_members (map (\<lambda>(n, x). (n, if n = name then v' else x)) fs) ms
                in (fs', ok \<and> ok'))))"

text \<open>\<open>json.Unmarshal(data, &x)\<close> for a struct \<open>x\<close> whose fields have the values \<open>fs\<close> before the call.\<close>

definition decode_doc :: "fields \<Rightarrow> json \<Rightarrow> fields result" where
  "decode_doc fs j =
     (case j of
        JObj ms \<Rightarrow> (case decode_members fs ms of (fs', ok) \<Rightarrow> if ok then Inr fs' else Inl type_error)
      | JNull \<Rightarrow> Inr fs
      | _ \<Rightarrow> Inl type_error)"

definition syntax_error :: error where
  "syntax_error = ErrText ''invalid JSON''"

definition Unmarshal :: "fields \<Rightarrow> string \<Rightarrow> fields result" where
  "Unmarshal fs data = (case json_parse data of None \<Rightarrow> Inl syntax_error | Some j \<Rightarrow> decode_doc fs j)"

text \<open>Reading a field of a decoded struct.\<close>

definition str_field :: "fields \<Rightarrow> string \<Rightarrow> string" where
  "str_field fs k = (case map_of fs k of Some (FStr t) \<Rightarrow> t | _ \<Rightarrow> [])"

definition bool_field :: "fields \<Rightarrow> string \<Rightarrow> bool" where
  "bool_field fs k = (case map_of fs k of Some (FBool b) \<Rightarrow> b | _ \<Rightarrow> False)"

definition int_field :: "fields \<Rightarrow> string \<Rightarrow> int" where
  "int_field fs k = (case map_of fs k of Some (FInt n) \<Rightarrow> n | _ \<Rightarrow> 0)"

definition strs_field :: "fields \<Rightarrow> string \<Rightarrow> string list option" where
  "strs_field fs k = (case map_of fs k of Some (FStrs x) \<Rightarrow> map_option (\<lambda>(n, arr). take n arr) x | _ \<Rightarrow> None)"

lemmas field_simps = str_field_def bool_field_def int_field_def strs_field_def

text \<open>The document of a slice of strings, and of an integer.\<close>

definition JStrs :: "string list option \<Rightarrow> json" where
  "JStrs x = (case x of None \<Rightarrow> JNull | Some xs \<Rightarrow> JArr (map JStr xs))"

definition JInt :: "int \<Rightarrow> json" where
  "JInt n = JNum (show_int n)"

lemma decode_elems_fresh: "length arr = i \<Longrightarrow> decode_elems i arr (map JStr xs) = (arr @ xs, True)"
  by (induction xs arbitrary: i arr) (simp_all add: list_update_append)

lemma decode_JStrs:
  "\<exists>x. decode_val (FStrs None) (JStrs y) = (FStrs x, True) \<and> map_option (\<lambda>(n, arr). take n arr) x = y"
  by (cases y) (auto simp: JStrs_def decode_elems_fresh)

lemma decode_JInt: "- (2 ^ 63) \<le> n \<Longrightarrow> n < 2 ^ 63 \<Longrightarrow> decode_val (FInt m) (JInt n) = (FInt n, True)"
  by (simp add: JInt_def)

lemma wf_JStrs [simp]: "2 \<le> d \<Longrightarrow> wf_json d (JStrs y) = (case y of None \<Rightarrow> True | Some xs \<Rightarrow> list_all ValidString xs)"
  by (cases y) (auto simp: JStrs_def list_all_iff)

lemma wf_JInt [simp]: "wf_json d (JInt n)"
  by (auto simp: JInt_def)

lemma Unmarshal_text: "wf_json 10000 j \<Longrightarrow> Unmarshal fs (json_text j) = decode_doc fs j"
  by (simp add: Unmarshal_def json_parse_text)

end
