(* ===== verification/Protocol.thy ===== *)
theory Protocol
  imports Json "HOL-Library.AList"
begin

text \<open>
  \<open>internal/protocol/messages.go\<close>: the messages between client and server.  The client's messages are
  parsed in two steps, first the type and then the payload for that type; the server's are made by
  marshalling a struct, decoding it into a map, setting the type and marshalling the map, which
  orders the fields by name and takes every number through \<open>float64\<close>.
\<close>

section \<open>Message types\<close>

definition TypeSetFingerprint :: string where "TypeSetFingerprint = ''set_fingerprint''"
definition TypeFindMatch :: string where "TypeFindMatch = ''find_match''"
definition TypeCancelMatch :: string where "TypeCancelMatch = ''cancel_match''"
definition TypeAcceptMatch :: string where "TypeAcceptMatch = ''accept_match''"
definition TypeDeclineMatch :: string where "TypeDeclineMatch = ''decline_match''"
definition TypeMessage :: string where "TypeMessage = ''message''"
definition TypeTyping :: string where "TypeTyping = ''typing''"
definition TypeEndChat :: string where "TypeEndChat = ''end_chat''"
definition TypeReport :: string where "TypeReport = ''report''"
definition TypePing :: string where "TypePing = ''ping''"

definition TypeSessionCreated :: string where "TypeSessionCreated = ''session_created''"
definition TypeMatchingStarted :: string where "TypeMatchingStarted = ''matching_started''"
definition TypeMatchFound :: string where "TypeMatchFound = ''match_found''"
definition TypeMatchAccepted :: string where "TypeMatchAccepted = ''match_accepted''"
definition TypeMatchDeclined :: string where "TypeMatchDeclined = ''match_declined''"
definition TypeMatchTimeout :: string where "TypeMatchTimeout = ''match_timeout''"
definition TypePartnerLeft :: string where "TypePartnerLeft = ''partner_left''"
definition TypeRateLimited :: string where "TypeRateLimited = ''rate_limited''"
definition TypeBanned :: string where "TypeBanned = ''banned''"
definition TypeError :: string where "TypeError = ''error''"
definition TypePong :: string where "TypePong = ''pong''"

lemmas client_types = TypeSetFingerprint_def TypeFindMatch_def TypeCancelMatch_def TypeAcceptMatch_def
  TypeDeclineMatch_def TypeMessage_def TypeTyping_def TypeEndChat_def TypeReport_def TypePing_def

lemmas server_types = TypeSessionCreated_def TypeMatchingStarted_def TypeMatchFound_def TypeMatchAccepted_def
  TypeMatchDeclined_def TypeMatchTimeout_def TypePartnerLeft_def TypeRateLimited_def TypeBanned_def
  TypeError_def TypePong_def

section \<open>Messages\<close>

text \<open>The client's messages; the field \<open>type\<close> of each struct is fixed by its constructor.\<close>

datatype client_msg =
    SetFingerprintMsg (Fingerprint: string)
  | FindMatchMsg (Interests: "string list option")
  | CancelMatchMsg
  | AcceptMatchMsg (ChatID: string)
  | DeclineMatchMsg (ChatID: string)
  | ChatMsg (ChatID: string) (Text: string)
  | TypingMsg (ChatID: string) (IsTyping: bool)
  | EndChatMsg (ChatID: string)
  | ReportMsg (ChatID: string) (Reason: string)
  | PingMsg

text \<open>The server's messages, as the handlers fill them in: \<open>type\<close> is left to \<open>NewServerMessage\<close>.\<close>

datatype server_msg =
    SessionCreatedMsg string
  | MatchingStartedMsg int
  | MatchFoundMsg string "string list option" int
  | MatchAcceptedMsg string
  | MatchDeclinedMsg
  | MatchTimeoutMsg
  | ServerChatMsg string string int
  | ServerTypingMsg bool
  | PartnerLeftMsg
  | RateLimitedMsg int
  | BannedMsg int string
  | ErrorMsg string string
  | PongMsg

section \<open>Parsing the client's messages\<close>

record Envelope =
  Type :: string
  Raw :: string

definition UnmarshalJSON :: "string \<Rightarrow> Envelope result" where
  "UnmarshalJSON data =
     (case Unmarshal [(''type'', FStr [])] data of
        Inl err \<Rightarrow> Inl (ErrWrap ''protocol: failed to unmarshal envelope'' err)
      | Inr partial \<Rightarrow>
          if str_field partial ''type'' = [] then Inl (ErrText ''protocol: missing or empty \"type\" field'')
          else Inr \<lparr>Type = str_field partial ''type'', Raw = data\<rparr>)"

text \<open>
  \<open>json.Unmarshal(data, &env)\<close>: the document is checked first and then given to \<open>UnmarshalJSON\<close>
  without the white space around it.
\<close>

definition trim_ws :: "string \<Rightarrow> string" where
  "trim_ws s = rev (skip_ws (rev (skip_ws s)))"

definition unmarshal_envelope :: "string \<Rightarrow> Envelope result" where
  "unmarshal_envelope data =
     (case json_parse data of
        None \<Rightarrow> Inl syntax_error
      | Some _ \<Rightarrow> UnmarshalJSON (trim_ws data))"

text \<open>The fields of a client message of a type, with their zero values, and the message they make.\<close>

definition payload_fields :: "string \<Rightarrow> fields option" where
  "payload_fields ty =
     (if ty = TypeSetFingerprint then Some [(''type'', FStr []), (''fingerprint'', FStr [])]
      else if ty = TypeFindMatch then Some [(''type'', FStr []), (''interests'', FStrs None)]
      else if ty = TypeCancelMatch then Some [(''type'', FStr [])]
      else if ty = TypeAcceptMatch then Some [(''type'', FStr []), (''chat_id'', FStr [])]
      else if ty = TypeDeclineMatch then Some [(''type'', FStr []), (''chat_id'', FStr [])]
      else if ty = TypeMessage then Some [(''type'', FStr []), (''chat_id'', FStr []), (''text'', FStr [])]
      else if ty = TypeTyping then Some [(''type'', FStr []), (''chat_id'', FStr []), (''is_typing'', FBool False)]
      else if ty = TypeEndChat then Some [(''type'', FStr []), (''chat_id'', FStr [])]
      else if ty = TypeReport then Some [(''type'', FStr []), (''chat_id'', FStr []), (''reason'', FStr [])]
      else if ty = TypePing then Some [(''type'', FStr [])]
      else None)"

definition payload_msg :: "string \<Rightarrow> fields \<Rightarrow> client_msg" where
  "payload_msg ty fs =
     (if ty = TypeSetFingerprint then SetFingerprintMsg (str_field fs ''fingerprint'')
      else if ty = TypeFindMatch then FindMatchMsg (strs_field fs ''interests'')
      else if ty = TypeCancelMatch then CancelMatchMsg
      else if ty = TypeAcceptMatch then AcceptMatchMsg (str_field fs ''chat_id'')
      else if ty = TypeDeclineMatch then DeclineMatchMsg (str_field fs ''chat_id'')
      else if ty = TypeMessage then ChatMsg (str_field fs ''chat_id'') (str_field fs ''text'')
      else if ty = TypeTyping then TypingMsg (str_field fs ''chat_id'') (bool_field fs ''is_typing'')
      else if ty = TypeEndChat then EndChatMsg (str_field fs ''chat_id'')
      else if ty = TypeReport then ReportMsg (str_field fs ''chat_id'') (str_field fs ''reason'')
      else PingMsg)"

text \<open>The texts of the errors are only logged; quoting by \<open>%q\<close> is left out.\<close>

definition ParseClientMessage :: "string \<Rightarrow> string \<times> client_msg result" where
  "ParseClientMessage data =
     (case unmarshal_envelope data of
        Inl err \<Rightarrow> ([], Inl (ErrWrap ''protocol: failed to parse message'' err))
      | Inr env \<Rightarrow>
          (case payload_fields (Type env) of
             None \<Rightarrow> (Type env, Inl (ErrText (''protocol: unknown client message type: '' @ Type env)))
           | Some fs \<Rightarrow>
               (case Unmarshal fs (Raw env) of
                  Inl err \<Rightarrow> (Type env, Inl (ErrWrap (''protocol: failed to decode '' @ Type env @ '' payload'') err))
                | Inr fs' \<Rightarrow> (Type env, Inr (payload_msg (Type env) fs')))))"

section \<open>Making the server's messages\<close>

text \<open>\<open>json.Marshal\<close> of the structs; the field \<open>type\<close> is empty.\<close>

fun marshal_server :: "server_msg \<Rightarrow> (string \<times> json) list" where
  "marshal_server (SessionCreatedMsg sid) = [(''type'', JStr []), (''session_id'', JStr sid)]"
| "marshal_server (MatchingStartedMsg n) = [(''type'', JStr []), (''timeout'', JInt n)]"
| "marshal_server (MatchFoundMsg c shared n) =
     [(''type'', JStr []), (''chat_id'', JStr c), (''shared_interests'', JStrs shared), (''accept_deadline'', JInt n)]"
| "marshal_server (MatchAcceptedMsg c) = [(''type'', JStr []), (''chat_id'', JStr c)]"
| "marshal_server MatchDeclinedMsg = [(''type'', JStr [])]"
| "marshal_server MatchTimeoutMsg = [(''type'', JStr [])]"
| "marshal_server (ServerChatMsg from txt ts) =
     [(''type'', JStr []), (''from'', JStr from), (''text'', JStr txt), (''ts'', JInt ts)]"
| "marshal_server (ServerTypingMsg b) = [(''type'', JStr []), (''is_typing'', JBool b)]"
| "marshal_server PartnerLeftMsg = [(''type'', JStr [])]"
| "marshal_server (RateLimitedMsg n) = [(''type'', JStr []), (''retry_after'', JInt n)]"
| "marshal_server (BannedMsg n reason) = [(''type'', JStr []), (''duration'', JInt n), (''reason'', JStr reason)]"
| "marshal_server (ErrorMsg code msg) = [(''type'', JStr []), (''code'', JStr code), (''message'', JStr msg)]"
| "marshal_server PongMsg = [(''type'', JStr [])]"

text \<open>
  An integer as a \<open>float64\<close>: the nearest number with 53 significant bits, ties to even; written with
  the fewest digits that read back as the same number, the nearest to it of those, ties to even.
\<close>

fun bit_len :: "nat \<Rightarrow> nat" where
  "bit_len n = (if n = 0 then 0 else Suc (bit_len (n div 2)))"

declare bit_len.simps [simp del]

definition float_nat :: "nat \<Rightarrow> nat" where
  "float_nat n =
     (if n < 2 ^ 53 then n
      else (let k = bit_len n - 53; q = n div 2 ^ k; r = n mod 2 ^ k; h = 2 ^ (k - 1)
            in (if h < r \<or> r = h \<and> odd q then q + 1 else q) * 2 ^ k))"

definition digits_candidate :: "nat \<Rightarrow> nat \<Rightarrow> nat option" where
  "digits_candidate m d =
     (let unit = 10 ^ (length (show_nat m) - d); lo = m div unit * unit; hi = lo + unit
      in case filter (\<lambda>c. float_nat c = m) [lo, hi] of
           [] \<Rightarrow> None
         | [c] \<Rightarrow> Some c
         | _ \<Rightarrow> Some (if m - lo < hi - m \<or> m - lo = hi - m \<and> even (lo div unit) then lo else hi))"

definition shortest :: "nat \<Rightarrow> nat" where
  "shortest m = hd (List.map_filter (digits_candidate m) [1..<Suc (length (show_nat m))])"

definition float_text :: "int \<Rightarrow> string" where
  "float_text n =
     (if \<bar>n\<bar> < 2 ^ 53 then show_int n
      else show_int (sgn n * int (shortest (float_nat (nat \<bar>n\<bar>)))))"

text \<open>The payloads are flat: a number, boolean, string or slice of strings per field.\<close>

fun iface_val :: "json \<Rightarrow> json" where
  "iface_val (JNum l) = JNum (case parse_int l of Some n \<Rightarrow> float_text n | None \<Rightarrow> l)"
| "iface_val j = j"

definition NewServerMessage :: "string \<Rightarrow> server_msg \<Rightarrow> string result" where
  "NewServerMessage msgType payload =
     (let raw = json_text (JObj (marshal_server payload))
      in case json_parse raw of
           Some (JObj fs) \<Rightarrow>
             (let m = AList.update ''type'' (JStr msgType) (map (\<lambda>(k, v). (k, iface_val v)) fs)
              in Inr (json_text (JObj (sort_key fst m))))
         | _ \<Rightarrow> Inl (ErrText ''protocol: failed to unmarshal payload into map''))"

section \<open>Properties\<close>

text \<open>The type of a client message and the document the client sends for it.\<close>

fun client_type :: "client_msg \<Rightarrow> string" where
  "client_type (SetFingerprintMsg _) = TypeSetFingerprint"
| "client_type (FindMatchMsg _) = TypeFindMatch"
| "client_type CancelMatchMsg = TypeCancelMatch"
| "client_type (AcceptMatchMsg _) = TypeAcceptMatch"
| "client_type (DeclineMatchMsg _) = TypeDeclineMatch"
| "client_type (ChatMsg _ _) = TypeMessage"
| "client_type (TypingMsg _ _) = TypeTyping"
| "client_type (EndChatMsg _) = TypeEndChat"
| "client_type (ReportMsg _ _) = TypeReport"
| "client_type PingMsg = TypePing"

fun client_fields :: "client_msg \<Rightarrow> (string \<times> json) list" where
  "client_fields (SetFingerprintMsg fp) = [(''fingerprint'', JStr fp)]"
| "client_fields (FindMatchMsg x) = [(''interests'', JStrs x)]"
| "client_fields CancelMatchMsg = []"
| "client_fields (AcceptMatchMsg c) = [(''chat_id'', JStr c)]"
| "client_fields (DeclineMatchMsg c) = [(''chat_id'', JStr c)]"
| "client_fields (ChatMsg c t) = [(''chat_id'', JStr c), (''text'', JStr t)]"
| "client_fields (TypingMsg c b) = [(''chat_id'', JStr c), (''is_typing'', JBool b)]"
| "client_fields (EndChatMsg c) = [(''chat_id'', JStr c)]"
| "client_fields (ReportMsg c r) = [(''chat_id'', JStr c), (''reason'', JStr r)]"
| "client_fields PingMsg = []"

definition client_json :: "client_msg \<Rightarrow> json" where
  "client_json m = JObj ((''type'', JStr (client_type m)) # client_fields m)"

lemma type_distinct:
  "distinct [TypeSetFingerprint, TypeFindMatch, TypeCancelMatch, TypeAcceptMatch, TypeDeclineMatch, TypeMessage,
     TypeTyping, TypeEndChat, TypeReport, TypePing]"
  by (simp add: client_types)

lemma payload_msg_type: "payload_fields ty = Some fs0 \<Longrightarrow> client_type (payload_msg ty fs) = ty"
  by (auto simp: payload_fields_def payload_msg_def split: if_splits)

lemma server_types_refused:
  "payload_fields TypeSessionCreated = None" "payload_fields TypeMatchFound = None"
  "payload_fields TypeMatchAccepted = None" "payload_fields TypeBanned = None"
  "payload_fields TypeError = None" "payload_fields TypePong = None"
  by (simp_all add: payload_fields_def client_types server_types)

text \<open>
  C28.  What the parser accepts has the type it reports: a message of the client is decoded as the
  struct that belongs to its type, so the type assertions of the handlers succeed, and a document of any
  other type, the server's own included, is refused.
\<close>

theorem ParseClientMessage_typed:
  assumes "ParseClientMessage data = (ty, Inr m)"
  shows "ty = client_type m \<and> payload_fields ty \<noteq> None \<and>
    ty \<notin> {TypeSessionCreated, TypeMatchFound, TypeMatchAccepted, TypeBanned, TypeError, TypePong}"
proof -
  obtain fs fs' where "payload_fields ty = Some fs" "m = payload_msg ty fs'"
    using assms by (auto simp: ParseClientMessage_def split: sum.splits option.splits)
  with payload_msg_type [of ty fs fs'] server_types_refused show ?thesis by auto
qed

lemma other_field:
  "find_field ''fingerprint'' [(''type'', v)] = None" "find_field ''interests'' [(''type'', v)] = None"
  "find_field ''chat_id'' [(''type'', v)] = None" "find_field ''text'' [(''type'', v)] = None"
  "find_field ''is_typing'' [(''type'', v)] = None" "find_field ''reason'' [(''type'', v)] = None"
  by (simp_all add: find_field_def fold_name_def runes_ascii byte_def fold_rune_def)

lemma valid_ascii: "list_all (\<lambda>c. byte c < 128) s \<Longrightarrow> ValidString s"
proof (induction s)
  case Nil
  then show ?case by (simp add: ValidString.simps [of "[]"])
next
  case (Cons c s)
  then have "byte c \<noteq> RuneError" by (simp add: RuneError_def)
  with Cons show ?case by (simp add: ValidString.simps [of "c # s"] Decode_bytes(1))
qed

fun valid_client :: "client_msg \<Rightarrow> bool" where
  "valid_client (SetFingerprintMsg fp) = ValidString fp"
| "valid_client (FindMatchMsg x) = (case x of None \<Rightarrow> True | Some xs \<Rightarrow> list_all ValidString xs)"
| "valid_client (AcceptMatchMsg c) = ValidString c"
| "valid_client (DeclineMatchMsg c) = ValidString c"
| "valid_client (ChatMsg c t) = (ValidString c \<and> ValidString t)"
| "valid_client (TypingMsg c b) = ValidString c"
| "valid_client (EndChatMsg c) = ValidString c"
| "valid_client (ReportMsg c r) = (ValidString c \<and> ValidString r)"
| "valid_client CancelMatchMsg = True"
| "valid_client PingMsg = True"

lemma wf_client_json: "valid_client m \<Longrightarrow> wf_json 10000 (client_json m)"
  by (cases m) (auto simp: client_json_def client_types valid_ascii byte_def split: option.splits)

lemma trim_json: "trim_ws (json_text (JObj fs)) = json_text (JObj fs)"
  by (simp add: trim_ws_def not_ws)

lemma envelope_client:
  assumes "valid_client m"
  shows "unmarshal_envelope (json_text (client_json m)) = Inr \<lparr>Type = client_type m, Raw = json_text (client_json m)\<rparr>"
proof -
  have "client_type m \<noteq> []" by (cases m) (simp_all add: client_types)
  moreover have "decode_doc [(''type'', FStr [])] (client_json m) = Inr [(''type'', FStr (client_type m))]"
    by (cases m) (simp_all add: client_json_def decode_doc_def find_field_def [of "''type''"] other_field)
  moreover have "trim_ws (json_text (client_json m)) = json_text (client_json m)"
    unfolding client_json_def by (rule trim_json)
  ultimately show ?thesis
    using wf_client_json [OF assms]
    by (simp add: unmarshal_envelope_def json_parse_text UnmarshalJSON_def Unmarshal_text str_field_def)
qed

theorem ParseClientMessage_typed_witness:
  "\<exists>ty m. ParseClientMessage (json_text (client_json PingMsg)) = (ty, Inr m) \<and> ty = client_type m \<and> ty = ''ping''"
proof -
  have "ParseClientMessage (json_text (client_json PingMsg)) = (TypePing, Inr PingMsg)"
  proof -
    have "decode_doc [(''type'', FStr [])] (client_json PingMsg) = Inr [(''type'', FStr TypePing)]"
      by (simp add: client_json_def decode_doc_def find_field_def)
    then have "Unmarshal [(''type'', FStr [])] (json_text (client_json PingMsg)) = Inr [(''type'', FStr TypePing)]"
      using wf_client_json [of PingMsg] by (simp only: Unmarshal_text valid_client.simps)
    moreover have "payload_fields TypePing = Some [(''type'', FStr [])]" "payload_msg TypePing fs = PingMsg" for fs
      by (simp_all add: payload_fields_def payload_msg_def client_types)
    ultimately show ?thesis using envelope_client [of PingMsg] by (simp add: ParseClientMessage_def)
  qed
  from ParseClientMessage_typed [OF this] this show ?thesis by (auto simp: TypePing_def)
qed

text \<open>
  C29.  A client's message survives the wire: parsing the document of a message whose strings are valid
  UTF-8 gives its type and the message itself.
\<close>

theorem ParseClientMessage_roundtrip:
  assumes "valid_client m"
  shows "ParseClientMessage (json_text (client_json m)) = (client_type m, Inr m)"
proof -
  note w = wf_client_json [OF assms]
  note simps = payload_fields_def payload_msg_def client_types client_json_def decode_doc_def find_field_def field_simps
  have "\<exists>fs fs'. payload_fields (client_type m) = Some fs \<and> decode_doc fs (client_json m) = Inr fs' \<and>
      payload_msg (client_type m) fs' = m"
  proof (cases m)
    case (FindMatchMsg y)
    obtain x where "decode_val (FStrs None) (JStrs y) = (FStrs x, True)" "map_option (\<lambda>(n, arr). take n arr) x = y"
      using decode_JStrs by blast
    with FindMatchMsg show ?thesis by (simp add: simps)
  qed (simp_all add: simps)
  then show ?thesis
    using envelope_client [OF assms] w by (auto simp: ParseClientMessage_def Unmarshal_text)
qed

theorem ParseClientMessage_roundtrip_witness:
  "ParseClientMessage (json_text (client_json (ChatMsg ''c'' ''hi''))) = (''message'', Inr (ChatMsg ''c'' ''hi''))"
  using ParseClientMessage_roundtrip [of "ChatMsg ''c'' ''hi''"] by (simp add: valid_ascii byte_def TypeMessage_def)

abbreviation exact_int :: "int \<Rightarrow> bool" where
  "exact_int n \<equiv> \<bar>n\<bar> < 2 ^ 53"

fun valid_server :: "server_msg \<Rightarrow> bool" where
  "valid_server (SessionCreatedMsg sid) = ValidString sid"
| "valid_server (MatchingStartedMsg n) = exact_int n"
| "valid_server (MatchFoundMsg c x n) =
     (ValidString c \<and> (case x of None \<Rightarrow> True | Some xs \<Rightarrow> list_all ValidString xs) \<and> exact_int n)"
| "valid_server (MatchAcceptedMsg c) = ValidString c"
| "valid_server (ServerChatMsg f t n) = (ValidString f \<and> ValidString t \<and> exact_int n)"
| "valid_server (RateLimitedMsg n) = exact_int n"
| "valid_server (BannedMsg n r) = (exact_int n \<and> ValidString r)"
| "valid_server (ErrorMsg c m) = (ValidString c \<and> ValidString m)"
| "valid_server _ = True"

lemma iface_JInt: "exact_int n \<Longrightarrow> iface_val (JInt n) = JInt n"
  by (simp add: JInt_def float_text_def)

lemma iface_JStrs: "iface_val (JStrs x) = JStrs x"
  by (cases x) (simp_all add: JStrs_def)

lemma valid_literal:
  "ValidString []" "ValidString ''type''" "ValidString ''session_id''" "ValidString ''timeout''" "ValidString ''chat_id''"
  "ValidString ''shared_interests''" "ValidString ''accept_deadline''" "ValidString ''from''" "ValidString ''text''"
  "ValidString ''ts''" "ValidString ''is_typing''" "ValidString ''retry_after''" "ValidString ''duration''"
  "ValidString ''reason''" "ValidString ''code''" "ValidString ''message''"
  by (rule valid_ascii, simp add: byte_def)+

lemma marshal_server_props:
  assumes "valid_server p"
  shows "wf_json 10000 (JObj (marshal_server p))" "distinct (map fst (marshal_server p))"
    "map (\<lambda>(k, v). (k, iface_val v)) (marshal_server p) = marshal_server p"
  using assms by (cases p; simp add: valid_literal iface_JInt iface_JStrs)+

lemma wf_json_fields:
  "wf_json d (JObj fs) \<longleftrightarrow> 0 < d \<and> (\<forall>(k, v) \<in> set fs. ValidString k \<and> wf_json (d - 1) v)"
  by simp

text \<open>
  A server message carries its payload and the right type: when the strings are valid UTF-8
  and the numbers fit a \<open>float64\<close>, the bytes parse back to an object whose fields are those of the
  payload, in alphabetical order and without repetition, with \<open>type\<close> set to the message type
  whatever the struct held.
\<close>

lemma NewServerMessage_fields:
  assumes "valid_server p" and "ValidString ty"
  shows "\<exists>out fs. NewServerMessage ty p = Inr out \<and> json_parse out = Some (JObj fs) \<and>
    map_of fs = (map_of (marshal_server p))(''type'' \<mapsto> JStr ty) \<and> sorted (map fst fs) \<and> distinct (map fst fs)"
proof -
  note P = marshal_server_props [OF assms(1)]
  define m where "m = AList.update ''type'' (JStr ty) (marshal_server p)"
  define fs where "fs = sort_key fst m"
  have d: "distinct (map fst m)" unfolding m_def by (rule AList.distinct_update [OF P(2)])
  have "(k, v) \<in> set m \<Longrightarrow> (k, v) \<in> set (marshal_server p) \<or> (k, v) = (''type'', JStr ty)" for k v
    using d by (metis P(2) AList.update_conv' Some_eq_map_of_iff fun_upd_apply map_of_eq_Some_iff m_def option.inject)
  then have w: "wf_json 10000 (JObj fs)"
    using P(1) assms(2) unfolding wf_json_fields fs_def by (fastforce simp: valid_literal)
  have "NewServerMessage ty p = Inr (json_text (JObj fs))"
    using json_parse_text [OF P(1)] P(3) by (simp add: NewServerMessage_def Let_def fs_def m_def del: json_text.simps)
  moreover have "distinct (map fst fs)" unfolding fs_def using d by (simp add: distinct_map)
  moreover from this d have "map_of fs = map_of m" by (intro map_of_inject_set [THEN iffD2]) (auto simp: fs_def)
  ultimately show ?thesis
    using json_parse_text [OF w] by (simp add: m_def AList.update_conv' fs_def del: json_text.simps)
qed

lemma NewServerMessage_fields_witness:
  "\<exists>out fs. NewServerMessage TypeBanned (BannedMsg 900 ''spam'') = Inr out \<and> json_parse out = Some (JObj fs) \<and>
     map_of fs ''type'' = Some (JStr ''banned'') \<and> map_of fs ''duration'' = Some (JInt 900)"
proof -
  have "valid_server (BannedMsg 900 ''spam'')" "ValidString TypeBanned"
    by (simp_all add: valid_ascii byte_def TypeBanned_def)
  from NewServerMessage_fields [OF this] show ?thesis by (auto simp: TypeBanned_def)
qed

end
