(* ===== verification/WsServer.thy ===== *)
theory WsServer
  imports Connections Session Protocol
begin

text \<open>
  \<open>server.go\<close>, \<open>dispatcher.go\<close> and \<open>heartbeat.go\<close> of \<open>internal/ws\<close>: accepting connections, reading frames,
  dispatching messages, evicting dead connections and shutting down.  What the application does with a message and with a
  lost connection are callbacks; the locale \<open>app_callbacks\<close> states what the server relies on.  Deadlines on
  sockets show only in the results of reads and writes; the worker pool runs the handlers one after the other; log lines
  and gauges are left out.
\<close>

section \<open>The server\<close>

record ServerConfig =
  ListenAddr :: string
  WorkerPoolSize :: int
  MaxConnections :: int
  ReadTimeout :: Duration
  WriteTimeout :: Duration
  MaxFrameSize :: int

definition DefaultServerConfig :: ServerConfig where
  "DefaultServerConfig = \<lparr>ListenAddr = '':8080'', WorkerPoolSize = 256, MaxConnections = 100000, ReadTimeout = 10 * Second,
     WriteTimeout = 10 * Second, MaxFrameSize = 4096\<rparr>"

type_synonym 'p disconnect = "string \<Rightarrow> 'p \<Rightarrow> 'p"
type_synonym 'p receive = "conn \<Rightarrow> string \<Rightarrow> 'p \<Rightarrow> 'p"

definition RemoveConnection ::
    "('e, 'h, 'y) wsenv_scheme \<Rightarrow> ('e, 'z) server_scheme disconnect \<Rightarrow> conn \<Rightarrow> ('e, 'z) server_scheme \<Rightarrow> ('e, 'z) server_scheme" where
  "RemoveConnection E onDisconnect c p =
     (let i = conn_ID (heap p c);
          (_, p1) = epoll_Remove E (conn_Conn (heap p c)) p;
          (ok, p2) = Connections.Remove E i p1
      in if \<not> ok then p2
         else outside0 (Session.Delete (env_redis E) i) (onDisconnect i p2))"

definition SendMessage ::
    "('e, 'h, 'y) wsenv_scheme \<Rightarrow> string \<Rightarrow> string \<Rightarrow> ('e, 'z) server_scheme \<Rightarrow> error option \<times> ('e, 'z) server_scheme" where
  "SendMessage E connID data p =
     (case Connections.Get connID p of
        None \<Rightarrow> (Some (ErrText (''ws: connection '' @ connID @ '' not found'')), p)
      | Some c \<Rightarrow> WriteMessage E c data p)"

text \<open>An HTTP request for an upgrade: the error it is answered with, if any.\<close>

definition handleUpgrade ::
    "('e, 'h, 'y) wsenv_scheme \<Rightarrow> ServerConfig \<Rightarrow> ('e, 'z) server_scheme \<Rightarrow> string option \<times> ('e, 'z) server_scheme" where
  "handleUpgrade E config p =
     (if draining p then (Some ''server shutting down'', p)
      else if MaxConnections config \<le> Count p then (Some ''too many connections'', p)
      else
        (case outside (net_upgrade E) p of
           (Inl err, p1) \<Rightarrow> (None, p1)
         | (Inr net, p1) \<Rightarrow>
             (let fd = net_fd E net (world p1);
                  (sessionID, p2) = outside (env_uuid E) p1;
                  c = next_conn p2;
                  now = env_now E (world p2);
                  p3 = p2\<lparr>heap := (heap p2)(c := \<lparr>conn_ID = sessionID, conn_Conn = net, conn_Fd = fd, conn_CreatedAt = now,
                                                    conn_LastPing = now, conn_processing = False\<rparr>),
                           next_conn := Suc c\<rparr>;
                  p4 = Add c p3
              in case epoll_Add E net p4 of
                   (Some err, p5) \<Rightarrow> (None, snd (Connections.Remove E sessionID p5))
                 | (None, p5) \<Rightarrow>
                     (let p6 = outside0 (Session.Create (env_redis E) (serverName E) (Unix E (world p5)) sessionID) p5
                      in (None, case NewServerMessage TypeSessionCreated (SessionCreatedMsg sessionID) of
                            Inl err \<Rightarrow> p6
                          | Inr m \<Rightarrow> snd (WriteMessage E c m p6))))))"

definition handleOnlineCount :: "('e, 'z) server_scheme \<Rightarrow> string" where
  "handleOnlineCount p = json_text (JObj [(''count'', JInt (Count p))]) @ [CHR 0x0A]"

definition set_LastPing :: "conn \<Rightarrow> int \<Rightarrow> ('e, 'z) server_scheme \<Rightarrow> ('e, 'z) server_scheme" where
  "set_LastPing c now p = p\<lparr>heap := (heap p)(c := (heap p c)\<lparr>conn_LastPing := now\<rparr>)\<rparr>"

definition set_processing :: "conn \<Rightarrow> bool \<Rightarrow> ('e, 'z) server_scheme \<Rightarrow> ('e, 'z) server_scheme" where
  "set_processing c b p = p\<lparr>heap := (heap p)(c := (heap p c)\<lparr>conn_processing := b\<rparr>)\<rparr>"

text \<open>The part of \<open>handleConn\<close> between claiming the connection and releasing it.\<close>

definition read_frame ::
    "('e, 'h, 'y) wsenv_scheme \<Rightarrow> ServerConfig \<Rightarrow> ('e, 'z) server_scheme receive \<Rightarrow> ('e, 'z) server_scheme disconnect \<Rightarrow>
     nat \<Rightarrow> conn \<Rightarrow> ('e, 'z) server_scheme \<Rightarrow> ('e, 'z) server_scheme" where
  "read_frame E config onMessage onDisconnect net c p =
     (case outside (net_next E net) p of
        (ReadTimedOut, p1) \<Rightarrow> p1
      | (ReadFailed err, p1) \<Rightarrow> RemoveConnection E onDisconnect c p1
      | (ControlFrame is_close, p1) \<Rightarrow>
          (let p2 = set_LastPing c (env_now E (world p1)) p1
           in if is_close then RemoveConnection E onDisconnect c p2 else p2)
      | (DataFrame len, p1) \<Rightarrow>
          (let p2 = set_LastPing c (env_now E (world p1)) p1
           in if 0 < MaxFrameSize config \<and> MaxFrameSize config < len then
                (let p3 = p2\<lparr>world := net_discard E net (world p2)\<rparr>
                 in case NewServerMessage TypeError (ErrorMsg ''frame_too_large'' ''Message exceeds 4KB limit'') of
                      Inl err \<Rightarrow> p3
                    | Inr m \<Rightarrow> snd (WriteMessage E c m p3))
              else if 0 < len then
                (case outside (net_payload E net len) p2 of
                   (None, p3) \<Rightarrow> RemoveConnection E onDisconnect c p3
                 | (Some data, p3) \<Rightarrow> if data = [] then p3 else onMessage c data p3)
              else p2))"

definition handleConn ::
    "('e, 'h, 'y) wsenv_scheme \<Rightarrow> ServerConfig \<Rightarrow> ('e, 'z) server_scheme receive \<Rightarrow> ('e, 'z) server_scheme disconnect \<Rightarrow>
     nat \<Rightarrow> ('e, 'z) server_scheme \<Rightarrow> ('e, 'z) server_scheme" where
  "handleConn E config onMessage onDisconnect net p =
     (case GetByConn E net p of
        None \<Rightarrow> p
      | Some c \<Rightarrow>
          if conn_processing (heap p c) then p
          else set_processing c False (read_frame E config onMessage onDisconnect net c (set_processing c True p)))"

text \<open>A round of \<open>startEventLoop\<close> for the descriptors the kernel reports.\<close>

definition event_loop_round ::
    "('e, 'h, 'y) wsenv_scheme \<Rightarrow> ServerConfig \<Rightarrow> ('e, 'z) server_scheme receive \<Rightarrow> ('e, 'z) server_scheme disconnect \<Rightarrow>
     int list \<Rightarrow> ('e, 'z) server_scheme \<Rightarrow> ('e, 'z) server_scheme" where
  "event_loop_round E config onMessage onDisconnect fds p =
     fold (handleConn E config onMessage onDisconnect) (epoll_Wait fds p) p"

section \<open>Heartbeat\<close>

record HeartbeatConfig =
  Interval :: Duration
  Timeout :: Duration

definition DefaultHeartbeatConfig :: HeartbeatConfig where
  "DefaultHeartbeatConfig = \<lparr>Interval = 30 * Second, Timeout = 10 * Second\<rparr>"

definition check_connection ::
    "('e, 'h, 'y) wsenv_scheme \<Rightarrow> ('e, 'z) server_scheme disconnect \<Rightarrow> int \<Rightarrow> Duration \<Rightarrow> conn \<Rightarrow> ('e, 'z) server_scheme \<Rightarrow> ('e, 'z) server_scheme" where
  "check_connection E onDisconnect now deadline c p =
     (if deadline < now - conn_LastPing (heap p c) then RemoveConnection E onDisconnect c p
      else (case WritePing E c p of
              (Some err, p1) \<Rightarrow> RemoveConnection E onDisconnect c p1
            | (None, p1) \<Rightarrow> p1))"

definition checkConnections ::
    "('e, 'h, 'y) wsenv_scheme \<Rightarrow> ('e, 'z) server_scheme disconnect \<Rightarrow> (conn list \<Rightarrow> conn list) \<Rightarrow> HeartbeatConfig \<Rightarrow>
     ('e, 'z) server_scheme \<Rightarrow> ('e, 'z) server_scheme" where
  "checkConnections E onDisconnect ord config p =
     (let deadline = Interval config + Timeout config;
          now = env_now E (world p)
      in fold (check_connection E onDisconnect now deadline) (All ord p) p)"

section \<open>Dispatch\<close>

type_synonym 'p handlers = "string \<Rightarrow> (conn \<Rightarrow> client_msg \<Rightarrow> 'p \<Rightarrow> 'p) option"

definition sendError ::
    "('e, 'h, 'y) wsenv_scheme \<Rightarrow> conn \<Rightarrow> string \<Rightarrow> string \<Rightarrow> ('e, 'z) server_scheme \<Rightarrow> ('e, 'z) server_scheme" where
  "sendError E c code message p =
     (case NewServerMessage TypeError (ErrorMsg code message) of
        Inl err \<Rightarrow> p
      | Inr data \<Rightarrow> snd (WriteMessage E c data p))"

definition sendPong :: "('e, 'h, 'y) wsenv_scheme \<Rightarrow> conn \<Rightarrow> ('e, 'z) server_scheme \<Rightarrow> ('e, 'z) server_scheme" where
  "sendPong E c p =
     (let p1 = set_LastPing c (env_now E (world p)) p
      in case NewServerMessage TypePong PongMsg of
           Inl err \<Rightarrow> p1
         | Inr data \<Rightarrow> snd (WriteMessage E c data p1))"

definition Dispatch ::
    "('e, 'h, 'y) wsenv_scheme \<Rightarrow> ('e, 'z) server_scheme handlers \<Rightarrow> ('e, 'z) server_scheme receive" where
  "Dispatch E handlers c data p =
     (case ParseClientMessage data of
        (_, Inl err) \<Rightarrow> sendError E c ''parse_error'' ''invalid message format'' p
      | (msgType, Inr msg) \<Rightarrow>
          if msgType = TypePing then sendPong E c p
          else (case handlers msgType of
                  None \<Rightarrow> sendError E c ''unsupported_type'' ''unsupported message type'' p
                | Some handler \<Rightarrow> handler c msg p))"

section \<open>Shutdown\<close>

text \<open>
  The phases of \<open>Shutdown\<close> before and after the connections are given half a minute to close, during which the other
  events go on.
\<close>

definition notify_all ::
    "('e, 'z) server_scheme disconnect \<Rightarrow> (conn list \<Rightarrow> conn list) \<Rightarrow> ('e, 'z) server_scheme \<Rightarrow> ('e, 'z) server_scheme" where
  "notify_all onDisconnect ord p = fold (\<lambda>c p. onDisconnect (conn_ID (heap p c)) p) (All ord p) p"

definition shutdown_begin ::
    "('e, 'z) server_scheme disconnect \<Rightarrow> (conn list \<Rightarrow> conn list) \<Rightarrow> ('e, 'z) server_scheme \<Rightarrow> ('e, 'z) server_scheme" where
  "shutdown_begin onDisconnect ord p = notify_all onDisconnect ord (p\<lparr>draining := True\<rparr>)"

definition force_close :: "('e, 'h, 'y) wsenv_scheme \<Rightarrow> conn \<Rightarrow> ('e, 'z) server_scheme \<Rightarrow> ('e, 'z) server_scheme" where
  "force_close E c p =
     (let p1 = outside0 (Session.Delete (env_redis E) (conn_ID (heap p c))) p;
          (_, p2) = epoll_Remove E (conn_Conn (heap p c)) p1
      in Close E c p2)"

definition shutdown_end ::
    "('e, 'h, 'y) wsenv_scheme \<Rightarrow> (conn list \<Rightarrow> conn list) \<Rightarrow> ('e, 'z) server_scheme \<Rightarrow> ('e, 'z) server_scheme" where
  "shutdown_end E ord p = (fold (force_close E) (All ord p) p)\<lparr>epoll_conns := []\<rparr>"

section \<open>The callbacks\<close>

text \<open>
  What the server relies on: the disconnect callback does not touch the registry or the connections, and handling a message
  leaves a consistent registry consistent.
\<close>

locale app_disconnect =
  fixes onDisconnect :: "('e, 'z) server_scheme disconnect"
  assumes disconnect_registry: "same_registry p (onDisconnect i p)"
    and disconnect_heap: "heap (onDisconnect i p) = heap p"

locale app_callbacks = app_disconnect onDisconnect for onDisconnect :: "('e, 'z) server_scheme disconnect" +
  fixes onMessage :: "('e, 'z) server_scheme receive"
  assumes message_registered: "registered p \<Longrightarrow> registered (onMessage c data p)"

lemma set_registry [simp]:
  "same_registry p (set_LastPing c now q) = same_registry p q" "same_registry p (set_processing c b q) = same_registry p q"
  by (auto simp: set_LastPing_def set_processing_def same_registry_def)

lemma registered_outside:
  "registered p \<Longrightarrow> registered (snd (outside f p))" "registered p \<Longrightarrow> registered (outside0 f p)"
  "registered p \<Longrightarrow> registered (snd (WriteMessage E c data p))" "registered p \<Longrightarrow> registered (snd (WritePing E c p))"
  "registered p \<Longrightarrow> registered (Close E c p)" "registered p \<Longrightarrow> registered (snd (epoll_Remove E net p))"
  "registered p \<Longrightarrow> registered (snd (epoll_Add E net p))"
  "registered p \<Longrightarrow> registered (set_LastPing c now p)" "registered p \<Longrightarrow> registered (set_processing c b p)"
  "registered p \<Longrightarrow> registered (p\<lparr>world := e\<rparr>)" "registered p \<Longrightarrow> registered (p\<lparr>epoll_conns := x\<rparr>)"
  by (erule registered_same [rotated], simp)+

lemma same_registryD:
  assumes "same_registry p q"
  shows "byID q = byID p" "byFd q = byFd p" "next_conn q = next_conn p" "conn_ID (heap q c) = conn_ID (heap p c)"
    "conn_Fd (heap q c) = conn_Fd (heap p c)" "conn_Conn (heap q c) = conn_Conn (heap p c)"
  using assms by (simp_all add: same_registry_def)

lemma LastPing_outside [simp]:
  "heap (snd (outside f p)) = heap p" "heap (outside0 f p) = heap p" "heap (snd (WritePing E c p)) = heap p"
  "heap (snd (epoll_Remove E net p)) = heap p" "byID (snd (WritePing E c p)) = byID p" "byID (snd (epoll_Remove E net p)) = byID p"
  by (simp_all add: outside_def outside0_def WritePing_def epoll_Remove_def case_prod_beta Let_def split: option.split)

context app_disconnect
begin

lemma RemoveConnection_registered:
  assumes "registered p"
  shows "registered (RemoveConnection E onDisconnect c p)"
    "map_of (byID (RemoveConnection E onDisconnect c p)) = (map_of (byID p))(conn_ID (heap p c) := None)"
proof -
  let ?i = "conn_ID (heap p c)"
  define p1 where "p1 = snd (epoll_Remove E (conn_Conn (heap p c)) p)"
  define p2 where "p2 = snd (Connections.Remove E ?i p1)"
  have p1: "registered p1" "byID p1 = byID p" unfolding p1_def using assms by (simp_all add: registered_outside)
  note R = Remove_registered [OF p1(1), of E ?i, folded p2_def]
  have rc: "RemoveConnection E onDisconnect c p =
      (if fst (Connections.Remove E ?i p1) then outside0 (Session.Delete (env_redis E) ?i) (onDisconnect ?i p2) else p2)"
    by (simp add: RemoveConnection_def p1_def p2_def case_prod_beta Let_def)
  have s: "same_registry p2 (outside0 f (onDisconnect ?i p2))" for f :: "'e \<Rightarrow> 'c \<times> 'e"
    using disconnect_registry [of p2 ?i] by simp
  have "same_registry p2 (RemoveConnection E onDisconnect c p)" unfolding rc using s by simp
  from registered_same [OF this R(1)] same_registryD(1) [OF this] R(2) p1(2)
  show "registered (RemoveConnection E onDisconnect c p)"
    "map_of (byID (RemoveConnection E onDisconnect c p)) = (map_of (byID p))(conn_ID (heap p c) := None)"
    by simp_all
qed

lemma RemoveConnection_unregistered:
  assumes "map_of (byID p) (conn_ID (heap p c)) = None"
  shows "RemoveConnection E onDisconnect c p = snd (epoll_Remove E (conn_Conn (heap p c)) p)"
  using assms by (simp add: RemoveConnection_def Connections.Remove_def case_prod_beta Let_def)

end

section \<open>Every event keeps the registry consistent\<close>

text \<open>
  The kernel gives a new socket a descriptor no open socket has, and an identifier is new: \<open>fresh_upgrade\<close>.
\<close>

definition fresh_upgrade :: "('e, 'h, 'y) wsenv_scheme \<Rightarrow> ('e, 'z) server_scheme \<Rightarrow> bool" where
  "fresh_upgrade E p \<longleftrightarrow> (\<forall>net e1 i e2. net_upgrade E (world p) = (Inr net, e1) \<longrightarrow> env_uuid E e1 = (i, e2) \<longrightarrow>
     map_of (byFd p) (net_fd E net e1) = None \<and> map_of (byID p) i = None)"

lemma consistent_alloc: "consistent h n f g \<Longrightarrow> consistent (h(n := x)) (Suc n) f g"
  by (auto simp: consistent_def less_Suc_eq)

lemma registered_alloc: "registered p \<Longrightarrow> next_conn p = c \<Longrightarrow> registered (p\<lparr>heap := (heap p)(c := x), next_conn := Suc c\<rparr>)"
  using consistent_alloc by (auto simp: registered_def)

lemma handleUpgrade_registered:
  assumes "registered p" "fresh_upgrade E p"
  shows "registered (snd (handleUpgrade E config p))"
proof (cases "draining p \<or> MaxConnections config \<le> Count p \<or> (\<exists>err. fst (outside (net_upgrade E) p) = Inl err)")
  case True
  then show ?thesis using assms(1) by (auto simp: handleUpgrade_def case_prod_beta registered_outside)
next
  case False
  then obtain net e1 where u: "net_upgrade E (world p) = (Inr net, e1)"
    by (cases "net_upgrade E (world p)"; cases "fst (net_upgrade E (world p))") (auto simp: outside_def)
  obtain i e2 where i: "env_uuid E e1 = (i, e2)" by fastforce
  have fresh: "map_of (byFd p) (net_fd E net e1) = None" "map_of (byID p) i = None" using assms(2) u i by (auto simp: fresh_upgrade_def)
  let ?c = "next_conn p"
  let ?x = "\<lparr>conn_ID = i, conn_Conn = net, conn_Fd = net_fd E net e1, conn_CreatedAt = env_now E e2, conn_LastPing = env_now E e2,
    conn_processing = False\<rparr>"
  define p3 where "p3 = p\<lparr>world := e2, heap := (heap p)(?c := ?x), next_conn := Suc ?c\<rparr>"
  have o: "outside (net_upgrade E) p = (Inr net, p\<lparr>world := e1\<rparr>)" "outside (env_uuid E) (p\<lparr>world := e1\<rparr>) = (i, p\<lparr>world := e2\<rparr>)"
    using u i by (simp_all add: outside_def)
  have "registered (p\<lparr>world := e2\<rparr>)" using assms(1) by (rule registered_outside)
  from registered_alloc [OF this, of ?c ?x] have "registered p3" by (simp add: p3_def)
  then have p4: "registered (Add ?c p3)" by (rule Add_registered) (use fresh in \<open>simp_all add: p3_def\<close>)
  define p5 where "p5 = snd (epoll_Add E net (Add ?c p3))"
  have p5: "registered p5" unfolding p5_def using p4 by (rule registered_outside)
  have "snd (handleUpgrade E config p) = snd (Connections.Remove E i p5) \<or>
    snd (handleUpgrade E config p) = (case NewServerMessage TypeSessionCreated (SessionCreatedMsg i) of
       Inl err \<Rightarrow> outside0 (Session.Create (env_redis E) (serverName E) (Unix E (world p5)) i) p5
     | Inr m \<Rightarrow> snd (WriteMessage E ?c m (outside0 (Session.Create (env_redis E) (serverName E) (Unix E (world p5)) i) p5)))"
    using False o
    by (cases "fst (epoll_Add E net (Add ?c p3))") (simp_all add: handleUpgrade_def Let_def case_prod_beta p5_def p3_def split: sum.split)
  with Remove_registered(1) [OF p5, of E i] p5 show ?thesis by (auto simp: registered_outside split: sum.splits)
qed

context app_callbacks
begin

lemma read_frame_registered: "registered p \<Longrightarrow> registered (read_frame E config onMessage onDisconnect net c p)"
  by (auto simp: read_frame_def case_prod_beta Let_def
      intro!: registered_outside RemoveConnection_registered(1) message_registered split: header.split sum.split option.split)

lemma handleConn_registered: "registered p \<Longrightarrow> registered (handleConn E config onMessage onDisconnect net p)"
  by (auto simp: handleConn_def intro!: registered_outside read_frame_registered split: option.split)

lemma fold_registered: "(\<And>c p. registered p \<Longrightarrow> registered (g c p)) \<Longrightarrow> registered p \<Longrightarrow> registered (fold g cs p)"
  by (induction cs arbitrary: p) auto

lemma event_loop_registered: "registered p \<Longrightarrow> registered (event_loop_round E config onMessage onDisconnect fds p)"
  unfolding event_loop_round_def by (rule fold_registered) (auto intro: handleConn_registered)

lemma check_registered: "registered p \<Longrightarrow> registered (check_connection E onDisconnect now d c p)"
  by (auto simp: check_connection_def case_prod_beta intro!: registered_outside RemoveConnection_registered(1) split: option.split)

lemma checkConnections_registered: "registered p \<Longrightarrow> registered (checkConnections E onDisconnect ord config p)"
  unfolding checkConnections_def Let_def by (rule fold_registered) (auto intro: check_registered)

lemma shutdown_begin_registered: "registered p \<Longrightarrow> registered (shutdown_begin onDisconnect ord p)"
  unfolding shutdown_begin_def notify_all_def
  by (rule fold_registered, erule registered_same [OF disconnect_registry], erule registered_same [rotated], simp)

end

section \<open>Heartbeat\<close>

context app_disconnect
begin

lemma check_byID:
  assumes "registered p"
  shows "map_of (byID (check_connection E onDisconnect now d c p)) =
    (if d < now - conn_LastPing (heap p c) \<or> fst (WritePing E c p) \<noteq> None
     then (map_of (byID p))(conn_ID (heap p c) := None) else map_of (byID p))"
  using RemoveConnection_registered(2) [OF assms] RemoveConnection_registered(2) [OF registered_outside(4) [OF assms]]
  by (auto simp: check_connection_def case_prod_beta split: option.split)

lemma check_keeps: "registered p \<Longrightarrow> registered (check_connection E onDisconnect now d c p)"
  by (auto simp: check_connection_def case_prod_beta intro!: registered_outside RemoveConnection_registered(1) split: option.split)

lemma RemoveConnection_heap: "heap (RemoveConnection E onDisconnect c p) = heap p"
  by (simp add: RemoveConnection_def Connections.Remove_def Close_def case_prod_beta Let_def disconnect_heap split: option.split)

lemma check_heap: "heap (check_connection E onDisconnect now d c p) = heap p"
  by (auto simp: check_connection_def case_prod_beta RemoveConnection_heap split: option.split)

lemma fold_check:
  assumes "\<And>net e. fst (net_write E net PingFrame e) = None"
  shows "registered p \<Longrightarrow>
    map_of (byID (fold (check_connection E onDisconnect now d) cs p)) =
      map_of (byID p) |` (- {conn_ID (heap p c) | c. c \<in> set cs \<and> d < now - conn_LastPing (heap p c)})"
proof (induction cs arbitrary: p)
  case Nil
  then show ?case by (simp add: restrict_map_def)
next
  case (Cons c cs)
  let ?p1 = "check_connection E onDisconnect now d c p"
  have w: "fst (WritePing E c p) = None" using assms by (simp add: WritePing_def outside_def case_prod_beta Let_def)
  let ?D = "\<lambda>cs. {conn_ID (heap p c) | c. c \<in> set cs \<and> d < now - conn_LastPing (heap p c)}"
  have "map_of (byID (fold (check_connection E onDisconnect now d) cs ?p1)) = map_of (byID ?p1) |` (- ?D cs)"
    using Cons.IH [OF check_keeps [OF Cons.prems, of E now d c]] by (simp add: check_heap)
  also have "\<dots> = map_of (byID p) |` (- ?D (c # cs))"
    unfolding check_byID [OF Cons.prems] using w by (auto simp: restrict_map_def fun_eq_iff)
  finally show ?case by simp
qed

lemma checkConnections_byID:
  assumes "registered p" "\<And>net e. fst (net_write E net PingFrame e) = None" "\<And>xs. set (ord xs) = set xs"
  shows "map_of (byID (checkConnections E onDisconnect ord config p)) i = Some c \<longleftrightarrow>
    map_of (byID p) i = Some c \<and> env_now E (world p) - conn_LastPing (heap p c) \<le> Interval config + Timeout config"
proof -
  let ?now = "env_now E (world p)" and ?d = "Interval config + Timeout config"
  have c: "consistent (heap p) (next_conn p) (map_of (byID p)) (map_of (byFd p))" and d: "distinct (map fst (byID p))"
    using assms(1) by (simp_all add: registered_def)
  have id: "conn_ID (heap p c) = i" if "map_of (byID p) i = Some c" for i c
    using c that unfolding consistent_def by blast
  have all: "set (All ord p) = ran (map_of (byID p))"
    using assms(3) ran_distinct [OF d] by (simp add: All_def)
  have "map_of (byID (checkConnections E onDisconnect ord config p)) =
      map_of (byID p) |` (- {conn_ID (heap p c) | c. c \<in> set (All ord p) \<and> ?d < ?now - conn_LastPing (heap p c)})"
    unfolding checkConnections_def Let_def by (rule fold_check [OF assms(2,1)])
  then have m: "map_of (byID (checkConnections E onDisconnect ord config p)) i =
      (if \<exists>c. i = conn_ID (heap p c) \<and> c \<in> ran (map_of (byID p)) \<and> ?d < ?now - conn_LastPing (heap p c) then None else map_of (byID p) i)"
    by (auto simp: restrict_map_def all)
  have "(\<exists>c. i = conn_ID (heap p c) \<and> c \<in> ran (map_of (byID p)) \<and> ?d < ?now - conn_LastPing (heap p c)) \<longleftrightarrow>
      (\<exists>c. map_of (byID p) i = Some c \<and> ?d < ?now - conn_LastPing (heap p c))"
    using id unfolding ran_def mem_Collect_eq by metis
  from m [unfolded this] show ?thesis by (cases "map_of (byID p) i") (auto simp: not_less split: if_splits)
qed

end

end
