(* ===== verification/Schema.thy ===== *)
theory Schema
  imports Redis "HOL-Library.Sublist"
begin

text \<open>
  The layout of the application's data in Redis: which keys hold which kind of value.  A command
  that respects the layout keeps it, whether it is answered or fails, and is never refused
  for the type of its key; the components' operations are checked against it once each.  The
  readers \<open>set_at\<close>, \<open>zset_at\<close> and \<open>hash_at\<close> give the contents of a key of the right kind, with the
  effect of every command on them.
\<close>

section \<open>Kinds\<close>

datatype kind = KStr | KHash | KSet | KZSet

fun kind_of :: "rvalue \<Rightarrow> kind" where
  "kind_of (VStr v) = KStr"
| "kind_of (VHash h) = KHash"
| "kind_of (VSet S) = KSet"
| "kind_of (VZSet z) = KZSet"

definition kind_ok :: "keyspace \<Rightarrow> string \<Rightarrow> kind \<Rightarrow> bool" where
  "kind_ok ks k K = (case ks k of None \<Rightarrow> True | Some (v, _) \<Rightarrow> kind_of v = K)"

text \<open>The kind of value a command works on; \<open>None\<close> where any will do.\<close>

fun cmd_kind :: "rcmd \<Rightarrow> kind option" where
  "cmd_kind (GET k) = Some KStr"
| "cmd_kind (SET k v d) = Some KStr"
| "cmd_kind (INCR k) = Some KStr"
| "cmd_kind (HSET k fvs) = Some KHash"
| "cmd_kind (HGET k f) = Some KHash"
| "cmd_kind (HGETALL k) = Some KHash"
| "cmd_kind (SADD k m) = Some KSet"
| "cmd_kind (SREM k m) = Some KSet"
| "cmd_kind (SMEMBERS k) = Some KSet"
| "cmd_kind (ZADD k sc m) = Some KZSet"
| "cmd_kind (ZREM k m) = Some KZSet"
| "cmd_kind (ZRANGE k) = Some KZSet"
| "cmd_kind (ZSCORE k m) = Some KZSet"
| "cmd_kind (ZCARD k) = Some KZSet"
| "cmd_kind (ZRANGEBYSCORE k lo hi) = Some KZSet"
| "cmd_kind _ = None"

text \<open>The application's keys, by prefix.\<close>

definition app_kind :: "string \<Rightarrow> kind option" where
  "app_kind k =
     (if prefix ''session:'' k \<or> prefix ''chat:'' k \<or> prefix ''match:session:'' k then Some KHash
      else if k = ''match:queue'' \<or> k = ''match:pending_chats'' then Some KZSet
      else if prefix ''match:exact:'' k \<or> prefix ''match:interest:'' k then Some KSet
      else if prefix ''ban:'' k \<or> prefix ''reports:'' k \<or> prefix ''rl:'' k then Some KStr
      else None)"

definition schema_ok :: "keyspace \<Rightarrow> bool" where
  "schema_ok ks \<longleftrightarrow> (\<forall>k K. app_kind k = Some K \<longrightarrow> kind_ok ks k K)"

definition fits :: "rcmd \<Rightarrow> bool" where
  "fits c = (case cmd_key c of
     None \<Rightarrow> False
   | Some k \<Rightarrow> (case cmd_kind c of None \<Rightarrow> True | Some K \<Rightarrow> app_kind k = Some K))"

lemma schema_okD: "schema_ok ks \<Longrightarrow> app_kind k = Some K \<Longrightarrow> kind_ok ks k K"
  by (simp add: schema_ok_def)

lemma schema_ok_empty [simp]: "schema_ok Map.empty"
  by (simp add: schema_ok_def kind_ok_def)

lemma schema_ok_advance [wf_intros]: "schema_ok ks \<Longrightarrow> schema_ok (advance d ks)"
  by (auto simp: schema_ok_def kind_ok_def advance_def split: option.splits)

lemma kind_ok_effect:
  assumes "kind_ok ks k K" "cmd_key c = Some k" "cmd_kind c = None \<or> cmd_kind c = Some K"
  shows "kind_ok (effect c ks) k K"
  using assms
  by (cases c) (auto simp: kind_ok_def put_set_def put_zset_def split: option.splits rvalue.splits if_splits)

lemma schema_ok_effect [wf_intros]:
  assumes "schema_ok ks" "fits c"
  shows "schema_ok (effect c ks)"
  unfolding schema_ok_def
proof (intro allI impI)
  fix k K assume K: "app_kind k = Some K"
  obtain k' where k': "cmd_key c = Some k'" using assms(2) by (auto simp: fits_def split: option.splits)
  show "kind_ok (effect c ks) k K"
  proof (cases "k = k'")
    case True
    with assms K k' show ?thesis
      by (intro kind_ok_effect) (auto simp: fits_def schema_ok_def split: option.splits)
  next
    case False
    with effect_frame [OF k' False] K assms(1) show ?thesis by (simp add: kind_ok_def schema_ok_def)
  qed
qed

lemma fits_answered:
  assumes "schema_ok ks" "fits c" "\<And>k. c \<noteq> INCR k"
  shows "\<not> is_err (answer c ks)"
proof -
  obtain k where k: "cmd_key c = Some k" using assms(2) by (auto simp: fits_def split: option.splits)
  have "kind_ok ks k K" if "cmd_kind c = Some K" for K
    using assms(1,2) k that by (auto simp: fits_def schema_ok_def)
  with k assms(3) show ?thesis
    by (cases c) (auto simp: kind_ok_def split: option.splits rvalue.splits)
qed

context redis_server
begin

lemma schema_step: "exec c s = (r, s') \<Longrightarrow> fits c \<Longrightarrow> schema_ok (view s) \<Longrightarrow> schema_ok (view s')"
  by (metis view_cases schema_ok_effect)

lemma schema_pipe:
  "pipe_exec exec cs s = (e, s') \<Longrightarrow> list_all fits cs \<Longrightarrow> schema_ok (view s) \<Longrightarrow> schema_ok (view s')"
proof (induction cs arbitrary: s e)
  case (Cons c cs)
  obtain r s1 where c: "exec c s = (r, s1)" by fastforce
  obtain e2 where cs: "pipe_exec exec cs s1 = (e2, s')"
    using Cons.prems(1) c by (auto simp: Let_def split: option.splits prod.splits)
  from c Cons.prems(2,3) have "schema_ok (view s1)" by (auto intro: schema_step)
  with Cons.IH [OF cs] Cons.prems(2) show ?case by simp
qed simp

end

lemma answer_not_nil: "\<not> reads c \<Longrightarrow> cmd_key c \<noteq> None \<Longrightarrow> answer c ks \<noteq> RNil"
  by (cases c) (auto simp: wrongtype_def split: option.splits rvalue.splits)

lemma reply_not_nil: "\<not> reads c \<Longrightarrow> cmd_key c \<noteq> None \<Longrightarrow> reply_ok c ks r \<Longrightarrow> r \<noteq> RNil"
  by (cases c) (auto simp: wrongtype_def split: option.splits rvalue.splits)

context reliable_redis
begin

lemma write_answered:
  assumes "fits c" "schema_ok (view s)" "\<not> reads c" "\<And>k. c \<noteq> INCR k"
  obtains r s' where "exec c s = (r, s')" "err_result r = None" "view s' = effect c (view s)"
proof -
  obtain r s' where r: "exec c s = (r, s')" "\<not> is_err r" "reply_ok c (view s) r" "view s' = effect c (view s)"
    by (rule answers [OF fits_answered [OF assms(2,1,4)]])
  have "cmd_key c \<noteq> None" using assms(1) by (auto simp: fits_def split: option.splits)
  from reply_not_nil [OF assms(3) this r(3)] r(2) have "err_result r = None" by (cases r) auto
  with r that show thesis by blast
qed

lemma pipe_answered:
  "list_all (\<lambda>c. fits c \<and> \<not> reads c \<and> (\<forall>k. c \<noteq> INCR k)) cs \<Longrightarrow> schema_ok (view s) \<Longrightarrow>
   \<exists>s'. pipe_exec exec cs s = (None, s') \<and> view s' = fold effect cs (view s)"
proof (induction cs arbitrary: s)
  case (Cons c cs)
  then obtain r s1 where c: "exec c s = (r, s1)" "err_result r = None" "view s1 = effect c (view s)"
    using write_answered [of c s] by auto
  have "schema_ok (view s1)" using c(3) Cons.prems by (simp add: schema_ok_effect)
  with Cons.IH [of s1] Cons.prems c show ?case by auto
qed simp

end

section \<open>Contents\<close>

definition set_at :: "keyspace \<Rightarrow> string \<Rightarrow> string set" where
  "set_at ks k = (case ks k of Some (VSet S, _) \<Rightarrow> S | _ \<Rightarrow> {})"

definition zset_at :: "keyspace \<Rightarrow> string \<Rightarrow> string \<rightharpoonup> int" where
  "zset_at ks k = (case ks k of Some (VZSet z, _) \<Rightarrow> z | _ \<Rightarrow> Map.empty)"

definition hash_at :: "keyspace \<Rightarrow> string \<Rightarrow> string \<rightharpoonup> string" where
  "hash_at ks k = (case ks k of Some (VHash h, _) \<Rightarrow> h | _ \<Rightarrow> Map.empty)"

lemmas at_defs = set_at_def zset_at_def hash_at_def

lemma kind_ok_shape:
  "kind_ok ks k KSet \<Longrightarrow> ks k = None \<or> (\<exists>S t. ks k = Some (VSet S, t))"
  "kind_ok ks k KZSet \<Longrightarrow> ks k = None \<or> (\<exists>z t. ks k = Some (VZSet z, t))"
  "kind_ok ks k KHash \<Longrightarrow> ks k = None \<or> (\<exists>h t. ks k = Some (VHash h, t))"
  by (auto simp: kind_ok_def split: option.splits rvalue.splits elim: kind_of.elims)

lemma at_upd:
  "set_at (ks(k := w)) = (set_at ks)(k := case w of Some (VSet S, _) \<Rightarrow> S | _ \<Rightarrow> {})"
  "zset_at (ks(k := w)) = (zset_at ks)(k := case w of Some (VZSet z, _) \<Rightarrow> z | _ \<Rightarrow> Map.empty)"
  "hash_at (ks(k := w)) = (hash_at ks)(k := case w of Some (VHash h, _) \<Rightarrow> h | _ \<Rightarrow> Map.empty)"
  by (simp_all add: fun_eq_iff set_at_def zset_at_def hash_at_def)

lemma at_put:
  "set_at (put_set k S t ks) = (set_at ks)(k := S)" "zset_at (put_set k S t ks) = (zset_at ks)(k := Map.empty)"
  "hash_at (put_set k S t ks) = (hash_at ks)(k := Map.empty)" "set_at (put_zset k z t ks) = (set_at ks)(k := {})"
  "zset_at (put_zset k z t ks) = (zset_at ks)(k := z)" "hash_at (put_zset k z t ks) = (hash_at ks)(k := Map.empty)"
  by (simp_all add: put_set_def put_zset_def at_upd)

lemma at_key:
  "ks k = None \<Longrightarrow> set_at ks k = {}" "ks k = None \<Longrightarrow> zset_at ks k = Map.empty" "ks k = None \<Longrightarrow> hash_at ks k = Map.empty"
  "ks k = Some (v, t) \<Longrightarrow> set_at ks k = (case v of VSet S \<Rightarrow> S | _ \<Rightarrow> {})"
  "ks k = Some (v, t) \<Longrightarrow> zset_at ks k = (case v of VZSet z \<Rightarrow> z | _ \<Rightarrow> Map.empty)"
  "ks k = Some (v, t) \<Longrightarrow> hash_at ks k = (case v of VHash h \<Rightarrow> h | _ \<Rightarrow> Map.empty)"
  by (simp_all add: set_at_def zset_at_def hash_at_def)

lemma expire_keeps:
  "0 < d \<Longrightarrow> set_at (effect (EXPIRE k d) ks) = set_at ks" "0 < d \<Longrightarrow> zset_at (effect (EXPIRE k d) ks) = zset_at ks"
  "0 < d \<Longrightarrow> hash_at (effect (EXPIRE k d) ks) = hash_at ks"
  by (cases "ks k"; auto simp: at_upd at_key fun_upd_idem)+

lemma set_at_effect:
  "kind_ok ks k KSet \<Longrightarrow> set_at (effect (SADD k m) ks) = (set_at ks)(k := insert m (set_at ks k))"
  "kind_ok ks k KSet \<Longrightarrow> set_at (effect (SREM k m) ks) = (set_at ks)(k := set_at ks k - {m})"
  "0 < d \<Longrightarrow> set_at (effect (EXPIRE k d) ks) = set_at ks"
  "kind_ok ks k KZSet \<Longrightarrow> set_at (effect (ZADD k sc m) ks) = set_at ks"
  "kind_ok ks k KZSet \<Longrightarrow> set_at (effect (ZREM k m) ks) = set_at ks"
  "kind_ok ks k KHash \<Longrightarrow> set_at (effect (HSET k fvs) ks) = set_at ks"
  "kind_ok ks k KHash \<Longrightarrow> set_at (effect (DEL k) ks) = set_at ks"
  by ((drule kind_ok_shape, elim disjE exE; simp add: at_upd at_put at_key fun_upd_idem) | rule expire_keeps, assumption)+

lemma zset_at_effect:
  "kind_ok ks k KSet \<Longrightarrow> zset_at (effect (SADD k m) ks) = zset_at ks"
  "kind_ok ks k KSet \<Longrightarrow> zset_at (effect (SREM k m) ks) = zset_at ks"
  "0 < d \<Longrightarrow> zset_at (effect (EXPIRE k d) ks) = zset_at ks"
  "kind_ok ks k KZSet \<Longrightarrow> zset_at (effect (ZADD k sc m) ks) = (zset_at ks)(k := (zset_at ks k)(m \<mapsto> sc))"
  "kind_ok ks k KZSet \<Longrightarrow> zset_at (effect (ZREM k m) ks) = (zset_at ks)(k := (zset_at ks k)(m := None))"
  "kind_ok ks k KHash \<Longrightarrow> zset_at (effect (HSET k fvs) ks) = zset_at ks"
  "kind_ok ks k KHash \<Longrightarrow> zset_at (effect (DEL k) ks) = zset_at ks"
  by ((drule kind_ok_shape, elim disjE exE; simp add: at_upd at_put at_key fun_upd_idem) | rule expire_keeps, assumption)+

lemma hash_at_effect:
  "kind_ok ks k KSet \<Longrightarrow> hash_at (effect (SADD k m) ks) = hash_at ks"
  "kind_ok ks k KSet \<Longrightarrow> hash_at (effect (SREM k m) ks) = hash_at ks"
  "0 < d \<Longrightarrow> hash_at (effect (EXPIRE k d) ks) = hash_at ks"
  "kind_ok ks k KZSet \<Longrightarrow> hash_at (effect (ZADD k sc m) ks) = hash_at ks"
  "kind_ok ks k KZSet \<Longrightarrow> hash_at (effect (ZREM k m) ks) = hash_at ks"
  "kind_ok ks k KHash \<Longrightarrow>
     hash_at (effect (HSET k fvs) ks) = (hash_at ks)(k := foldl (\<lambda>h (f, v). h(f \<mapsto> v)) (hash_at ks k) fvs)"
  "kind_ok ks k KHash \<Longrightarrow> hash_at (effect (DEL k) ks) = (hash_at ks)(k := Map.empty)"
  by ((drule kind_ok_shape, elim disjE exE; simp add: at_upd at_put at_key fun_upd_idem) | rule expire_keeps, assumption)+

lemmas at_effect = set_at_effect zset_at_effect hash_at_effect

lemma read_replies:
  "kind_ok ks k KHash \<Longrightarrow> answer (HGETALL k) ks = RMap (hash_at ks k)"
  "kind_ok ks k KHash \<Longrightarrow> answer (HGET k f) ks = (case hash_at ks k f of None \<Rightarrow> RNil | Some v \<Rightarrow> RBulk v)"
  "kind_ok ks k KZSet \<Longrightarrow> answer (ZSCORE k m) ks = (case zset_at ks k m of None \<Rightarrow> RNil | Some sc \<Rightarrow> RInt sc)"
  "kind_ok ks k KZSet \<Longrightarrow> answer (ZRANGE k) ks = RList (zsorted (zset_at ks k))"
  by (auto simp: kind_ok_def at_defs zsorted_def split: option.splits rvalue.splits)

lemma smembers_reply:
  assumes "kind_ok ks k KSet" "reply_ok (SMEMBERS k) ks (RList xs)" "wf_keyspace ks"
  shows "set xs = set_at ks k"
  using assms
  by (auto simp: kind_ok_def set_at_def wf_keyspace_def split: option.splits rvalue.splits dest!: spec)
end
