(* ===== verification/Sha256.thy ===== *)
theory Sha256
  imports Prelude "HOL-Library.Word"
begin

text \<open>
  \<open>crypto/sha256.Sum256\<close>, as FIPS 180-4 defines it: the padding, the message schedule and the
  compression function on 32-bit words.  The matching queue names a set of interests by the first
  eight bytes of this hash.
\<close>

unbundle bit_operations_syntax

type_synonym w32 = "32 word"

definition rotr :: "nat \<Rightarrow> w32 \<Rightarrow> w32" where
  "rotr n x = (drop_bit n x) OR (push_bit (32 - n) x)"

definition Ch :: "w32 \<Rightarrow> w32 \<Rightarrow> w32 \<Rightarrow> w32" where
  "Ch x y z = (x AND y) XOR (NOT x AND z)"

definition Maj :: "w32 \<Rightarrow> w32 \<Rightarrow> w32 \<Rightarrow> w32" where
  "Maj x y z = (x AND y) XOR (x AND z) XOR (y AND z)"

definition Sigma0 :: "w32 \<Rightarrow> w32" where "Sigma0 x = rotr 2 x XOR rotr 13 x XOR rotr 22 x"
definition Sigma1 :: "w32 \<Rightarrow> w32" where "Sigma1 x = rotr 6 x XOR rotr 11 x XOR rotr 25 x"
definition sigma0 :: "w32 \<Rightarrow> w32" where "sigma0 x = rotr 7 x XOR rotr 18 x XOR drop_bit 3 x"
definition sigma1 :: "w32 \<Rightarrow> w32" where "sigma1 x = rotr 17 x XOR rotr 19 x XOR drop_bit 10 x"

text \<open>
  The constants: the first 32 bits of the fractional parts of the cube roots of the first 64 primes,
  and of the square roots of the first eight.
\<close>

definition K256 :: "w32 list" where
  "K256 =
     [1116352408, 1899447441, 3049323471, 3921009573, 961987163, 1508970993,
      2453635748, 2870763221, 3624381080, 310598401, 607225278, 1426881987,
      1925078388, 2162078206, 2614888103, 3248222580, 3835390401, 4022224774,
      264347078, 604807628, 770255983, 1249150122, 1555081692, 1996064986,
      2554220882, 2821834349, 2952996808, 3210313671, 3336571891, 3584528711,
      113926993, 338241895, 666307205, 773529912, 1294757372, 1396182291,
      1695183700, 1986661051, 2177026350, 2456956037, 2730485921, 2820302411,
      3259730800, 3345764771, 3516065817, 3600352804, 4094571909, 275423344,
      430227734, 506948616, 659060556, 883997877, 958139571, 1322822218,
      1537002063, 1747873779, 1955562222, 2024104815, 2227730452, 2361852424,
      2428436474, 2756734187, 3204031479, 3329325298]"

definition H256 :: "w32 list" where
  "H256 =
     [1779033703, 3144134277, 1013904242, 2773480762, 1359893119, 2600822924, 528734635, 1541459225]"

text \<open>Padding: a one bit, zeros, and the length in bits as a 64-bit big-endian number.\<close>

definition pad256 :: "nat list \<Rightarrow> nat list" where
  "pad256 bs =
     (let n = length bs; z = (119 - n mod 64) mod 64
      in bs @ 128 # replicate z 0 @ map (\<lambda>i. 8 * n div 256 ^ i mod 256) [7, 6, 5, 4, 3, 2, 1, 0])"

definition word_of_bytes :: "nat list \<Rightarrow> w32" where
  "word_of_bytes bs = of_nat (foldl (\<lambda>a b. 256 * a + b) 0 bs)"

fun chunks :: "nat \<Rightarrow> 'a list \<Rightarrow> 'a list list" where
  "chunks n xs = (if n = 0 \<or> xs = [] then [] else take n xs # chunks n (drop n xs))"

declare chunks.simps [simp del]

text \<open>The message schedule, latest word first.\<close>

fun schedule :: "nat \<Rightarrow> w32 list \<Rightarrow> w32 list" where
  "schedule 0 ws = ws"
| "schedule (Suc n) ws = schedule n ((sigma1 (ws ! 1) + ws ! 6 + sigma0 (ws ! 14) + ws ! 15) # ws)"

fun round256 :: "w32 list \<Rightarrow> w32 \<times> w32 \<Rightarrow> w32 list" where
  "round256 [a, b, c, d, e, f, g, h] (k, w) =
     (let t1 = h + Sigma1 e + Ch e f g + k + w; t2 = Sigma0 a + Maj a b c
      in [t1 + t2, a, b, c, d + t1, e, f, g])"
| "round256 st kw = st"

definition block256 :: "w32 list \<Rightarrow> nat list \<Rightarrow> w32 list" where
  "block256 st bs =
     (let ws = rev (schedule 48 (rev (map word_of_bytes (chunks 4 bs))))
      in map2 (+) st (foldl round256 st (zip K256 ws)))"

definition word_bytes :: "w32 \<Rightarrow> nat list" where
  "word_bytes w = (let n = unat w in [n div 16777216, n div 65536 mod 256, n div 256 mod 256, n mod 256])"

definition Sum256 :: "string \<Rightarrow> nat list" where
  "Sum256 s = concat (map word_bytes (foldl block256 H256 (chunks 64 (pad256 (map of_char s)))))"

text \<open>The hash has 32 bytes, for every input.\<close>

lemma length_round256: "length st = 8 \<Longrightarrow> length (round256 st kw) = 8"
  by (cases "(st, kw)" rule: round256.cases) (auto simp: Let_def)

lemma length_rounds: "length st = 8 \<Longrightarrow> length (foldl round256 st kws) = 8"
  by (induction kws arbitrary: st) (simp_all add: length_round256)

lemma length_blocks: "length st = 8 \<Longrightarrow> length (foldl block256 st bss) = 8"
  by (induction bss arbitrary: st) (simp_all add: block256_def length_rounds Let_def)

lemma length_concat_word_bytes: "length (concat (map word_bytes ws)) = 4 * length ws"
  by (induction ws) (simp_all add: word_bytes_def Let_def)

lemma length_Sum256: "length (Sum256 s) = 32"
  by (simp add: Sum256_def length_concat_word_bytes length_blocks H256_def)

lemma Sum256_bytes: "b \<in> set (Sum256 s) \<Longrightarrow> b < 256"
proof -
  have "b < 256" if "b \<in> set (word_bytes w)" for w
  proof -
    have "unat w < 2 ^ LENGTH(32)" by (rule unsigned_less)
    then have "unat w < 16777216 * 256" by simp
    then show ?thesis using that by (auto simp: word_bytes_def Let_def div_less_iff_less_mult)
  qed
  then show "b \<in> set (Sum256 s) \<Longrightarrow> b < 256" by (auto simp: Sum256_def)
qed

end
