(* ===== verification/MatchQueue.thy ===== *)
theory MatchQueue
  imports Schema Sha256 "HOL-Library.Multiset"
begin

text \<open>
  \<open>internal/matching/queue.go\<close>: the queue of users waiting for a partner.  A waiting user is a
  member of the sorted set \<open>match:queue\<close> (score: the time of joining, in milliseconds), of the set of all
  users with the same interests, of one set per interest, and has a hash with the interests; all
  but the first expire after a minute.
\<close>

section \<open>The queue\<close>

definition keyMatchQueue :: string where "keyMatchQueue = ''match:queue''"
definition keyExactPrefix :: string where "keyExactPrefix = ''match:exact:''"
definition keyInterestPrefix :: string where "keyInterestPrefix = ''match:interest:''"
definition keySessionPrefix :: string where "keySessionPrefix = ''match:session:''"
definition matchKeyTTL :: Duration where "matchKeyTTL = 60 * Second"

lemmas key_defs = keyMatchQueue_def keyExactPrefix_def keyInterestPrefix_def keySessionPrefix_def

record QueueEntry =
  SessionID :: string
  Interests :: "string list"
  Hash :: string
  JoinedAt :: int

text \<open>\<open>fmt.Sprintf("%x", h[:8])\<close>\<close>

definition hex_char :: "nat \<Rightarrow> char" where
  "hex_char d = char_of (if d < 10 then 48 + d else 87 + d)"

definition hex_bytes :: "nat list \<Rightarrow> string" where
  "hex_bytes bs = concat (map (\<lambda>b. [hex_char (b div 16), hex_char (b mod 16)]) bs)"

definition InterestsHash :: "string list \<Rightarrow> string" where
  "InterestsHash interests =
     (let sorted0 = sort interests;
          joined = join '','' sorted0;
          h = Sum256 joined
      in hex_bytes (take 8 h))"

definition enqueue_cmds :: "int \<Rightarrow> string \<Rightarrow> string list \<Rightarrow> rcmd list" where
  "enqueue_cmds now sessionID interests =
     (let hash = InterestsHash interests;
          exactKey = keyExactPrefix @ hash;
          sessionKey = keySessionPrefix @ sessionID
      in [ZADD keyMatchQueue now sessionID,
          SADD exactKey sessionID,
          EXPIRE exactKey matchKeyTTL] @
         concat (map (\<lambda>tag.
           let interestKey = keyInterestPrefix @ tag
           in [SADD interestKey sessionID, EXPIRE interestKey matchKeyTTL]) interests) @
         [HSET sessionKey
            [(''interests'', join '','' interests),
             (''hash'', hash),
             (''joined_at'', show_int now)],
          EXPIRE sessionKey matchKeyTTL])"

definition Enqueue :: "'r redis \<Rightarrow> int \<Rightarrow> string \<Rightarrow> string list \<Rightarrow> 'r \<Rightarrow> error option \<times> 'r" where
  "Enqueue R now sessionID interests s = pipe_exec R (enqueue_cmds now sessionID interests) s"

text \<open>
  The time of joining is written as a decimal integer and read back by \<open>fmt.Sscanf\<close>, which leaves zero
  when there is no number.
\<close>

definition GetEntry :: "'r redis \<Rightarrow> string \<Rightarrow> 'r \<Rightarrow> QueueEntry option result \<times> 'r" where
  "GetEntry R sessionID s =
     (let sessionKey = keySessionPrefix @ sessionID;
          (r, s1) = R (HGETALL sessionKey) s
      in case map_result r of
           Inl e \<Rightarrow> (Inl e, s1)
         | Inr result \<Rightarrow>
             if result = Map.empty then (Inr None, s1)
             else
               (let interests = (if field result ''interests'' \<noteq> [] then split_on (CHR '','') (field result ''interests'') else []);
                    joinedAt = (case result ''joined_at'' of
                       Some v \<Rightarrow> (case parse_int v of Some n \<Rightarrow> n | None \<Rightarrow> 0)
                     | None \<Rightarrow> 0)
                in (Inr (Some \<lparr>SessionID = sessionID, Interests = interests, Hash = field result ''hash'',
                               JoinedAt = joinedAt\<rparr>), s1)))"

definition dequeue_cmds :: "string \<Rightarrow> QueueEntry \<Rightarrow> rcmd list" where
  "dequeue_cmds sessionID entry =
     [ZREM keyMatchQueue sessionID,
      SREM (keyExactPrefix @ Hash entry) sessionID] @
     map (\<lambda>tag. SREM (keyInterestPrefix @ tag) sessionID) (Interests entry) @
     [DEL (keySessionPrefix @ sessionID)]"

definition Dequeue :: "'r redis \<Rightarrow> string \<Rightarrow> 'r \<Rightarrow> error option \<times> 'r" where
  "Dequeue R sessionID s =
     (case GetEntry R sessionID s of
        (Inl err, s1) \<Rightarrow> (Some err, s1)
      | (Inr None, s1) \<Rightarrow> (None, s1)
      | (Inr (Some entry), s1) \<Rightarrow> pipe_exec R (dequeue_cmds sessionID entry) s1)"

definition GetAllQueued :: "'r redis \<Rightarrow> 'r \<Rightarrow> string list result \<times> 'r" where
  "GetAllQueued R s = (let (r, s1) = R (ZRANGE keyMatchQueue) s in (list_result r, s1))"

definition IsQueued :: "'r redis \<Rightarrow> string \<Rightarrow> 'r \<Rightarrow> bool result \<times> 'r" where
  "IsQueued R sessionID s =
     (let (r, s1) = R (ZSCORE keyMatchQueue sessionID) s
      in case int_result r of
           Inl err \<Rightarrow> if err = ErrNil then (Inr False, s1) else (Inl err, s1)
         | Inr _ \<Rightarrow> (Inr True, s1))"

definition GetExactCandidates :: "'r redis \<Rightarrow> string \<Rightarrow> 'r \<Rightarrow> string list result \<times> 'r" where
  "GetExactCandidates R hash s = (let (r, s1) = R (SMEMBERS (keyExactPrefix @ hash)) s in (list_result r, s1))"

definition GetInterestCandidates :: "'r redis \<Rightarrow> string \<Rightarrow> 'r \<Rightarrow> string list result \<times> 'r" where
  "GetInterestCandidates R tag s = (let (r, s1) = R (SMEMBERS (keyInterestPrefix @ tag)) s in (list_result r, s1))"

definition QueueSize :: "'r redis \<Rightarrow> 'r \<Rightarrow> int result \<times> 'r" where
  "QueueSize R s = (let (r, s1) = R (ZCARD keyMatchQueue) s in (int_result r, s1))"

definition RefreshTTLs :: "'r redis \<Rightarrow> string \<Rightarrow> 'r \<Rightarrow> error option \<times> 'r" where
  "RefreshTTLs R sessionID s =
     (case GetEntry R sessionID s of
        (Inl err, s1) \<Rightarrow> (Some err, s1)
      | (Inr None, s1) \<Rightarrow> (None, s1)
      | (Inr (Some entry), s1) \<Rightarrow>
          pipe_exec R
            ([EXPIRE (keyExactPrefix @ Hash entry) matchKeyTTL] @
             map (\<lambda>tag. EXPIRE (keyInterestPrefix @ tag) matchKeyTTL) (Interests entry) @
             [EXPIRE (keySessionPrefix @ sessionID) matchKeyTTL]) s1)"

section \<open>The hash of a set of interests\<close>

text \<open>
  The hash does not depend on the order in which the interests are given, and is always a
  string of 16 hexadecimal digits.
\<close>

lemma InterestsHash_order:
  "(mset xs = mset ys \<longrightarrow> InterestsHash xs = InterestsHash ys) \<and>
   length (InterestsHash xs) = 16 \<and> set (InterestsHash xs) \<subseteq> set ''0123456789abcdef''"
proof (intro conjI impI)
  assume "mset xs = mset ys"
  then have "sort xs = sort ys" by (metis mset_sort properties_for_sort sorted_sort)
  then show "InterestsHash xs = InterestsHash ys" by (simp add: InterestsHash_def)
next
  let ?h = "take 8 (Sum256 (join '','' (sort xs)))"
  have len: "length (hex_bytes bs) = 2 * length bs" for bs by (induction bs) (simp_all add: hex_bytes_def)
  show "length (InterestsHash xs) = 16" by (simp add: InterestsHash_def Let_def len length_Sum256)
  have "\<forall>d \<in> set [0..<16]. hex_char d \<in> set ''0123456789abcdef''"
    by code_simp
  then have "hex_char d \<in> set ''0123456789abcdef''" if "d < 16" for d
    using that by (simp del: list.set(2))
  moreover have "b div 16 < 16 \<and> b mod 16 < 16" if "b \<in> set ?h" for b
    using Sum256_bytes [of b] in_set_takeD [OF that] by (auto simp: div_less_iff_less_mult)
  ultimately show "set (InterestsHash xs) \<subseteq> set ''0123456789abcdef''"
    unfolding InterestsHash_def Let_def hex_bytes_def
    by (auto simp del: list.set(2) simp: list.set(2) [of "hex_char _"])
qed

section \<open>The queue and its indexes\<close>

lemma match_kinds [simp]:
  "app_kind keyMatchQueue = Some KZSet"
  "app_kind (keyExactPrefix @ h) = Some KSet"
  "app_kind (keyInterestPrefix @ t) = Some KSet"
  "app_kind (keySessionPrefix @ sid) = Some KHash"
  by (simp_all add: app_kind_def key_defs)

lemma match_keys [simp]:
  "keyExactPrefix @ h \<noteq> keyInterestPrefix @ t" "keyInterestPrefix @ t \<noteq> keyExactPrefix @ h"
  by (simp_all add: key_defs)

lemma matchKeyTTL_pos [simp]: "0 < matchKeyTTL"
  by (simp add: matchKeyTTL_def)

lemma fits_cmds:
  "list_all (\<lambda>c. fits c \<and> \<not> reads c \<and> (\<forall>k. c \<noteq> INCR k)) (enqueue_cmds now sid tags)"
  "list_all (\<lambda>c. fits c \<and> \<not> reads c \<and> (\<forall>k. c \<noteq> INCR k)) (dequeue_cmds sid e)"
  by (auto simp: enqueue_cmds_def dequeue_cmds_def fits_def list_all_iff Let_def)

text \<open>What a hash of the queue says about a user, and the users who are waiting.\<close>

definition entry_of :: "string \<Rightarrow> (string \<rightharpoonup> string) \<Rightarrow> QueueEntry option" where
  "entry_of sid h =
     (if h = Map.empty then None
      else Some \<lparr>SessionID = sid,
        Interests = (if field h ''interests'' \<noteq> [] then split_on (CHR '','') (field h ''interests'') else []),
        Hash = field h ''hash'',
        JoinedAt = (case h ''joined_at'' of Some v \<Rightarrow> (case parse_int v of Some n \<Rightarrow> n | None \<Rightarrow> 0) | None \<Rightarrow> 0)\<rparr>)"

definition waiting :: "keyspace \<Rightarrow> string \<Rightarrow> QueueEntry option" where
  "waiting ks sid = entry_of sid (hash_at ks (keySessionPrefix @ sid))"

abbreviation queued :: "keyspace \<Rightarrow> string \<Rightarrow> bool" where
  "queued ks sid \<equiv> zset_at ks keyMatchQueue sid \<noteq> None"

text \<open>The sorted set and the index sets agree with the entries.\<close>

definition coherent :: "keyspace \<Rightarrow> bool" where
  "coherent ks \<longleftrightarrow> schema_ok ks \<and>
     (\<forall>sid. zset_at ks keyMatchQueue sid = map_option JoinedAt (waiting ks sid)) \<and>
     (\<forall>h sid. sid \<in> set_at ks (keyExactPrefix @ h) \<longleftrightarrow> (\<exists>e. waiting ks sid = Some e \<and> Hash e = h)) \<and>
     (\<forall>t sid. sid \<in> set_at ks (keyInterestPrefix @ t) \<longleftrightarrow> (\<exists>e. waiting ks sid = Some e \<and> t \<in> set (Interests e)))"

definition interests_ok :: "string list \<Rightarrow> bool" where
  "interests_ok tags \<longleftrightarrow> tags \<noteq> [[]] \<and> (\<forall>t \<in> set tags. CHR '','' \<notin> set t)"

definition new_entry :: "int \<Rightarrow> string \<Rightarrow> string list \<Rightarrow> QueueEntry" where
  "new_entry now sid tags = \<lparr>SessionID = sid, Interests = tags, Hash = InterestsHash tags, JoinedAt = now\<rparr>"

context redis_server
begin

lemma GetEntry_waiting:
  assumes "schema_ok (view s)" "GetEntry exec sid s = (x, s')"
  shows "view s' = view s" "x = Inr y \<Longrightarrow> y = waiting (view s) sid"
proof -
  let ?k = "keySessionPrefix @ sid"
  obtain r where r: "exec (HGETALL ?k) s = (r, s')"
    using assms(2) by (auto simp: GetEntry_def Let_def split: prod.splits sum.splits if_splits)
  show "view s' = view s" using read_only [OF _ r] by simp
  assume x: "x = Inr y"
  with assms(2) r obtain m where m: "r = RMap m"
    by (auto simp: GetEntry_def Let_def split: sum.splits if_splits)
  have "kind_ok (view s) ?k KHash" using assms(1) by (simp add: schema_okD)
  from answered(1) [OF r] m read_replies(1) [OF this] have "m = hash_at (view s) ?k" by simp
  with assms(2) r m x show "y = waiting (view s) sid"
    by (auto simp: GetEntry_def waiting_def entry_of_def Let_def split: if_splits)
qed

lemma IsQueued_queued:
  assumes "schema_ok (view s)" "IsQueued exec sid s = (x, s')"
  shows "view s' = view s" "x = Inr b \<Longrightarrow> b = queued (view s) sid"
proof -
  obtain r where r: "exec (ZSCORE keyMatchQueue sid) s = (r, s')"
    using assms(2) by (auto simp: IsQueued_def Let_def split: prod.splits sum.splits if_splits)
  show "view s' = view s" using read_only [OF _ r] by simp
  assume x: "x = Inr b"
  then have ne: "\<not> is_err r" using assms(2) r by (cases r) (auto simp: IsQueued_def unexpected_def)
  have "kind_ok (view s) keyMatchQueue KZSet" using assms(1) by (simp add: schema_okD)
  from answered(1) [OF r ne] read_replies(3) [OF this] assms(2) r x show "b = queued (view s) sid"
    by (auto simp: IsQueued_def split: option.splits)
qed

end

text \<open>The effect of the pipelines.\<close>

lemma tags_effect:
  "schema_ok ks \<Longrightarrow> ks' = fold effect (concat (map (\<lambda>t. [SADD (keyInterestPrefix @ t) sid, EXPIRE (keyInterestPrefix @ t) matchKeyTTL]) tags)) ks \<Longrightarrow>
   schema_ok ks' \<and> zset_at ks' = zset_at ks \<and> hash_at ks' = hash_at ks \<and>
   (\<forall>k. set_at ks' k = (if k \<in> (@) keyInterestPrefix ` set tags then insert sid (set_at ks k) else set_at ks k))"
proof (induction tags arbitrary: ks)
  case (Cons t tags)
  let ?k = "keyInterestPrefix @ t"
  define ks1 where "ks1 = effect (EXPIRE ?k matchKeyTTL) (effect (SADD ?k sid) ks)"
  have 1: "kind_ok ks ?k KSet" using Cons.prems(1) by (simp add: schema_okD)
  have "schema_ok ks1" unfolding ks1_def using Cons.prems(1)
    by (intro schema_ok_effect) (simp_all add: fits_def)
  moreover have "ks' = fold effect (concat (map (\<lambda>t. [SADD (keyInterestPrefix @ t) sid, EXPIRE (keyInterestPrefix @ t) matchKeyTTL]) tags)) ks1"
    using Cons.prems(2) by (simp add: ks1_def del: effect.simps)
  ultimately have IH: "schema_ok ks' \<and> zset_at ks' = zset_at ks1 \<and> hash_at ks' = hash_at ks1 \<and>
     (\<forall>k. set_at ks' k = (if k \<in> (@) keyInterestPrefix ` set tags then insert sid (set_at ks1 k) else set_at ks1 k))"
    by (rule Cons.IH)
  have "zset_at ks1 = zset_at ks" "hash_at ks1 = hash_at ks" "set_at ks1 = (set_at ks)(?k := insert sid (set_at ks ?k))"
    by (simp_all add: ks1_def at_effect 1 del: effect.simps)
  with IH show ?case by auto
qed simp

lemma enqueue_effect:
  assumes "schema_ok ks" "ks' = fold effect (enqueue_cmds now sid tags) ks"
  defines "H \<equiv> InterestsHash tags"
  shows "schema_ok ks'"
    and "zset_at ks' = (zset_at ks)(keyMatchQueue := (zset_at ks keyMatchQueue)(sid \<mapsto> now))"
    and "hash_at ks' = (hash_at ks)(keySessionPrefix @ sid := (hash_at ks (keySessionPrefix @ sid))
           (''interests'' \<mapsto> join '','' tags, ''hash'' \<mapsto> H, ''joined_at'' \<mapsto> show_int now))"
    and "set_at ks' k = (if k = keyExactPrefix @ H \<or> k \<in> (@) keyInterestPrefix ` set tags
           then insert sid (set_at ks k) else set_at ks k)"
proof -
  let ?e = "keyExactPrefix @ H" and ?k = "keySessionPrefix @ sid"
  define ks1 where "ks1 = effect (ZADD keyMatchQueue now sid) ks"
  define ks2 where "ks2 = effect (SADD ?e sid) ks1"
  define ks3 where "ks3 = effect (EXPIRE ?e matchKeyTTL) ks2"
  define ks4 where "ks4 = fold effect (concat (map (\<lambda>t. [SADD (keyInterestPrefix @ t) sid,
    EXPIRE (keyInterestPrefix @ t) matchKeyTTL]) tags)) ks3"
  define ks5 where "ks5 = effect (HSET ?k [(''interests'', join '','' tags), (''hash'', H), (''joined_at'', show_int now)]) ks4"
  note d = ks1_def ks2_def ks3_def
  have s3: "schema_ok ks1" "schema_ok ks2" "schema_ok ks3"
    unfolding d using assms(1) by (auto intro!: schema_ok_effect simp: fits_def simp del: effect.simps)
  note t = tags_effect [OF s3(3) ks4_def]
  have ks': "ks' = effect (EXPIRE ?k matchKeyTTL) ks5"
    using assms(2) by (simp add: enqueue_cmds_def ks1_def ks2_def ks3_def ks4_def ks5_def H_def Let_def del: effect.simps)
  have k: "kind_ok ks keyMatchQueue KZSet" "kind_ok ks1 ?e KSet" "kind_ok ks4 ?k KHash"
    using assms(1) s3(1) t by (simp_all add: schema_okD)
  show "schema_ok ks'" unfolding ks' ks5_def using t
    by (auto intro!: schema_ok_effect simp: fits_def simp del: effect.simps)
  show "zset_at ks' = (zset_at ks)(keyMatchQueue := (zset_at ks keyMatchQueue)(sid \<mapsto> now))"
    using t by (simp add: ks' ks5_def d at_effect k [unfolded d] del: effect.simps)
  show "hash_at ks' = (hash_at ks)(?k := (hash_at ks ?k)
      (''interests'' \<mapsto> join '','' tags, ''hash'' \<mapsto> H, ''joined_at'' \<mapsto> show_int now))"
    using t by (simp add: ks' ks5_def d at_effect k [unfolded d] del: effect.simps)
  show "set_at ks' k = (if k = ?e \<or> k \<in> (@) keyInterestPrefix ` set tags then insert sid (set_at ks k) else set_at ks k)"
    using t by (auto simp add: ks' ks5_def d at_effect k [unfolded d] simp del: effect.simps)
qed

lemma srem_tags_effect:
  "schema_ok ks \<Longrightarrow> ks' = fold effect (map (\<lambda>t. SREM (keyInterestPrefix @ t) sid) tags) ks \<Longrightarrow>
   schema_ok ks' \<and> zset_at ks' = zset_at ks \<and> hash_at ks' = hash_at ks \<and>
   (\<forall>k. set_at ks' k = (if k \<in> (@) keyInterestPrefix ` set tags then set_at ks k - {sid} else set_at ks k))"
proof (induction tags arbitrary: ks)
  case (Cons t tags)
  let ?k = "keyInterestPrefix @ t"
  define ks1 where "ks1 = effect (SREM ?k sid) ks"
  have 1: "kind_ok ks ?k KSet" using Cons.prems(1) by (simp add: schema_okD)
  have "schema_ok ks1" unfolding ks1_def using Cons.prems(1)
    by (intro schema_ok_effect) (simp_all add: fits_def)
  moreover have "ks' = fold effect (map (\<lambda>t. SREM (keyInterestPrefix @ t) sid) tags) ks1"
    using Cons.prems(2) by (simp add: ks1_def del: effect.simps)
  ultimately have IH: "schema_ok ks' \<and> zset_at ks' = zset_at ks1 \<and> hash_at ks' = hash_at ks1 \<and>
     (\<forall>k. set_at ks' k = (if k \<in> (@) keyInterestPrefix ` set tags then set_at ks1 k - {sid} else set_at ks1 k))"
    by (rule Cons.IH)
  have "zset_at ks1 = zset_at ks" "hash_at ks1 = hash_at ks" "set_at ks1 = (set_at ks)(?k := set_at ks ?k - {sid})"
    by (simp_all add: ks1_def at_effect 1 del: effect.simps)
  with IH show ?case by auto
qed simp

lemma dequeue_effect:
  assumes "schema_ok ks" "ks' = fold effect (dequeue_cmds sid e) ks"
  shows "schema_ok ks'"
    and "zset_at ks' = (zset_at ks)(keyMatchQueue := (zset_at ks keyMatchQueue)(sid := None))"
    and "hash_at ks' = (hash_at ks)(keySessionPrefix @ sid := Map.empty)"
    and "set_at ks' k = (if k = keyExactPrefix @ Hash e \<or> k \<in> (@) keyInterestPrefix ` set (Interests e)
           then set_at ks k - {sid} else set_at ks k)"
proof -
  let ?e = "keyExactPrefix @ Hash e" and ?k = "keySessionPrefix @ sid"
  define ks1 where "ks1 = effect (ZREM keyMatchQueue sid) ks"
  define ks2 where "ks2 = effect (SREM ?e sid) ks1"
  define ks3 where "ks3 = fold effect (map (\<lambda>t. SREM (keyInterestPrefix @ t) sid) (Interests e)) ks2"
  note d = ks1_def ks2_def
  have s2: "schema_ok ks1" "schema_ok ks2"
    unfolding d using assms(1) by (auto intro!: schema_ok_effect simp: fits_def simp del: effect.simps)
  note t = srem_tags_effect [OF s2(2) ks3_def]
  have ks': "ks' = effect (DEL ?k) ks3"
    using assms(2) by (simp add: dequeue_cmds_def ks1_def ks2_def ks3_def del: effect.simps)
  have k: "kind_ok ks keyMatchQueue KZSet" "kind_ok ks1 ?e KSet" "kind_ok ks3 ?k KHash"
    using assms(1) s2(1) t by (simp_all add: schema_okD)
  show "schema_ok ks'" unfolding ks' using t by (auto intro!: schema_ok_effect simp: fits_def simp del: effect.simps)
  show "zset_at ks' = (zset_at ks)(keyMatchQueue := (zset_at ks keyMatchQueue)(sid := None))"
    using t by (simp add: ks' d at_effect k [unfolded d] del: effect.simps)
  show "hash_at ks' = (hash_at ks)(?k := Map.empty)"
    using t by (simp add: ks' d at_effect k [unfolded d] del: effect.simps)
  show "set_at ks' k = (if k = ?e \<or> k \<in> (@) keyInterestPrefix ` set (Interests e) then set_at ks k - {sid} else set_at ks k)"
    using t by (auto simp add: ks' d at_effect k [unfolded d] simp del: effect.simps)
qed

text \<open>The entry written for a user is the one read back.\<close>

lemma split_interests:
  assumes "interests_ok tags"
  shows "(if join '','' tags \<noteq> [] then split_on (CHR '','') (join '','' tags) else []) = tags"
proof (cases "tags = []")
  case False
  then have "join '','' tags \<noteq> []" using join_eq_Nil [of "'',''" tags] assms by (auto simp: interests_ok_def)
  with False assms split_join [of tags "CHR '',''"] show ?thesis by (simp add: interests_ok_def)
qed simp

lemma entry_written:
  assumes "interests_ok tags"
  shows "entry_of sid (h(''interests'' \<mapsto> join '','' tags, ''hash'' \<mapsto> InterestsHash tags, ''joined_at'' \<mapsto> show_int now)) =
    Some (new_entry now sid tags)"
proof -
  have "h(''interests'' \<mapsto> x, ''hash'' \<mapsto> y, ''joined_at'' \<mapsto> z) \<noteq> Map.empty" for x y z
    by (metis fun_upd_same option.distinct(1))
  with split_interests [OF assms] show ?thesis by (simp add: entry_of_def new_entry_def field_def split: if_splits)
qed

lemma enqueue_waiting:
  assumes "interests_ok tags" "hash_at ks' = (hash_at ks)(keySessionPrefix @ sid := (hash_at ks (keySessionPrefix @ sid))
           (''interests'' \<mapsto> join '','' tags, ''hash'' \<mapsto> InterestsHash tags, ''joined_at'' \<mapsto> show_int now))"
  shows "waiting ks' = (waiting ks)(sid \<mapsto> new_entry now sid tags)"
  by (rule ext) (simp add: waiting_def assms(2) entry_written [OF assms(1)])

lemma dequeue_waiting:
  "hash_at ks' = (hash_at ks)(keySessionPrefix @ sid := Map.empty) \<Longrightarrow> waiting ks' = (waiting ks)(sid := None)"
  by (rule ext) (simp add: waiting_def entry_of_def [of sid])

lemma enqueue_coherent:
  assumes "coherent ks" "waiting ks sid = None" "interests_ok tags" "ks' = fold effect (enqueue_cmds now sid tags) ks"
  shows "coherent ks' \<and> waiting ks' = (waiting ks)(sid \<mapsto> new_entry now sid tags)"
proof -
  have s: "schema_ok ks" using assms(1) by (simp add: coherent_def)
  note E = enqueue_effect [OF s assms(4)]
  note w = enqueue_waiting [OF assms(3) E(3)]
  have "coherent ks'"
    unfolding coherent_def
  proof (intro conjI allI)
    show "zset_at ks' keyMatchQueue sid' = map_option JoinedAt (waiting ks' sid')" for sid'
      using assms(1) by (simp add: E(2) w new_entry_def coherent_def)
    show "sid' \<in> set_at ks' (keyExactPrefix @ h) \<longleftrightarrow> (\<exists>e. waiting ks' sid' = Some e \<and> Hash e = h)" for h sid'
      using assms(1,2) by (auto simp: E(4) w new_entry_def coherent_def)
    show "sid' \<in> set_at ks' (keyInterestPrefix @ t) \<longleftrightarrow> (\<exists>e. waiting ks' sid' = Some e \<and> t \<in> set (Interests e))" for t sid'
      using assms(1,2) by (auto simp: E(4) w new_entry_def coherent_def)
  qed (rule E(1))
  with w show ?thesis by simp
qed

lemma dequeue_coherent:
  assumes "coherent ks" "waiting ks sid = Some e" "ks' = fold effect (dequeue_cmds sid e) ks"
  shows "coherent ks' \<and> waiting ks' = (waiting ks)(sid := None)"
proof -
  have s: "schema_ok ks" using assms(1) by (simp add: coherent_def)
  note D = dequeue_effect [OF s assms(3)]
  note w = dequeue_waiting [OF D(3)]
  have "coherent ks'"
    unfolding coherent_def
  proof (intro conjI allI)
    show "zset_at ks' keyMatchQueue sid' = map_option JoinedAt (waiting ks' sid')" for sid'
      using assms(1) by (simp add: D(2) w coherent_def)
    show "sid' \<in> set_at ks' (keyExactPrefix @ h) \<longleftrightarrow> (\<exists>e. waiting ks' sid' = Some e \<and> Hash e = h)" for h sid'
      using assms(1,2) by (auto simp: D(4) w coherent_def)
    show "sid' \<in> set_at ks' (keyInterestPrefix @ t) \<longleftrightarrow> (\<exists>e. waiting ks' sid' = Some e \<and> t \<in> set (Interests e))" for t sid'
      using assms(1,2) by (auto simp: D(4) w coherent_def)
  qed (rule D(1))
  with w show ?thesis by simp
qed

context redis_server
begin

lemma Dequeue_view:
  assumes "schema_ok (view s)" "Dequeue exec sid s = (None, s')"
  shows "view s' = (case waiting (view s) sid of None \<Rightarrow> view s | Some e \<Rightarrow> fold effect (dequeue_cmds sid e) (view s))"
proof -
  obtain x s1 where x: "GetEntry exec sid s = (x, s1)" by fastforce
  note g = GetEntry_waiting [OF assms(1) x]
  show ?thesis
  proof (cases "waiting (view s) sid")
    case None
    with assms(2) x g show ?thesis by (auto simp: Dequeue_def split: sum.splits option.splits)
  next
    case (Some e)
    with assms(2) x g(2) have "pipe_exec exec (dequeue_cmds sid e) s1 = (None, s')"
      by (auto simp: Dequeue_def split: sum.splits option.splits)
    from pipe_ok [OF this] g(1) Some show ?thesis by simp
  qed
qed

lemma Dequeue_schema:
  assumes "schema_ok (view s)" "Dequeue exec sid s = (e, s')"
  shows "schema_ok (view s')"
proof -
  obtain x s1 where x: "GetEntry exec sid s = (x, s1)" by fastforce
  have s1: "schema_ok (view s1)" using GetEntry_waiting(1) [OF assms(1) x] assms(1) by simp
  show ?thesis
  proof (cases "\<exists>en. x = Inr (Some en)")
    case True
    then obtain en where "pipe_exec exec (dequeue_cmds sid en) s1 = (e, s')"
      using assms(2) x by (auto simp: Dequeue_def)
    from schema_pipe [OF this _ s1] fits_cmds(2) [of sid en] show ?thesis by (simp add: list_all_iff)
  next
    case False
    with assms(2) x s1 show ?thesis by (auto simp: Dequeue_def split: sum.splits option.splits)
  qed
qed

end

text \<open>
  C25.  The queue is a map from waiting users to their entries: from a state in which the sorted set and
  all index sets agree, adding a user who is not waiting, with interests that contain no comma and are not just one empty string, adds exactly
  the entry for that user, removing a user removes exactly that user's, and both leave the sorted
  set and all index sets in agreement.
\<close>

theorem queue_refines:
  assumes "redis_server R view" and "coherent (view s)"
  shows "(waiting (view s) sid = None \<longrightarrow> interests_ok tags \<longrightarrow> Enqueue R now sid tags s = (None, s') \<longrightarrow>
       coherent (view s') \<and> waiting (view s') = (waiting (view s))(sid \<mapsto> new_entry now sid tags)) \<and>
    (Dequeue R sid s = (None, s') \<longrightarrow>
       coherent (view s') \<and> waiting (view s') = (waiting (view s))(sid := None))"
proof (intro conjI impI)
  assume "waiting (view s) sid = None" "interests_ok tags" "Enqueue R now sid tags s = (None, s')"
  with enqueue_coherent [OF assms(2)] redis_server.pipe_ok [OF assms(1)]
  show "coherent (view s')" "waiting (view s') = (waiting (view s))(sid \<mapsto> new_entry now sid tags)"
    by (metis Enqueue_def)+
next
  assume d: "Dequeue R sid s = (None, s')"
  have "schema_ok (view s)" using assms(2) by (simp add: coherent_def)
  from redis_server.Dequeue_view [OF assms(1) this d] dequeue_coherent [OF assms(2)] assms(2)
  show "coherent (view s')" "waiting (view s') = (waiting (view s))(sid := None)"
    by (auto split: option.splits)
qed

lemma coherent_empty: "coherent Map.empty" "waiting Map.empty sid = None"
  by (auto simp: coherent_def waiting_def entry_of_def at_defs)

lemma Enqueue_rcall: "Enqueue rcall now sid tags ks = (None, fold effect (enqueue_cmds now sid tags) ks)"
  if "schema_ok ks"
  using rref.pipe_answered [OF fits_cmds(1) that] by (auto simp: Enqueue_def)

theorem queue_refines_witness:
  "let s' = snd (Enqueue rcall 5 ''u'' [''go'', ''chess''] Map.empty)
   in coherent s' \<and> waiting s' ''u'' = Some (new_entry 5 ''u'' [''go'', ''chess''])"
proof -
  have "interests_ok [''go'', ''chess'']" by (simp add: interests_ok_def)
  moreover have "Enqueue rcall 5 ''u'' [''go'', ''chess''] Map.empty =
      (None, snd (Enqueue rcall 5 ''u'' [''go'', ''chess''] Map.empty))"
    using Enqueue_rcall [OF schema_ok_empty] by (metis snd_conv)
  ultimately show ?thesis
    using queue_refines [OF rref.redis_server_axioms, of Map.empty "''u''" "[''go'', ''chess'']" 5
        "snd (Enqueue rcall 5 ''u'' [''go'', ''chess''] Map.empty)"] coherent_empty
    by (simp add: Let_def)
qed

section \<open>Entries that expire\<close>

lemma fold_effect_frame:
  "\<forall>c \<in> set cs. \<exists>k. cmd_key c = Some k \<and> k' \<noteq> k \<Longrightarrow> fold effect cs ks k' = ks k'"
  by (induction cs arbitrary: ks) (auto simp: effect_frame simp del: effect.simps)

lemma queue_key_distinct [simp]:
  "keyMatchQueue \<noteq> keyExactPrefix @ h" "keyMatchQueue \<noteq> keyInterestPrefix @ t" "keyMatchQueue \<noteq> keySessionPrefix @ sid"
  by (simp_all add: key_defs)

lemma enqueue_ttl:
  assumes "schema_ok ks" "ks' = fold effect (enqueue_cmds now sid tags) ks"
  shows "ttl_of ks' (keySessionPrefix @ sid) = Some matchKeyTTL"
    and "ttl_of ks' keyMatchQueue = ttl_of ks keyMatchQueue"
proof -
  let ?k = "keySessionPrefix @ sid"
  define pre where "pre = [ZADD keyMatchQueue now sid, SADD (keyExactPrefix @ InterestsHash tags) sid,
    EXPIRE (keyExactPrefix @ InterestsHash tags) matchKeyTTL] @
    concat (map (\<lambda>t. [SADD (keyInterestPrefix @ t) sid, EXPIRE (keyInterestPrefix @ t) matchKeyTTL]) tags)"
  have cmds: "enqueue_cmds now sid tags = pre @ [HSET ?k [(''interests'', join '','' tags),
      (''hash'', InterestsHash tags), (''joined_at'', show_int now)], EXPIRE ?k matchKeyTTL]"
    by (simp add: enqueue_cmds_def pre_def Let_def)
  have "fold effect pre ks ?k = ks ?k"
    by (rule fold_effect_frame) (auto simp: pre_def key_defs)
  moreover have "kind_ok ks ?k KHash" using assms(1) by (simp add: schema_okD)
  ultimately show "ttl_of ks' ?k = Some matchKeyTTL"
    unfolding assms(2) cmds by (auto simp: ttl_of_def kind_ok_def split: option.splits rvalue.splits)
  have "fold effect (tl (enqueue_cmds now sid tags)) (effect (hd (enqueue_cmds now sid tags)) ks) keyMatchQueue =
      effect (hd (enqueue_cmds now sid tags)) ks keyMatchQueue"
    by (rule fold_effect_frame) (auto simp: cmds pre_def)
  moreover have "ks' = fold effect (tl (enqueue_cmds now sid tags)) (effect (hd (enqueue_cmds now sid tags)) ks)"
    unfolding assms(2) cmds pre_def by simp
  moreover have "kind_ok ks keyMatchQueue KZSet" using assms(1) by (simp add: schema_okD)
  moreover have "hd (enqueue_cmds now sid tags) = ZADD keyMatchQueue now sid" by (simp add: cmds pre_def)
  ultimately show "ttl_of ks' keyMatchQueue = ttl_of ks keyMatchQueue"
    by (auto simp: ttl_of_def kind_ok_def put_zset_def split: option.splits rvalue.splits)
qed

lemma zset_at_advance: "ttl_of ks k = None \<Longrightarrow> zset_at (advance d ks) k = zset_at ks k"
  by (auto simp: ttl_of_def zset_at_def advance_def split: option.splits)

lemma hash_at_expired: "ttl_of ks k = Some t \<Longrightarrow> t \<le> d \<Longrightarrow> hash_at (advance d ks) k = Map.empty"
  by (auto simp: ttl_of_def hash_at_def advance_def split: option.splits)

text \<open>
  C26.  A user who has waited for a minute cannot be removed from the queue: the entry that \<open>Dequeue\<close>
  looks up has expired, the sorted set has not, so \<open>Dequeue\<close> reports success and the user is still
  queued, and will be offered as a partner, although there is no entry.
\<close>

theorem expired_entry_stays_queued:
  assumes "redis_clock R view wait" and "schema_ok (view s)" and "ttl_of (view s) keyMatchQueue = None"
    and "Enqueue R now sid tags s = (None, s1)" and "60 * Second \<le> d" and "Dequeue R sid (wait d s1) = (None, s2)"
  shows "waiting (view s2) sid = None \<and> queued (view s2) sid"
proof -
  have R: "redis_server R view" using assms(1) by (simp add: redis_clock_def)
  note v = redis_server.pipe_ok [OF R assms(4) [unfolded Enqueue_def]]
  note E = enqueue_effect [OF assms(2) v] and T = enqueue_ttl [OF assms(2) v]
  let ?ks = "advance d (view s1)"
  have w: "waiting ?ks sid = None"
    using hash_at_expired [OF T(1), of d] assms(5) by (simp add: waiting_def entry_of_def matchKeyTTL_def)
  have "queued ?ks sid" using zset_at_advance [of "view s1" keyMatchQueue d] T(2) assms(3) E(2) by simp
  moreover have "schema_ok ?ks" using E(1) by (rule schema_ok_advance)
  then have "view s2 = ?ks"
    using redis_server.Dequeue_view [OF R _ assms(6)] w by (simp add: redis_clock.wait_view [OF assms(1)])
  ultimately show ?thesis using w by simp
qed

theorem expired_entry_stays_queued_witness:
  "\<exists>s1 s2. Enqueue rcall 5 ''u'' [] Map.empty = (None, s1) \<and> Dequeue rcall ''u'' (advance Minute s1) = (None, s2) \<and>
     queued s2 ''u''"
proof -
  obtain s1 where s1: "Enqueue rcall 5 ''u'' [] Map.empty = (None, s1)"
    using Enqueue_rcall [OF schema_ok_empty] by blast
  have v: "s1 = fold effect (enqueue_cmds 5 ''u'' []) Map.empty"
    using s1 Enqueue_rcall [OF schema_ok_empty] by simp
  have "hash_at (advance Minute s1) (keySessionPrefix @ ''u'') = Map.empty"
    by (rule hash_at_expired [OF enqueue_ttl(1) [OF schema_ok_empty v]]) (simp add: matchKeyTTL_def)
  moreover have "schema_ok (advance Minute s1)"
    using enqueue_effect(1) [OF schema_ok_empty v] by (rule schema_ok_advance)
  then have "kind_ok (advance Minute s1) (keySessionPrefix @ ''u'') KHash" by (simp add: schema_okD)
  ultimately have d: "Dequeue rcall ''u'' (advance Minute s1) = (None, advance Minute s1)"
    using read_replies(1) [of "advance Minute s1" "keySessionPrefix @ ''u''"]
    by (simp add: Dequeue_def GetEntry_def rcall_def del: answer.simps)
  have "ttl_of Map.empty keyMatchQueue = None" by (simp add: ttl_of_def)
  with expired_entry_stays_queued [OF rclk.redis_clock_axioms _ _ s1 _ d] s1 d schema_ok_empty show ?thesis
    by auto
qed

end
