(* ===== verification/Matching.thy ===== *)
theory Matching
  imports MatchQueue "HOL-Library.AList"
begin

text \<open>
  The four ways of finding a partner: \<open>exact.go\<close>, \<open>overlap.go\<close>, \<open>single.go\<close> and \<open>random.go\<close> of
  \<open>internal/matching\<close>.  Ranging over a Go map visits its keys in any order; the order is a
  parameter \<open>ord\<close>, of which only that it permutes the keys is known.
\<close>

section \<open>The tiers\<close>

record MatchCandidate =
  SessionA :: string
  SessionB :: string
  SharedInterests :: "string list"

text \<open>The loop all tiers end with: the first candidate that is still in the queue.\<close>

fun first_queued :: "'r redis \<Rightarrow> string list \<Rightarrow> 'r \<Rightarrow> string option \<times> 'r" where
  "first_queued R [] s = (None, s)"
| "first_queued R (candidateID # cs) s =
     (case IsQueued R candidateID s of
        (Inl err, s1) \<Rightarrow> first_queued R cs s1
      | (Inr q, s1) \<Rightarrow> if \<not> q then first_queued R cs s1 else (Some candidateID, s1))"

definition TryExactMatch :: "'r redis \<Rightarrow> string \<Rightarrow> 'r \<Rightarrow> MatchCandidate option result \<times> 'r" where
  "TryExactMatch R sessionID s =
     (case GetEntry R sessionID s of
        (Inl err, s1) \<Rightarrow> (Inl err, s1)
      | (Inr None, s1) \<Rightarrow> (Inr None, s1)
      | (Inr (Some entry), s1) \<Rightarrow>
          (case GetExactCandidates R (Hash entry) s1 of
             (Inl err, s2) \<Rightarrow> (Inl err, s2)
           | (Inr candidates, s2) \<Rightarrow>
               (case first_queued R (filter (\<lambda>c. c \<noteq> sessionID) candidates) s2 of
                  (None, s3) \<Rightarrow> (Inr None, s3)
                | (Some candidateID, s3) \<Rightarrow>
                    (Inr (Some \<lparr>SessionA = sessionID, SessionB = candidateID,
                                SharedInterests = Interests entry\<rparr>), s3))))"

text \<open>\<open>scores\<close> and \<open>candidateInterests\<close>, as association lists with one entry per key.\<close>

type_synonym scores = "(string \<times> int) list"
type_synonym shared = "(string \<times> string list) list"

fun count_members :: "string \<Rightarrow> string \<Rightarrow> string list \<Rightarrow> scores \<times> shared \<Rightarrow> scores \<times> shared" where
  "count_members sessionID tag [] acc = acc"
| "count_members sessionID tag (memberID # ms) (scores, cands) =
     (if memberID = sessionID then count_members sessionID tag ms (scores, cands)
      else count_members sessionID tag ms
        (AList.update memberID ((case map_of scores memberID of None \<Rightarrow> 0 | Some n \<Rightarrow> n) + 1) scores,
         AList.update memberID
           (List.insert tag (case map_of cands memberID of None \<Rightarrow> [] | Some ts \<Rightarrow> ts)) cands))"

fun collect_overlap :: "'r redis \<Rightarrow> string \<Rightarrow> string list \<Rightarrow> scores \<times> shared \<Rightarrow> 'r \<Rightarrow> (scores \<times> shared) \<times> 'r" where
  "collect_overlap R sessionID [] acc s = (acc, s)"
| "collect_overlap R sessionID (tag # tags) acc s =
     (case GetInterestCandidates R tag s of
        (Inl err, s1) \<Rightarrow> collect_overlap R sessionID tags acc s1
      | (Inr members, s1) \<Rightarrow> collect_overlap R sessionID tags (count_members sessionID tag members acc) s1)"

definition TryOverlapMatch ::
    "'r redis \<Rightarrow> (string list \<Rightarrow> string list) \<Rightarrow> string \<Rightarrow> 'r \<Rightarrow> MatchCandidate option result \<times> 'r" where
  "TryOverlapMatch R ord sessionID s =
     (case GetEntry R sessionID s of
        (Inl err, s1) \<Rightarrow> (Inl err, s1)
      | (Inr None, s1) \<Rightarrow> (Inr None, s1)
      | (Inr (Some entry), s1) \<Rightarrow>
          (let ((scores, cands), s2) = collect_overlap R sessionID (Interests entry) ([], []) s1
           in if scores = [] then (Inr None, s2)
              else
                (let ranked = sort_key (\<lambda>(i, count). - count)
                       (map (\<lambda>i. (i, the (map_of scores i))) (ord (map fst scores)))
                 in (case first_queued R (map fst ranked) s2 of
                       (None, s3) \<Rightarrow> (Inr None, s3)
                     | (Some candidate, s3) \<Rightarrow>
                         (Inr (Some \<lparr>SessionA = sessionID, SessionB = candidate,
                                     SharedInterests = sort (the (map_of cands candidate))\<rparr>), s3)))))"

fun single_members :: "string \<Rightarrow> string \<Rightarrow> string list \<Rightarrow> shared \<Rightarrow> shared" where
  "single_members sessionID tag [] cands = cands"
| "single_members sessionID tag (memberID # ms) cands =
     (if memberID = sessionID then single_members sessionID tag ms cands
      else single_members sessionID tag ms
        (AList.update memberID (case map_of cands memberID of None \<Rightarrow> [tag] | Some ts \<Rightarrow> ts @ [tag]) cands))"

fun collect_single :: "'r redis \<Rightarrow> string \<Rightarrow> string list \<Rightarrow> shared \<Rightarrow> 'r \<Rightarrow> shared \<times> 'r" where
  "collect_single R sessionID [] cands s = (cands, s)"
| "collect_single R sessionID (tag # tags) cands s =
     (case GetInterestCandidates R tag s of
        (Inl err, s1) \<Rightarrow> collect_single R sessionID tags cands s1
      | (Inr members, s1) \<Rightarrow> collect_single R sessionID tags (single_members sessionID tag members cands) s1)"

definition TrySingleInterestMatch ::
    "'r redis \<Rightarrow> (string list \<Rightarrow> string list) \<Rightarrow> string \<Rightarrow> 'r \<Rightarrow> MatchCandidate option result \<times> 'r" where
  "TrySingleInterestMatch R ord sessionID s =
     (case GetEntry R sessionID s of
        (Inl err, s1) \<Rightarrow> (Inl err, s1)
      | (Inr None, s1) \<Rightarrow> (Inr None, s1)
      | (Inr (Some entry), s1) \<Rightarrow>
          (let (cands, s2) = collect_single R sessionID (Interests entry) [] s1
           in (case first_queued R (ord (map fst cands)) s2 of
                 (None, s3) \<Rightarrow> (Inr None, s3)
               | (Some candidateID, s3) \<Rightarrow>
                   (Inr (Some \<lparr>SessionA = sessionID, SessionB = candidateID,
                               SharedInterests = sort (the (map_of cands candidateID))\<rparr>), s3))))"

definition TryRandomMatch :: "'r redis \<Rightarrow> string \<Rightarrow> 'r \<Rightarrow> MatchCandidate option result \<times> 'r" where
  "TryRandomMatch R sessionID s =
     (case GetAllQueued R s of
        (Inl err, s1) \<Rightarrow> (Inl err, s1)
      | (Inr allQueued, s1) \<Rightarrow>
          (case first_queued R (filter (\<lambda>c. c \<noteq> sessionID) allQueued) s1 of
             (None, s2) \<Rightarrow> (Inr None, s2)
           | (Some candidateID, s2) \<Rightarrow>
               (Inr (Some \<lparr>SessionA = sessionID, SessionB = candidateID, SharedInterests = []\<rparr>), s2)))"

section \<open>The contract of a tier\<close>

text \<open>
  What the matching service relies on: a tier changes nothing, and what it proposes pairs the user
  with somebody else who is in the queue.
\<close>

locale match_tier = redis_server +
  fixes tier :: "string \<Rightarrow> 'a \<Rightarrow> MatchCandidate option result \<times> 'a"
  assumes tier_view: "schema_ok (view s) \<Longrightarrow> tier sid s = (x, s') \<Longrightarrow> view s' = view s"
    and tier_sound: "schema_ok (view s) \<Longrightarrow> tier sid s = (Inr (Some m), s') \<Longrightarrow>
      SessionA m = sid \<and> SessionB m \<noteq> sid \<and> queued (view s) (SessionB m)"

text \<open>The order in which a map is visited.\<close>

locale map_order =
  fixes ord :: "string list \<Rightarrow> string list"
  assumes ord_perm: "mset (ord xs) = mset xs"
begin

lemma set_ord: "set (ord xs) = set xs"
  by (metis ord_perm set_mset_mset)

end

interpretation identity_order: map_order "\<lambda>xs. xs"
  by unfold_locales simp

context redis_server
begin

lemma first_queued_sound:
  "schema_ok (view s) \<Longrightarrow> first_queued exec cs s = (x, s') \<Longrightarrow>
   view s' = view s \<and> (\<forall>c. x = Some c \<longrightarrow> c \<in> set cs \<and> queued (view s) c)"
proof (induction cs arbitrary: s)
  case (Cons c cs)
  obtain q s1 where q: "IsQueued exec c s = (q, s1)" by fastforce
  note I = IsQueued_queued [OF Cons.prems(1) q]
  show ?case
  proof (cases "q = Inr True")
    case True
    with Cons.prems(2) q I(1) I(2) [of True] show ?thesis by auto
  next
    case False
    with Cons.prems(2) q have "first_queued exec cs s1 = (x, s')"
      by (auto split: sum.splits if_splits)
    from Cons.IH [OF _ this] Cons.prems(1) I(1) show ?thesis by simp
  qed
qed simp

lemma smembers_view: "exec (SMEMBERS k) s = (r, s') \<Longrightarrow> view s' = view s"
  by (rule read_only [of "SMEMBERS k"]) simp_all

lemma collect_overlap_view: "collect_overlap exec sid tags acc s = (x, s') \<Longrightarrow> view s' = view s"
proof (induction tags arbitrary: acc s)
  case (Cons t tags)
  obtain r s1 where r: "exec (SMEMBERS (keyInterestPrefix @ t)) s = (r, s1)" by fastforce
  with Cons.prems obtain acc' where "collect_overlap exec sid tags acc' s1 = (x, s')"
    by (auto simp: GetInterestCandidates_def split: sum.splits)
  from Cons.IH [OF this] smembers_view [OF r] show ?case by simp
qed simp

lemma collect_single_view: "collect_single exec sid tags acc s = (x, s') \<Longrightarrow> view s' = view s"
proof (induction tags arbitrary: acc s)
  case (Cons t tags)
  obtain r s1 where r: "exec (SMEMBERS (keyInterestPrefix @ t)) s = (r, s1)" by fastforce
  with Cons.prems obtain acc' where "collect_single exec sid tags acc' s1 = (x, s')"
    by (auto simp: GetInterestCandidates_def split: sum.splits)
  from Cons.IH [OF this] smembers_view [OF r] show ?case by simp
qed simp

end

text \<open>The user is never among the candidates.\<close>

lemma keys_update: "fst ` set (AList.update k v al) = insert k (fst ` set al)"
  by (simp add: AList.dom_update)

lemma count_members_not_self:
  "sid \<notin> fst ` set (fst acc) \<Longrightarrow> sid \<notin> fst ` set (fst (count_members sid tag ms acc))"
proof (induction ms arbitrary: acc)
  case (Cons m ms)
  show ?case
  proof (cases "m = sid")
    case True
    with Cons show ?thesis by (cases acc) simp
  next
    case False
    obtain sc ca where acc: "acc = (sc, ca)" by fastforce
    with False Cons.prems have "sid \<notin> fst ` set (AList.update m n sc)" for n by (simp add: keys_update)
    with Cons.IH False acc show ?thesis by simp
  qed
qed simp

lemma single_members_not_self:
  "sid \<notin> fst ` set cands \<Longrightarrow> sid \<notin> fst ` set (single_members sid tag ms cands)"
  by (induction sid tag ms cands rule: single_members.induct) (simp_all add: keys_update)

lemma collect_overlap_not_self:
  "collect_overlap R sid tags acc s = (x, s') \<Longrightarrow> sid \<notin> fst ` set (fst acc) \<Longrightarrow> sid \<notin> fst ` set (fst x)"
proof (induction tags arbitrary: acc s)
  case (Cons t tags)
  obtain r s1 where r: "GetInterestCandidates R t s = (r, s1)" by fastforce
  show ?case
  proof (cases r)
    case (Inl e)
    with Cons.prems r have "collect_overlap R sid tags acc s1 = (x, s')" by simp
    from Cons.IH [OF this Cons.prems(2)] show ?thesis .
  next
    case (Inr ms)
    with Cons.prems r have "collect_overlap R sid tags (count_members sid t ms acc) s1 = (x, s')" by simp
    from Cons.IH [OF this count_members_not_self [OF Cons.prems(2)]] show ?thesis .
  qed
qed simp

lemma collect_single_not_self:
  "collect_single R sid tags acc s = (x, s') \<Longrightarrow> sid \<notin> fst ` set acc \<Longrightarrow> sid \<notin> fst ` set x"
proof (induction tags arbitrary: acc s)
  case (Cons t tags)
  obtain r s1 where r: "GetInterestCandidates R t s = (r, s1)" by fastforce
  show ?case
  proof (cases r)
    case (Inl e)
    with Cons.prems r have "collect_single R sid tags acc s1 = (x, s')" by simp
    from Cons.IH [OF this Cons.prems(2)] show ?thesis .
  next
    case (Inr ms)
    with Cons.prems r have "collect_single R sid tags (single_members sid t ms acc) s1 = (x, s')" by simp
    from Cons.IH [OF this single_members_not_self [OF Cons.prems(2)]] show ?thesis .
  qed
qed simp

locale match_env = redis_server + map_order

sublocale match_env \<subseteq> exact: match_tier exec view "TryExactMatch exec"
proof (unfold_locales, goal_cases)
  case (1 s sid x s')
  then show ?case
    by (auto simp: TryExactMatch_def GetExactCandidates_def Let_def split: prod.splits sum.splits option.splits
        dest!: GetEntry_waiting(1) [OF 1(1)] smembers_view first_queued_sound [rotated])
next
  case (2 s sid m s')
  then obtain en s1 r s2 cs c where e: "GetEntry exec sid s = (Inr (Some en), s1)"
      "exec (SMEMBERS (keyExactPrefix @ Hash en)) s1 = (r, s2)"
      "first_queued exec (filter (\<lambda>c. c \<noteq> sid) cs) s2 = (Some c, s')" "m = \<lparr>SessionA = sid, SessionB = c, SharedInterests = Interests en\<rparr>"
    by (auto simp: TryExactMatch_def GetExactCandidates_def Let_def split: prod.splits sum.splits option.splits)
  have v: "view s2 = view s" using GetEntry_waiting(1) [OF 2(1) e(1)] smembers_view [OF e(2)] by simp
  from first_queued_sound [OF _ e(3)] 2(1) v e(4) show ?case by auto
qed

sublocale match_env \<subseteq> overlap: match_tier exec view "TryOverlapMatch exec ord"
proof (unfold_locales, goal_cases)
  case (1 s sid x s')
  obtain en s1 where g: "GetEntry exec sid s = (en, s1)" by fastforce
  note v1 = GetEntry_waiting(1) [OF 1(1) g]
  show ?case
  proof (cases "\<exists>e. en = Inr (Some e)")
    case True
    then obtain e where e: "en = Inr (Some e)" by blast
    obtain sc ca s2 where c: "collect_overlap exec sid (Interests e) ([], []) s1 = ((sc, ca), s2)" by (metis prod.collapse)
    have v2: "view s2 = view s" using collect_overlap_view [OF c] v1 by simp
    show ?thesis
      using 1(2) g e c v2 first_queued_sound [of s2] 1(1)
      by (auto simp: TryOverlapMatch_def Let_def split: prod.splits option.splits if_splits)
  next
    case False
    with 1(2) g v1 show ?thesis by (auto simp: TryOverlapMatch_def split: sum.splits option.splits)
  qed
next
  case (2 s sid m s')
  then obtain e s1 sc ca s2 cs c where e: "GetEntry exec sid s = (Inr (Some e), s1)"
      "collect_overlap exec sid (Interests e) ([], []) s1 = ((sc, ca), s2)"
      "cs = map fst (sort_key (\<lambda>(i, n). - n) (map (\<lambda>i. (i, the (map_of sc i))) (ord (map fst sc))))"
      "first_queued exec cs s2 = (Some c, s')"
      "SessionA m = sid" "SessionB m = c"
    by (auto simp: TryOverlapMatch_def Let_def split: prod.splits sum.splits option.splits if_splits)
  have v: "view s2 = view s" using GetEntry_waiting(1) [OF 2(1) e(1)] collect_overlap_view [OF e(2)] by simp
  have "set cs = fst ` set sc" unfolding e(3) by (simp add: set_ord image_image)
  moreover have "sid \<notin> fst ` set sc" using collect_overlap_not_self [OF e(2)] by simp
  moreover have "c \<in> set cs" "queued (view s) c" using first_queued_sound [OF _ e(4)] 2(1) v by simp_all
  ultimately show ?case using e(5,6) by metis
qed

sublocale match_env \<subseteq> single: match_tier exec view "TrySingleInterestMatch exec ord"
proof (unfold_locales, goal_cases)
  case (1 s sid x s')
  obtain en s1 where g: "GetEntry exec sid s = (en, s1)" by fastforce
  note v1 = GetEntry_waiting(1) [OF 1(1) g]
  show ?case
  proof (cases "\<exists>e. en = Inr (Some e)")
    case True
    then obtain e where e: "en = Inr (Some e)" by blast
    obtain ca s2 where c: "collect_single exec sid (Interests e) [] s1 = (ca, s2)" by fastforce
    have v2: "view s2 = view s" using collect_single_view [OF c] v1 by simp
    show ?thesis
      using 1(2) g e c v2 first_queued_sound [of s2] 1(1)
      by (auto simp: TrySingleInterestMatch_def Let_def split: prod.splits option.splits if_splits)
  next
    case False
    with 1(2) g v1 show ?thesis by (auto simp: TrySingleInterestMatch_def split: sum.splits option.splits)
  qed
next
  case (2 s sid m s')
  then obtain e s1 ca s2 c where e: "GetEntry exec sid s = (Inr (Some e), s1)"
      "collect_single exec sid (Interests e) [] s1 = (ca, s2)" "first_queued exec (ord (map fst ca)) s2 = (Some c, s')"
      "SessionA m = sid" "SessionB m = c"
    by (auto simp: TrySingleInterestMatch_def Let_def split: prod.splits sum.splits option.splits if_splits)
  have v: "view s2 = view s" using GetEntry_waiting(1) [OF 2(1) e(1)] collect_single_view [OF e(2)] by simp
  have "sid \<notin> fst ` set ca" using collect_single_not_self [OF e(2)] by simp
  moreover have "c \<in> fst ` set ca" "queued (view s) c"
    using first_queued_sound [OF _ e(3)] 2(1) v by (simp_all add: set_ord)
  ultimately show ?case using e(4,5) by metis
qed

sublocale match_env \<subseteq> random: match_tier exec view "TryRandomMatch exec"
proof (unfold_locales, goal_cases)
  case (1 s sid x s')
  obtain r s1 where r: "exec (ZRANGE keyMatchQueue) s = (r, s1)" by fastforce
  have v: "view s1 = view s" using read_only [OF _ r] by simp
  show ?case
    using 1 r v first_queued_sound [of s1]
    by (auto simp: TryRandomMatch_def GetAllQueued_def split: prod.splits sum.splits option.splits)
next
  case (2 s sid m s')
  then obtain r s1 cs c where r: "exec (ZRANGE keyMatchQueue) s = (r, s1)"
      "first_queued exec (filter (\<lambda>c. c \<noteq> sid) cs) s1 = (Some c, s')" "SessionA m = sid" "SessionB m = c"
    by (auto simp: TryRandomMatch_def GetAllQueued_def split: prod.splits sum.splits option.splits)
  have v: "view s1 = view s" using read_only [OF _ r(1)] by simp
  from first_queued_sound [OF _ r(2)] 2(1) v r(3,4) show ?case by auto
qed

interpretation ref_env: match_env rcall "\<lambda>ks. ks" "\<lambda>xs. xs"
  by unfold_locales

section \<open>What the tiers find\<close>

context reliable_redis
begin

lemma IsQueued_reliable:
  assumes "schema_ok (view s)"
  shows "\<exists>s'. IsQueued exec sid s = (Inr (queued (view s) sid), s') \<and> view s' = view s"
proof -
  have k: "kind_ok (view s) keyMatchQueue KZSet" using assms by (simp add: schema_okD)
  have "\<not> is_err (answer (ZSCORE keyMatchQueue sid) (view s))"
    by (rule fits_answered [OF assms]) (simp_all add: fits_def)
  then obtain r s' where "exec (ZSCORE keyMatchQueue sid) s = (r, s')" "reply_ok (ZSCORE keyMatchQueue sid) (view s) r"
      "view s' = effect (ZSCORE keyMatchQueue sid) (view s)"
    by (rule answers)
  with read_replies(3) [OF k] show ?thesis by (auto simp: IsQueued_def split: option.splits)
qed

lemma GetEntry_reliable:
  assumes "schema_ok (view s)"
  shows "\<exists>s'. GetEntry exec sid s = (Inr (waiting (view s) sid), s') \<and> view s' = view s"
proof -
  let ?c = "HGETALL (keySessionPrefix @ sid)"
  have k: "kind_ok (view s) (keySessionPrefix @ sid) KHash" using assms by (simp add: schema_okD)
  have "\<not> is_err (answer ?c (view s))" by (rule fits_answered [OF assms]) (simp_all add: fits_def)
  then obtain r s' where "exec ?c s = (r, s')" "reply_ok ?c (view s) r" "view s' = effect ?c (view s)"
    by (rule answers)
  with read_replies(1) [OF k] show ?thesis by (auto simp: GetEntry_def waiting_def entry_of_def Let_def)
qed

lemma smembers_reliable:
  assumes "schema_ok (view s)" "wf_keyspace (view s)" "app_kind k = Some KSet"
  shows "\<exists>xs s'. exec (SMEMBERS k) s = (RList xs, s') \<and> distinct xs \<and> set xs = set_at (view s) k \<and> view s' = view s"
proof -
  have k: "kind_ok (view s) k KSet" using assms by (simp add: schema_okD)
  have "\<not> is_err (answer (SMEMBERS k) (view s))" by (rule fits_answered [OF assms(1)]) (simp_all add: fits_def assms(3))
  then obtain r s' where r: "exec (SMEMBERS k) s = (r, s')" "\<not> is_err r" "reply_ok (SMEMBERS k) (view s) r"
      "view s' = effect (SMEMBERS k) (view s)" by (rule answers)
  obtain xs where xs: "r = RList xs" "distinct xs"
    using r(2,3) k by (auto simp: kind_ok_def split: option.splits rvalue.splits reply.splits)
  from smembers_reply [OF k _ assms(2), of xs] r xs show ?thesis by auto
qed

lemma GetAllQueued_reliable:
  assumes "schema_ok (view s)"
  shows "\<exists>s'. GetAllQueued exec s = (Inr (zsorted (zset_at (view s) keyMatchQueue)), s') \<and> view s' = view s"
proof -
  let ?c = "ZRANGE keyMatchQueue"
  have k: "kind_ok (view s) keyMatchQueue KZSet" using assms by (simp add: schema_okD)
  have "\<not> is_err (answer ?c (view s))" by (rule fits_answered [OF assms]) (simp_all add: fits_def)
  then obtain r s' where "exec ?c s = (r, s')" "reply_ok ?c (view s) r" "view s' = effect ?c (view s)"
    by (rule answers)
  with read_replies(4) [OF k] show ?thesis by (auto simp: GetAllQueued_def)
qed

lemma first_queued_find:
  "schema_ok (view s) \<Longrightarrow> \<exists>s'. first_queued exec cs s = (find (queued (view s)) cs, s') \<and> view s' = view s"
proof (induction cs arbitrary: s)
  case (Cons c cs)
  obtain s1 where s1: "IsQueued exec c s = (Inr (queued (view s) c), s1)" "view s1 = view s"
    using IsQueued_reliable [OF Cons.prems] by blast
  with Cons.IH [of s1] Cons.prems show ?case by auto
qed simp

end

text \<open>Counting the interests a candidate shares.\<close>

definition shares :: "keyspace \<Rightarrow> string list \<Rightarrow> string \<Rightarrow> string list" where
  "shares ks tags c = filter (\<lambda>t. c \<in> set_at ks (keyInterestPrefix @ t)) tags"

definition scored :: "(string \<rightharpoonup> int) \<Rightarrow> string \<Rightarrow> int" where
  "scored m c = (case m c of None \<Rightarrow> 0 | Some n \<Rightarrow> n)"

definition listed :: "(string \<rightharpoonup> string list) \<Rightarrow> string \<Rightarrow> string list" where
  "listed m c = (case m c of None \<Rightarrow> [] | Some ts \<Rightarrow> ts)"

lemma count_members_map:
  "distinct ms \<Longrightarrow>
   map_of (fst (count_members sid t ms acc)) c =
     (if c \<in> set ms \<and> c \<noteq> sid then Some (scored (map_of (fst acc)) c + 1) else map_of (fst acc) c) \<and>
   listed (map_of (snd (count_members sid t ms acc))) c =
     (if c \<in> set ms \<and> c \<noteq> sid then List.insert t (listed (map_of (snd acc)) c) else listed (map_of (snd acc)) c)"
proof (induction ms arbitrary: acc c)
  case (Cons m ms)
  obtain sc ca where acc: "acc = (sc, ca)" by fastforce
  from Cons show ?case by (simp add: acc AList.update_conv' scored_def listed_def)
qed simp

lemma count_members_distinct:
  "distinct (map fst (fst acc)) \<Longrightarrow> distinct (map fst (fst (count_members sid t ms acc)))"
proof (induction ms arbitrary: acc)
  case (Cons m ms)
  obtain sc ca where acc: "acc = (sc, ca)" by fastforce
  from Cons show ?case by (simp add: acc AList.distinct_update)
qed simp

lemma single_members_map:
  "distinct ms \<Longrightarrow>
   map_of (single_members sid t ms ca) c =
     (if c \<in> set ms \<and> c \<noteq> sid then Some (case map_of ca c of None \<Rightarrow> [t] | Some ts \<Rightarrow> ts @ [t]) else map_of ca c)"
  by (induction ms arbitrary: ca c) (auto simp: AList.update_conv')

context reliable_redis
begin

lemma collect_overlap_map:
  assumes "schema_ok (view s)" "wf_keyspace (view s)" "collect_overlap exec sid tags acc s = (x, s')"
  shows "(map_of (fst x) c = (if c \<noteq> sid \<and> shares (view s) tags c \<noteq> []
       then Some (scored (map_of (fst acc)) c + int (length (shares (view s) tags c))) else map_of (fst acc) c)) \<and>
    (set (listed (map_of (snd x)) c) = set (listed (map_of (snd acc)) c) \<union> (if c = sid then {} else set (shares (view s) tags c))) \<and>
    (distinct (listed (map_of (snd acc)) c) \<longrightarrow> distinct (listed (map_of (snd x)) c)) \<and>
    (distinct (map fst (fst acc)) \<longrightarrow> distinct (map fst (fst x))) \<and> view s' = view s"
  using assms
proof (induction tags arbitrary: acc s)
  case Nil
  then show ?case by (auto simp: shares_def)
next
  case (Cons t tags)
  obtain xs s1 where xs: "exec (SMEMBERS (keyInterestPrefix @ t)) s = (RList xs, s1)" "distinct xs"
      "set xs = set_at (view s) (keyInterestPrefix @ t)" "view s1 = view s"
    using smembers_reliable [OF Cons.prems(1,2), of "keyInterestPrefix @ t"] by auto
  have "collect_overlap exec sid tags (count_members sid t xs acc) s1 = (x, s')"
    using Cons.prems(3) xs(1) by (simp add: GetInterestCandidates_def)
  note IH = Cons.IH [OF _ _ this, unfolded xs(4), OF Cons.prems(1,2)]
  note m = count_members_map [OF xs(2), of sid t acc c] and d = count_members_distinct [of acc sid t xs]
  have sh: "shares (view s) (t # tags) c = (if c \<in> set xs then [t] else []) @ shares (view s) tags c"
    using xs(3) by (simp add: shares_def)
  consider "c = sid" | "c \<noteq> sid" "c \<in> set xs" | "c \<noteq> sid" "c \<notin> set xs" by blast
  then show ?case
    by cases (use IH m d xs(4) in \<open>simp_all add: sh scored_def insert_commute\<close>)
qed

end

context reliable_redis
begin

lemma collect_single_map:
  assumes "schema_ok (view s)" "wf_keyspace (view s)" "collect_single exec sid tags ca s = (x, s')"
  shows "map_of x c = (if c \<noteq> sid \<and> shares (view s) tags c \<noteq> []
       then Some (listed (map_of ca) c @ shares (view s) tags c) else map_of ca c) \<and> view s' = view s"
  using assms
proof (induction tags arbitrary: ca s)
  case Nil
  then show ?case by (auto simp: shares_def)
next
  case (Cons t tags)
  obtain xs s1 where xs: "exec (SMEMBERS (keyInterestPrefix @ t)) s = (RList xs, s1)" "distinct xs"
      "set xs = set_at (view s) (keyInterestPrefix @ t)" "view s1 = view s"
    using smembers_reliable [OF Cons.prems(1,2), of "keyInterestPrefix @ t"] by auto
  have "collect_single exec sid tags (single_members sid t xs ca) s1 = (x, s')"
    using Cons.prems(3) xs(1) by (simp add: GetInterestCandidates_def)
  note IH = Cons.IH [OF _ _ this, unfolded xs(4), OF Cons.prems(1,2)]
  have sh: "shares (view s) (t # tags) c = (if c \<in> set xs then [t] else []) @ shares (view s) tags c"
    using xs(3) by (simp add: shares_def)
  consider "c = sid" | "c \<noteq> sid" "c \<in> set xs" | "c \<noteq> sid" "c \<notin> set xs" by blast
  then show ?case
    by cases (use IH single_members_map [OF xs(2), of sid t ca c] in \<open>simp_all add: sh listed_def split: option.splits\<close>)
qed

end

lemma find_least:
  "sorted (map f xs) \<Longrightarrow> find P xs = Some x \<Longrightarrow> x \<in> set xs \<and> P x \<and> (\<forall>y \<in> set xs. P y \<longrightarrow> f x \<le> f y)"
  by (induction xs) (auto split: if_splits)

lemma find_NoneD: "find P xs = None \<Longrightarrow> x \<in> set xs \<Longrightarrow> \<not> P x"
  by (simp add: find_None_iff)

lemma find_map_fst: "find P (map fst xs) = map_option fst (find (\<lambda>x. P (fst x)) xs)"
  by (induction xs) auto

lemma finite_zset_at: "wf_keyspace ks \<Longrightarrow> finite (dom (zset_at ks k))"
  by (auto simp: zset_at_def split: option.splits rvalue.splits dest: wf_keyspaceD(1))

lemma set_zsorted: "finite (dom z) \<Longrightarrow> set (zsorted z) = dom z"
  by (simp add: zsorted_def image_image)

lemma sorted_zsorted:
  assumes "finite (dom z)"
  shows "sorted (map (\<lambda>c. the (z c)) (zsorted z))"
proof -
  let ?A = "(\<lambda>m. (the (z m), m)) ` dom z"
  have "map (\<lambda>c. the (z c)) (zsorted z) = map fst (sorted_list_of_set ?A)"
    using assms by (auto simp: zsorted_def)
  moreover have "sorted (map fst (sorted_list_of_set ?A))"
    unfolding sorted_map
    by (rule sorted_wrt_mono_rel [OF _ sorted_sorted_list_of_set [of ?A]]) (auto simp: less_eq_prod_def)
  ultimately show ?thesis by simp
qed

text \<open>The candidates of the second and third tier, and how they are ranked.\<close>

abbreviation sharing :: "keyspace \<Rightarrow> string \<Rightarrow> string list \<Rightarrow> string \<Rightarrow> bool" where
  "sharing ks sid tags c \<equiv> c \<noteq> sid \<and> shares ks tags c \<noteq> []"

lemma scores_keys:
  assumes "\<And>c. map_of sc c = (if sharing ks sid tags c then Some (int (length (shares ks tags c))) else None)"
  shows "fst ` set sc = {c. sharing ks sid tags c}"
  using assms by (simp add: dom_map_of_conv_image_fst [symmetric] dom_def)

locale reliable_match = reliable_redis + map_order
begin

lemma overlap_spec:
  assumes "schema_ok (view s)" "wf_keyspace (view s)" "waiting (view s) sid = Some e"
  shows "\<exists>x s'. TryOverlapMatch exec ord sid s = (Inr x, s') \<and> view s' = view s \<and>
    (case x of
       None \<Rightarrow> \<forall>c. sharing (view s) sid (Interests e) c \<longrightarrow> \<not> queued (view s) c
     | Some m \<Rightarrow> SessionA m = sid \<and> sharing (view s) sid (Interests e) (SessionB m) \<and> queued (view s) (SessionB m) \<and>
         SharedInterests m = sorted_list_of_set (set (shares (view s) (Interests e) (SessionB m))) \<and>
         (\<forall>c. sharing (view s) sid (Interests e) c \<longrightarrow> queued (view s) c \<longrightarrow>
            length (shares (view s) (Interests e) c) \<le> length (shares (view s) (Interests e) (SessionB m))))"
proof -
  let ?tags = "Interests e" and ?ks = "view s"
  obtain s1 where g: "GetEntry exec sid s = (Inr (Some e), s1)" "view s1 = ?ks"
    using GetEntry_reliable [OF assms(1), of sid] assms(3) by auto
  obtain sc ca s2 where c: "collect_overlap exec sid ?tags ([], []) s1 = ((sc, ca), s2)" by (metis prod.collapse)
  note M = collect_overlap_map [OF _ _ c, unfolded g(2), OF assms(1,2)]
  have sc: "map_of sc c = (if sharing ?ks sid ?tags c then Some (int (length (shares ?ks ?tags c))) else None)" for c
    using M [of c] by (simp add: scored_def)
  have v2: "view s2 = ?ks" using M by simp
  define ranked where "ranked = sort_key (\<lambda>(i, n). - n) (map (\<lambda>i. (i, the (map_of sc i))) (ord (map fst sc)))"
  have set_r: "set ranked = (\<lambda>i. (i, int (length (shares ?ks ?tags i)))) ` {c. sharing ?ks sid ?tags c}"
    unfolding ranked_def by (auto simp: set_ord scores_keys [OF sc] image_image sc)
  obtain s3 where f: "first_queued exec (map fst ranked) s2 = (map_option fst (find (\<lambda>x. queued ?ks (fst x)) ranked), s3)"
      "view s3 = ?ks"
    using first_queued_find [of s2 "map fst ranked"] assms(1) v2 by (auto simp: find_map_fst)
  show ?thesis
  proof (cases "find (\<lambda>x. queued ?ks (fst x)) ranked")
    case None
    have "\<not> queued ?ks c" if "sharing ?ks sid ?tags c" for c
      using find_NoneD [OF None, of "(c, int (length (shares ?ks ?tags c)))"] that set_r by auto
    with g c f None v2 show ?thesis by (auto simp: TryOverlapMatch_def ranked_def)
  next
    case (Some p)
    have srt: "sorted (map (\<lambda>(i, n). - n) ranked)" unfolding ranked_def by (rule sorted_sort_key)
    note L = find_least [OF srt Some]
    obtain b where p: "p = (b, int (length (shares ?ks ?tags b)))" "sharing ?ks sid ?tags b"
      using L set_r by auto
    have "sc \<noteq> []" using sc [of b] p(2) by auto
    have best: "length (shares ?ks ?tags c) \<le> length (shares ?ks ?tags b)" if "sharing ?ks sid ?tags c" "queued ?ks c" for c
      using L p(1) that set_r by force
    have ca: "set (listed (map_of ca) b) = set (shares ?ks ?tags b)" "distinct (listed (map_of ca) b)"
      using M [of b] p(2) by (simp_all add: listed_def)
    then have "map_of ca b \<noteq> None" using p(2) by (cases "map_of ca b") (simp_all add: listed_def)
    then have "sort (the (map_of ca b)) = sorted_list_of_set (set (shares ?ks ?tags b))"
      using ca by (auto simp: listed_def sorted_list_of_set_sort_remdups distinct_remdups_id simp flip: ca(1))
    with g c f Some p L best \<open>sc \<noteq> []\<close> show ?thesis by (simp add: TryOverlapMatch_def flip: ranked_def)
  qed
qed

lemma exact_spec:
  assumes "schema_ok (view s)" "wf_keyspace (view s)" "waiting (view s) sid = Some e"
  defines "C \<equiv> set_at (view s) (keyExactPrefix @ Hash e) - {sid}"
  shows "\<exists>x s'. TryExactMatch exec sid s = (Inr x, s') \<and> view s' = view s \<and>
    (case x of
       None \<Rightarrow> \<forall>c \<in> C. \<not> queued (view s) c
     | Some m \<Rightarrow> SessionA m = sid \<and> SessionB m \<in> C \<and> queued (view s) (SessionB m) \<and> SharedInterests m = Interests e)"
proof -
  let ?ks = "view s"
  obtain s1 where g: "GetEntry exec sid s = (Inr (Some e), s1)" "view s1 = ?ks"
    using GetEntry_reliable [OF assms(1), of sid] assms(3) by auto
  obtain xs s2 where x: "exec (SMEMBERS (keyExactPrefix @ Hash e)) s1 = (RList xs, s2)"
      "set xs = set_at ?ks (keyExactPrefix @ Hash e)" "view s2 = ?ks"
    using smembers_reliable [of s1 "keyExactPrefix @ Hash e"] g(2) assms(1,2) by auto
  let ?cs = "filter (\<lambda>c. c \<noteq> sid) xs"
  obtain s3 where f: "first_queued exec ?cs s2 = (find (queued ?ks) ?cs, s3)" "view s3 = ?ks"
    using first_queued_find [of s2 ?cs] assms(1) x(3) by auto
  have C: "set ?cs = C" using x(2) by (auto simp: C_def)
  show ?thesis
  proof (cases "find (queued ?ks) ?cs")
    case None
    have "\<forall>c \<in> C. \<not> queued ?ks c" using find_NoneD [OF None] C by auto
    with g x f None show ?thesis by (auto simp: TryExactMatch_def GetExactCandidates_def)
  next
    case (Some c)
    then have "c \<in> C" "queued ?ks c" using C find_Some_iff [of "queued ?ks" ?cs c] nth_mem by metis+
    with g x f Some show ?thesis by (auto simp: TryExactMatch_def GetExactCandidates_def)
  qed
qed

lemma single_spec:
  assumes "schema_ok (view s)" "wf_keyspace (view s)" "waiting (view s) sid = Some e"
  shows "\<exists>x s'. TrySingleInterestMatch exec ord sid s = (Inr x, s') \<and> view s' = view s \<and>
    (case x of
       None \<Rightarrow> \<forall>c. sharing (view s) sid (Interests e) c \<longrightarrow> \<not> queued (view s) c
     | Some m \<Rightarrow> SessionA m = sid \<and> sharing (view s) sid (Interests e) (SessionB m) \<and> queued (view s) (SessionB m) \<and>
         SharedInterests m = sort (shares (view s) (Interests e) (SessionB m)))"
proof -
  let ?tags = "Interests e" and ?ks = "view s"
  obtain s1 where g: "GetEntry exec sid s = (Inr (Some e), s1)" "view s1 = ?ks"
    using GetEntry_reliable [OF assms(1), of sid] assms(3) by auto
  obtain ca s2 where c: "collect_single exec sid ?tags [] s1 = (ca, s2)" by fastforce
  note M = collect_single_map [OF _ _ c, unfolded g(2), OF assms(1,2)]
  have ca: "map_of ca c = (if sharing ?ks sid ?tags c then Some (shares ?ks ?tags c) else None)" for c
    using M [of c] by (simp add: listed_def)
  have keys: "set (ord (map fst ca)) = {c. sharing ?ks sid ?tags c}"
    using ca by (simp add: set_ord dom_map_of_conv_image_fst [symmetric] dom_def)
  obtain s3 where f: "first_queued exec (ord (map fst ca)) s2 = (find (queued ?ks) (ord (map fst ca)), s3)" "view s3 = ?ks"
    using first_queued_find [of s2 "ord (map fst ca)"] assms(1) M by auto
  show ?thesis
  proof (cases "find (queued ?ks) (ord (map fst ca))")
    case None
    have "\<not> queued ?ks c" if "sharing ?ks sid ?tags c" for c
      using find_NoneD [OF None, of c] that keys by blast
    with g c f None show ?thesis by (auto simp: TrySingleInterestMatch_def)
  next
    case (Some b)
    then have "b \<in> {c. sharing ?ks sid ?tags c}" "queued ?ks b"
      using keys find_Some_iff [of "queued ?ks" "ord (map fst ca)" b] nth_mem by metis+
    with g c f Some ca show ?thesis by (auto simp: TrySingleInterestMatch_def)
  qed
qed

lemma random_spec:
  assumes "schema_ok (view s)" "wf_keyspace (view s)"
  shows "\<exists>x s'. TryRandomMatch exec sid s = (Inr x, s') \<and> view s' = view s \<and>
    (case x of
       None \<Rightarrow> \<forall>c. c \<noteq> sid \<longrightarrow> \<not> queued (view s) c
     | Some m \<Rightarrow> SessionA m = sid \<and> SessionB m \<noteq> sid \<and> queued (view s) (SessionB m) \<and>
         (\<forall>c. c \<noteq> sid \<longrightarrow> queued (view s) c \<longrightarrow>
            the (zset_at (view s) keyMatchQueue (SessionB m)) \<le> the (zset_at (view s) keyMatchQueue c)))"
proof -
  let ?ks = "view s" and ?z = "zset_at (view s) keyMatchQueue"
  have fin: "finite (dom ?z)" using assms(2) by (rule finite_zset_at)
  obtain s1 where g: "GetAllQueued exec s = (Inr (zsorted ?z), s1)" "view s1 = ?ks"
    using GetAllQueued_reliable [OF assms(1)] by auto
  let ?cs = "filter (\<lambda>c. c \<noteq> sid) (zsorted ?z)"
  obtain s2 where f: "first_queued exec ?cs s1 = (find (queued ?ks) ?cs, s2)" "view s2 = ?ks"
    using first_queued_find [of s1 ?cs] assms(1) g(2) by auto
  have C: "set ?cs = {c. c \<noteq> sid \<and> queued ?ks c}" using set_zsorted [OF fin] by auto
  have srt: "sorted (map (\<lambda>c. the (?z c)) ?cs)" using sorted_zsorted [OF fin] by (rule sorted_filter)
  show ?thesis
  proof (cases "find (queued ?ks) ?cs")
    case None
    have "\<not> queued ?ks c" if "c \<noteq> sid" for c using find_NoneD [OF None, of c] that C by blast
    with g f None show ?thesis by (auto simp: TryRandomMatch_def)
  next
    case (Some b)
    from find_least [OF srt Some] C have "b \<noteq> sid" "queued ?ks b"
      "\<forall>c. c \<noteq> sid \<longrightarrow> queued ?ks c \<longrightarrow> the (?z b) \<le> the (?z c)" by auto
    with g f Some show ?thesis by (auto simp: TryRandomMatch_def)
  qed
qed

end

interpretation ref_match: reliable_match rcall "\<lambda>ks. ks" "\<lambda>xs. xs"
  by unfold_locales

text \<open>In a coherent queue the index sets can be read off the entries.\<close>

lemma coherentD:
  assumes "coherent ks"
  shows "schema_ok ks" "queued ks c \<longleftrightarrow> waiting ks c \<noteq> None"
    "waiting ks c = Some e \<Longrightarrow> zset_at ks keyMatchQueue c = Some (JoinedAt e)"
    "c \<in> set_at ks (keyExactPrefix @ h) \<longleftrightarrow> (\<exists>e. waiting ks c = Some e \<and> Hash e = h)"
    "waiting ks c = Some e \<Longrightarrow> shares ks tags c = filter (\<lambda>t. t \<in> set (Interests e)) tags"
    "waiting ks c = None \<Longrightarrow> shares ks tags c = []"
    "zset_at ks keyMatchQueue c = None \<longleftrightarrow> waiting ks c = None"
  using assms by (auto simp: coherent_def shares_def)

abbreviation common :: "QueueEntry \<Rightarrow> QueueEntry \<Rightarrow> string set" where
  "common a b \<equiv> set (Interests a) \<inter> set (Interests b)"

text \<open>The score of the second tier: how many of the user's interests, counted as often as they are listed, the other user has.\<close>

definition overlap_score :: "QueueEntry \<Rightarrow> QueueEntry \<Rightarrow> nat" where
  "overlap_score a b = length (filter (\<lambda>t. t \<in> set (Interests b)) (Interests a))"

lemma overlap_score_distinct: "distinct (Interests a) \<Longrightarrow> overlap_score a b = card (common a b)"
  unfolding overlap_score_def by (metis distinct_card distinct_filter inter_set_filter inf_commute)

lemma overlap_score_0: "overlap_score a b = 0 \<longleftrightarrow> common a b = {}"
  by (auto simp: overlap_score_def filter_empty_conv)

lemma shares_common:
  assumes "coherent ks" "waiting ks c = Some e'"
  shows "set (shares ks (Interests e) c) = common e e'" "length (shares ks (Interests e) c) = overlap_score e e'"
  by (auto simp: coherentD(5) [OF assms, of "Interests e"] overlap_score_def)

lemma overlap_best:
  assumes "reliable_redis R view" and "map_order ord" and "coherent (view s)" and "wf_keyspace (view s)"
    and "waiting (view s) sid = Some e"
  shows "\<exists>x s'. TryOverlapMatch R ord sid s = (Inr x, s') \<and> view s' = view s \<and>
    (case x of
       None \<Rightarrow> \<forall>c e'. c \<noteq> sid \<longrightarrow> waiting (view s) c = Some e' \<longrightarrow> common e e' = {}
     | Some m \<Rightarrow> \<exists>b. SessionA m = sid \<and> SessionB m \<noteq> sid \<and> waiting (view s) (SessionB m) = Some b \<and>
         common e b \<noteq> {} \<and> SharedInterests m = sorted_list_of_set (common e b) \<and>
         (\<forall>c e'. c \<noteq> sid \<longrightarrow> waiting (view s) c = Some e' \<longrightarrow> overlap_score e e' \<le> overlap_score e b))"
proof -
  have "reliable_match R view ord" using assms(1,2) by (simp add: reliable_match_def)
  from reliable_match.overlap_spec [OF this coherentD(1) [OF assms(3)] assms(4,5)]
  obtain x s' where x: "TryOverlapMatch R ord sid s = (Inr x, s')" "view s' = view s" and
    c: "case x of
       None \<Rightarrow> \<forall>c. sharing (view s) sid (Interests e) c \<longrightarrow> \<not> queued (view s) c
     | Some m \<Rightarrow> SessionA m = sid \<and> sharing (view s) sid (Interests e) (SessionB m) \<and> queued (view s) (SessionB m) \<and>
         SharedInterests m = sorted_list_of_set (set (shares (view s) (Interests e) (SessionB m))) \<and>
         (\<forall>c. sharing (view s) sid (Interests e) c \<longrightarrow> queued (view s) c \<longrightarrow>
            length (shares (view s) (Interests e) c) \<le> length (shares (view s) (Interests e) (SessionB m)))"
    by blast
  note C = shares_common [OF assms(3), where e = e]
  have q: "queued (view s) c" if "waiting (view s) c = Some e'" for c e'
    using that coherentD(2) [OF assms(3), of c] by simp
  have sh: "sharing (view s) sid (Interests e) c" if "c \<noteq> sid" "waiting (view s) c = Some e'" "common e e' \<noteq> {}" for c e'
    using C(1) [OF that(2)] that(1,3) by force
  show ?thesis
  proof (cases x)
    case None
    with c have n: "\<not> (sharing (view s) sid (Interests e) c \<and> queued (view s) c)" for c by auto
    have "common e e' = {}" if "c \<noteq> sid" "waiting (view s) c = Some e'" for c e'
      using n [of c] sh [OF that] q [OF that(2)] by blast
    with x None show ?thesis by auto
  next
    case (Some m)
    let ?b = "SessionB m"
    have m: "SessionA m = sid" "sharing (view s) sid (Interests e) ?b" "queued (view s) ?b"
        "SharedInterests m = sorted_list_of_set (set (shares (view s) (Interests e) ?b))"
      and best: "\<And>c. sharing (view s) sid (Interests e) c \<Longrightarrow> queued (view s) c \<Longrightarrow>
        length (shares (view s) (Interests e) c) \<le> length (shares (view s) (Interests e) ?b)"
      using c Some by simp_all
    obtain b where b: "waiting (view s) ?b = Some b" using m(3) coherentD(2) [OF assms(3)] by auto
    have "overlap_score e e' \<le> overlap_score e b" if "c \<noteq> sid" "waiting (view s) c = Some e'" for c e'
      using best [of c] sh [OF that] q [OF that(2)] C(2) [OF that(2)] C(2) [OF b] overlap_score_0 [of e e'] by fastforce
    moreover have "common e b \<noteq> {}" using m(2) C(1) [OF b] by (metis set_empty)
    ultimately show ?thesis using x Some m b C(1) [OF b] by auto
  qed
qed

text \<open>
  C27.  The second tier finds the best partner: on a queue whose indexes agree, when Redis answers,
  it proposes a waiting user with the greatest score, reports exactly the common interests in alphabetical
  order, and finds nobody only if no other waiting user shares any interest.  The score is the number of interests in common if the user lists
  none twice; an interest that is listed several times counts as often.  The order in which Go visits its maps does not matter.
\<close>

theorem overlap_finds_best:
  assumes "reliable_redis R view" and "map_order ord" and "coherent (view s)" and "wf_keyspace (view s)"
    and "waiting (view s) sid = Some e"
  shows "\<exists>x s'. TryOverlapMatch R ord sid s = (Inr x, s') \<and> view s' = view s \<and>
    (case x of
       None \<Rightarrow> \<forall>c e'. c \<noteq> sid \<longrightarrow> waiting (view s) c = Some e' \<longrightarrow> common e e' = {}
     | Some m \<Rightarrow> \<exists>b. SessionA m = sid \<and> SessionB m \<noteq> sid \<and> waiting (view s) (SessionB m) = Some b \<and>
         common e b \<noteq> {} \<and> SharedInterests m = sorted_list_of_set (common e b) \<and>
         (\<forall>c e'. c \<noteq> sid \<longrightarrow> waiting (view s) c = Some e' \<longrightarrow> overlap_score e e' \<le> overlap_score e b \<and>
            (distinct (Interests e) \<longrightarrow> card (common e e') \<le> card (common e b))))"
  using overlap_best [OF assms] by (fastforce simp: overlap_score_distinct split: option.splits)

text \<open>Ann waits for a partner to talk about go and chess, Bob about go and tea.\<close>

definition two_users :: keyspace where
  "two_users = fold effect (enqueue_cmds 2 ''bob'' [''go'', ''tea''])
     (fold effect (enqueue_cmds 1 ''ann'' [''go'', ''chess'']) Map.empty)"

lemma wf_enqueue: "wf_keyspace ks \<Longrightarrow> wf_keyspace (fold effect (enqueue_cmds now sid tags) ks)"
proof -
  have "list_all (\<lambda>c. cmd_key c \<noteq> None) (enqueue_cmds now sid tags)"
    by (auto simp: enqueue_cmds_def Let_def list_all_iff)
  moreover have "list_all (\<lambda>c. cmd_key c \<noteq> None) cs \<Longrightarrow> wf_keyspace ks \<Longrightarrow> wf_keyspace (fold effect cs ks)" for cs ks
    by (induction cs arbitrary: ks) (auto simp: wf_keyspace_effect simp del: effect.simps)
  ultimately show "wf_keyspace ks \<Longrightarrow> wf_keyspace (fold effect (enqueue_cmds now sid tags) ks)" by blast
qed

lemma two_users_ok:
  "coherent two_users" "wf_keyspace two_users"
  "waiting two_users = [''ann'' \<mapsto> new_entry 1 ''ann'' [''go'', ''chess''], ''bob'' \<mapsto> new_entry 2 ''bob'' [''go'', ''tea'']]"
proof -
  let ?a = "fold effect (enqueue_cmds 1 ''ann'' [''go'', ''chess'']) Map.empty"
  have a: "coherent ?a \<and> waiting ?a = (waiting Map.empty)(''ann'' \<mapsto> new_entry 1 ''ann'' [''go'', ''chess''])"
    by (rule enqueue_coherent [OF coherent_empty]) (simp_all add: interests_ok_def)
  moreover have e: "waiting Map.empty = Map.empty" by (rule ext) (rule coherent_empty(2))
  ultimately have "coherent two_users \<and> waiting two_users = (waiting ?a)(''bob'' \<mapsto> new_entry 2 ''bob'' [''go'', ''tea''])"
    unfolding two_users_def by (intro enqueue_coherent) (simp_all add: interests_ok_def)
  with a e show "coherent two_users"
    "waiting two_users = [''ann'' \<mapsto> new_entry 1 ''ann'' [''go'', ''chess''], ''bob'' \<mapsto> new_entry 2 ''bob'' [''go'', ''tea'']]"
    by simp_all
  show "wf_keyspace two_users" unfolding two_users_def by (intro wf_enqueue) (simp add: wf_keyspace_def)
qed

theorem overlap_finds_best_witness:
  "\<exists>m s'. TryOverlapMatch rcall (\<lambda>xs. xs) ''ann'' two_users = (Inr (Some m), s') \<and> SessionB m = ''bob'' \<and>
     SharedInterests m = [''go'']"
proof -
  have w: "waiting two_users ''ann'' = Some (new_entry 1 ''ann'' [''go'', ''chess''])"
      "waiting two_users ''bob'' = Some (new_entry 2 ''bob'' [''go'', ''tea''])"
    by (simp_all add: two_users_ok(3))
  from overlap_finds_best [OF rref.reliable_redis_axioms identity_order.map_order_axioms, of two_users, OF two_users_ok(1,2) w(1)]
  obtain x s' where x: "TryOverlapMatch rcall (\<lambda>xs. xs) ''ann'' two_users = (Inr x, s')" and
    c: "case x of
       None \<Rightarrow> \<forall>c e'. c \<noteq> ''ann'' \<longrightarrow> waiting two_users c = Some e' \<longrightarrow> common (new_entry 1 ''ann'' [''go'', ''chess'']) e' = {}
     | Some m \<Rightarrow> \<exists>b. SessionB m \<noteq> ''ann'' \<and> waiting two_users (SessionB m) = Some b \<and>
         SharedInterests m = sorted_list_of_set (common (new_entry 1 ''ann'' [''go'', ''chess'']) b)"
    by (fastforce simp: new_entry_def split: option.splits)
  have "x \<noteq> None"
  proof
    assume "x = None"
    with c have "\<forall>c e'. c \<noteq> ''ann'' \<longrightarrow> waiting two_users c = Some e' \<longrightarrow>
        common (new_entry 1 ''ann'' [''go'', ''chess'']) e' = {}" by simp
    from this [rule_format, OF _ w(2)] show False by (simp add: new_entry_def)
  qed
  then obtain m where m: "x = Some m" by auto
  with c obtain b where b: "SessionB m \<noteq> ''ann''" "waiting two_users (SessionB m) = Some b"
      "SharedInterests m = sorted_list_of_set (common (new_entry 1 ''ann'' [''go'', ''chess'']) b)" by auto
  then have "SessionB m = ''bob''" by (simp add: two_users_ok(3) split: if_splits)
  with b w(2) x m show ?thesis by (auto simp: new_entry_def)
qed

text \<open>
  The last tier pairs the user with the one who has waited longest: it finds nobody only if nobody else
  is waiting, and otherwise a user who joined no later than any other.
\<close>

lemma random_finds_longest_waiting:
  assumes "reliable_redis R view" and "coherent (view s)" and "wf_keyspace (view s)"
  shows "\<exists>x s'. TryRandomMatch R sid s = (Inr x, s') \<and> view s' = view s \<and>
    (case x of
       None \<Rightarrow> \<forall>c. c \<noteq> sid \<longrightarrow> waiting (view s) c = None
     | Some m \<Rightarrow> \<exists>b. SessionA m = sid \<and> SessionB m \<noteq> sid \<and> waiting (view s) (SessionB m) = Some b \<and>
         (\<forall>c e. c \<noteq> sid \<longrightarrow> waiting (view s) c = Some e \<longrightarrow> JoinedAt b \<le> JoinedAt e))"
proof -
  note C = coherentD [OF assms(2)]
  have "reliable_match R view (\<lambda>xs. xs)"
    using assms(1) identity_order.map_order_axioms by (simp add: reliable_match_def)
  from reliable_match.random_spec [OF this C(1) assms(3), of sid] obtain x s'
    where x: "TryRandomMatch R sid s = (Inr x, s')" "view s' = view s" and
    c: "case x of
       None \<Rightarrow> \<forall>c. c \<noteq> sid \<longrightarrow> \<not> queued (view s) c
     | Some m \<Rightarrow> SessionA m = sid \<and> SessionB m \<noteq> sid \<and> queued (view s) (SessionB m) \<and>
         (\<forall>c. c \<noteq> sid \<longrightarrow> queued (view s) c \<longrightarrow>
            the (zset_at (view s) keyMatchQueue (SessionB m)) \<le> the (zset_at (view s) keyMatchQueue c))"
    by blast
  show ?thesis
  proof (cases x)
    case None
    with x c show ?thesis by (simp add: C(7))
  next
    case (Some m)
    then obtain b where b: "waiting (view s) (SessionB m) = Some b" using c C(2) [of "SessionB m"] by auto
    have "JoinedAt b \<le> JoinedAt e" if "c \<noteq> sid" "waiting (view s) c = Some e" for c e
    proof -
      have "queued (view s) c" using that C(2) [of c] by simp
      with c Some that have "the (zset_at (view s) keyMatchQueue (SessionB m)) \<le> the (zset_at (view s) keyMatchQueue c)"
        by auto
      then show ?thesis using C(3) [OF b] C(3) [OF that(2)] by simp
    qed
    with x c Some b show ?thesis by auto
  qed
qed

lemma random_finds_longest_waiting_witness:
  "\<exists>m s'. TryRandomMatch rcall ''bob'' two_users = (Inr (Some m), s') \<and> SessionB m = ''ann''"
proof -
  have w: "waiting two_users ''ann'' = Some (new_entry 1 ''ann'' [''go'', ''chess''])" by (simp add: two_users_ok(3))
  from random_finds_longest_waiting [OF rref.reliable_redis_axioms, of two_users "''bob''", OF two_users_ok(1,2)]
  obtain x s' where x: "TryRandomMatch rcall ''bob'' two_users = (Inr x, s')" and
    c: "case x of None \<Rightarrow> \<forall>c. c \<noteq> ''bob'' \<longrightarrow> waiting two_users c = None
      | Some m \<Rightarrow> SessionB m \<noteq> ''bob'' \<and> waiting two_users (SessionB m) \<noteq> None"
    by (fastforce split: option.splits)
  have "x \<noteq> None" using c w by (cases x) (auto dest: spec [of _ "''ann''"])
  then obtain m where m: "x = Some m" by auto
  with c have "SessionB m = ''ann''" by (simp add: two_users_ok(3) split: if_splits)
  with x m show ?thesis by simp
qed

text \<open>
  The third tier adds nothing to the second: on a server that answers, the single-interest
  match finds a partner exactly when the overlap match does, whatever the state of the queue, so after
  the second tier has failed the third one fails too.
\<close>

lemma single_adds_nothing:
  assumes "reliable_redis R view" and "map_order ord" and "schema_ok (view s)" and "wf_keyspace (view s)"
  shows "(\<exists>m s'. TrySingleInterestMatch R ord sid s = (Inr (Some m), s')) \<longleftrightarrow>
    (\<exists>m s'. TryOverlapMatch R ord sid s = (Inr (Some m), s'))"
proof (cases "waiting (view s) sid")
  case None
  obtain s1 where "GetEntry R sid s = (Inr None, s1)"
    using reliable_redis.GetEntry_reliable [OF assms(1,3), of sid] None by auto
  then show ?thesis by (simp add: TrySingleInterestMatch_def TryOverlapMatch_def)
next
  case (Some e)
  have R: "reliable_match R view ord" using assms(1,2) by (simp add: reliable_match_def)
  obtain x s1 y s2 where x: "TryOverlapMatch R ord sid s = (Inr x, s1)" and y: "TrySingleInterestMatch R ord sid s = (Inr y, s2)"
    and cx: "case x of None \<Rightarrow> \<forall>c. sharing (view s) sid (Interests e) c \<longrightarrow> \<not> queued (view s) c
      | Some m \<Rightarrow> sharing (view s) sid (Interests e) (SessionB m) \<and> queued (view s) (SessionB m)"
    and cy: "case y of None \<Rightarrow> \<forall>c. sharing (view s) sid (Interests e) c \<longrightarrow> \<not> queued (view s) c
      | Some m \<Rightarrow> sharing (view s) sid (Interests e) (SessionB m) \<and> queued (view s) (SessionB m)"
    using reliable_match.overlap_spec [OF R assms(3,4) Some] reliable_match.single_spec [OF R assms(3,4) Some]
    by (fastforce split: option.splits)
  have "x = None \<longleftrightarrow> y = None" using cx cy by (cases x; cases y) auto
  with x y show ?thesis by auto
qed

lemma single_adds_nothing_witness:
  "(\<exists>m s'. TrySingleInterestMatch rcall (\<lambda>xs. xs) ''u'' Map.empty = (Inr (Some m), s')) \<longleftrightarrow>
   (\<exists>m s'. TryOverlapMatch rcall (\<lambda>xs. xs) ''u'' Map.empty = (Inr (Some m), s'))"
  by (rule single_adds_nothing [OF rref.reliable_redis_axioms identity_order.map_order_axioms])
     (simp_all add: wf_keyspace_def)

text \<open>
  The first tier pairs users whose interests hash alike: it proposes a waiting user with the
  same hash, with the user's interests as the shared ones, and finds nobody only if nobody else with that
  hash is waiting.
\<close>

lemma exact_finds_same_hash:
  assumes "reliable_redis R view" and "coherent (view s)" and "wf_keyspace (view s)"
    and "waiting (view s) sid = Some e"
  shows "\<exists>x s'. TryExactMatch R sid s = (Inr x, s') \<and> view s' = view s \<and>
    (case x of
       None \<Rightarrow> \<forall>c b. c \<noteq> sid \<longrightarrow> waiting (view s) c = Some b \<longrightarrow> Hash b \<noteq> Hash e
     | Some m \<Rightarrow> \<exists>b. SessionA m = sid \<and> SessionB m \<noteq> sid \<and> waiting (view s) (SessionB m) = Some b \<and>
         Hash b = Hash e \<and> SharedInterests m = Interests e)"
proof -
  note C = coherentD [OF assms(2)]
  have "reliable_match R view (\<lambda>xs. xs)"
    using assms(1) identity_order.map_order_axioms by (simp add: reliable_match_def)
  from reliable_match.exact_spec [OF this C(1) assms(3,4)] obtain x s'
    where x: "TryExactMatch R sid s = (Inr x, s')" "view s' = view s" and
    c: "case x of
       None \<Rightarrow> \<forall>c \<in> set_at (view s) (keyExactPrefix @ Hash e) - {sid}. \<not> queued (view s) c
     | Some m \<Rightarrow> SessionA m = sid \<and> SessionB m \<in> set_at (view s) (keyExactPrefix @ Hash e) - {sid} \<and>
         queued (view s) (SessionB m) \<and> SharedInterests m = Interests e"
    by blast
  show ?thesis
  proof (cases x)
    case None
    have "Hash b \<noteq> Hash e" if "c \<noteq> sid" "waiting (view s) c = Some b" for c b
      using c None that C(4) [of c "Hash e"] C(2) [of c] by auto
    with x None show ?thesis by auto
  next
    case (Some m)
    with x c C(4) [of "SessionB m" "Hash e"] show ?thesis by auto
  qed
qed

lemma exact_finds_same_hash_witness:
  "\<exists>x s'. TryExactMatch rcall ''ann'' two_users = (Inr x, s')"
  using exact_finds_same_hash [OF rref.reliable_redis_axioms, of two_users "''ann''", OF two_users_ok(1,2)]
  by (auto simp: two_users_ok(3))

end
