(* ===== verification/ChatStore.thy ===== *)
theory ChatStore
  imports Redis
begin

text \<open>
  \<open>internal/chat/store.go\<close>: a chat is the Redis hash \<open>chat:<id>\<close>, from a match proposed to two users
  (\<open>pending_accept\<close>) to an active conversation; \<open>match:pending_chats\<close> orders the pending ones by
  their accept deadline.  The Lua script that records an acceptance runs inside Redis as one
  command; its \<open>redis.call\<close>s are \<^const>\<open>rcall\<close>.
\<close>

section \<open>The store\<close>

definition ChatPrefix :: string where "ChatPrefix = ''chat:''"
definition PendingKey :: string where "PendingKey = ''match:pending_chats''"
definition ChatTTLPending :: Duration where "ChatTTLPending = 60 * Second"
definition ChatTTLActive :: Duration where "ChatTTLActive = 2 * Hour"
definition StatusPendingAccept :: string where "StatusPendingAccept = ''pending_accept''"
definition StatusActive :: string where "StatusActive = ''active''"
definition StatusEnded :: string where "StatusEnded = ''ended''"

lemmas chat_consts = ChatPrefix_def PendingKey_def ChatTTLPending_def ChatTTLActive_def
  StatusPendingAccept_def StatusActive_def

record ChatSession =
  ChatID :: string
  UserA :: string
  UserB :: string
  Status :: string
  CreatedAt :: int
  AcceptDeadline :: int
  AcceptedA :: bool
  AcceptedB :: bool

definition GetPartner :: "ChatSession \<Rightarrow> string \<Rightarrow> string" where
  "GetPartner cs sessionID =
     (if sessionID = UserA cs then UserB cs
      else if sessionID = UserB cs then UserA cs
      else [])"

definition IsParticipant :: "ChatSession \<Rightarrow> string \<Rightarrow> bool" where
  "IsParticipant cs sessionID \<longleftrightarrow> sessionID = UserA cs \<or> sessionID = UserB cs"

definition CreatePending :: "'r redis \<Rightarrow> int \<Rightarrow> string \<Rightarrow> string \<Rightarrow> string \<Rightarrow> 'r \<Rightarrow> error option \<times> 'r" where
  "CreatePending R now chatID userA userB s =
     (let key = ChatPrefix @ chatID;
          deadline = now + 15
      in pipe_exec R
           [HSET key
              [(''user_a'', userA),
               (''user_b'', userB),
               (''status'', StatusPendingAccept),
               (''created_at'', show_int now),
               (''accept_deadline'', show_int deadline),
               (''accepted_a'', ''false''),
               (''accepted_b'', ''false'')],
            EXPIRE key ChatTTLPending,
            ZADD PendingKey deadline chatID] s)"

definition Get :: "'r redis \<Rightarrow> string \<Rightarrow> 'r \<Rightarrow> ChatSession option result \<times> 'r" where
  "Get R chatID s =
     (let key = ChatPrefix @ chatID;
          (r, s1) = R (HGETALL key) s
      in case map_result r of
           Inl e \<Rightarrow> (Inl e, s1)
         | Inr result \<Rightarrow>
             if result = Map.empty then (Inr None, s1)
             else (Inr (Some \<lparr>
                 ChatID = chatID,
                 UserA = field result ''user_a'',
                 UserB = field result ''user_b'',
                 Status = field result ''status'',
                 CreatedAt = parse_int64 (field result ''created_at''),
                 AcceptDeadline = parse_int64 (field result ''accept_deadline''),
                 AcceptedA = (field result ''accepted_a'' = ''true''),
                 AcceptedB = (field result ''accepted_b'' = ''true'')\<rparr>), s1))"

text \<open>A \<open>redis.call\<close> of a script: an error reply aborts the script.\<close>

definition lua_call :: "rcmd \<Rightarrow> (reply \<Rightarrow> keyspace \<Rightarrow> reply \<times> keyspace) \<Rightarrow> keyspace \<Rightarrow> reply \<times> keyspace" where
  "lua_call c cont ks = (let (r, ks1) = rcall c ks in if is_err r then (r, ks1) else cont r ks1)"

definition acceptMatchLua :: "string \<Rightarrow> string \<Rightarrow> keyspace \<Rightarrow> reply \<times> keyspace" where
  "acceptMatchLua key session_id =
     lua_call (HGET key ''status'') (\<lambda>status.
       if status = RNil then Pair (RInt (-1))
       else if status \<noteq> RBulk ''pending_accept'' then Pair (RInt (-2))
       else
         lua_call (HGET key ''user_a'') (\<lambda>user_a.
         lua_call (HGET key ''user_b'') (\<lambda>user_b.
           let check =
             lua_call (HGET key ''accepted_a'') (\<lambda>accepted_a.
             lua_call (HGET key ''accepted_b'') (\<lambda>accepted_b.
               if accepted_a = RBulk ''true'' \<and> accepted_b = RBulk ''true'' then
                 lua_call (HSET key [(''status'', ''active'')]) (\<lambda>_.
                 lua_call (EXPIRE key (7200 * Second)) (\<lambda>_. Pair (RInt 1)))
               else Pair (RInt 0)))
           in
             if user_a = RBulk session_id then lua_call (HSET key [(''accepted_a'', ''true'')]) (\<lambda>_. check)
             else if user_b = RBulk session_id then lua_call (HSET key [(''accepted_b'', ''true'')]) (\<lambda>_. check)
             else Pair (RInt (-3)))))"

definition AcceptMatch :: "'r redis \<Rightarrow> string \<Rightarrow> string \<Rightarrow> 'r \<Rightarrow> int result \<times> 'r" where
  "AcceptMatch R chatID sessionID s =
     (let key = ChatPrefix @ chatID;
          (r, s1) = R (EVAL (acceptMatchLua key sessionID)) s
      in case int_result r of
           Inl e \<Rightarrow> (Inl (ErrWrap ''chat: accept match'' e), s1)
         | Inr result \<Rightarrow> (Inr result, s1))"

definition Delete :: "'r redis \<Rightarrow> string \<Rightarrow> 'r \<Rightarrow> error option \<times> 'r" where
  "Delete R chatID s = pipe_exec R [DEL (ChatPrefix @ chatID), ZREM PendingKey chatID] s"

section \<open>What a chat hash means\<close>

definition chat_of_hash :: "string \<Rightarrow> (string \<rightharpoonup> string) \<Rightarrow> ChatSession" where
  "chat_of_hash chatID h =
     \<lparr>ChatID = chatID, UserA = field h ''user_a'', UserB = field h ''user_b'', Status = field h ''status'',
      CreatedAt = parse_int64 (field h ''created_at''), AcceptDeadline = parse_int64 (field h ''accept_deadline''),
      AcceptedA = (field h ''accepted_a'' = ''true''), AcceptedB = (field h ''accepted_b'' = ''true'')\<rparr>"

text \<open>The chat with an identifier, if there is one, and the time its key has left.\<close>

definition chat_at :: "keyspace \<Rightarrow> string \<Rightarrow> ChatSession option" where
  "chat_at ks chatID =
     (case ks (ChatPrefix @ chatID) of
        Some (VHash h, _) \<Rightarrow> if h = Map.empty then None else Some (chat_of_hash chatID h)
      | _ \<Rightarrow> None)"

text \<open>A chat key as the store writes it: absent, or a hash with both users and a status.\<close>

definition chat_wf :: "keyspace \<Rightarrow> string \<Rightarrow> bool" where
  "chat_wf ks chatID \<longleftrightarrow>
     (case ks (ChatPrefix @ chatID) of
        None \<Rightarrow> True
      | Some (VHash h, _) \<Rightarrow> {''user_a'', ''user_b'', ''status''} \<subseteq> dom h
      | _ \<Rightarrow> False)"

text \<open>What an acceptance does to a chat, and the code the script returns for it.\<close>

definition accepted :: "ChatSession \<Rightarrow> string \<Rightarrow> ChatSession" where
  "accepted cs sid =
     (if sid = UserA cs then cs\<lparr>AcceptedA := True\<rparr>
      else if sid = UserB cs then cs\<lparr>AcceptedB := True\<rparr> else cs)"

definition accept_spec :: "ChatSession option \<Rightarrow> string \<Rightarrow> int \<times> ChatSession option" where
  "accept_spec c sid =
     (case c of
        None \<Rightarrow> (-1, None)
      | Some cs \<Rightarrow>
          if Status cs \<noteq> StatusPendingAccept then (-2, Some cs)
          else if \<not> IsParticipant cs sid then (-3, Some cs)
          else (let cs' = accepted cs sid
                in if AcceptedA cs' \<and> AcceptedB cs' then (1, Some (cs'\<lparr>Status := StatusActive\<rparr>))
                   else (0, Some cs')))"

lemma lua_call_simps:
  "lua_call c k ks = (if is_err (answer c ks) then (answer c ks, effect c ks) else k (answer c ks) (effect c ks))"
  by (simp add: lua_call_def rcall_def)

lemma hash_lua:
  assumes "ks k = Some (VHash h, t)"
  shows "lua_call (HGET k f) cont ks = cont (case h f of None \<Rightarrow> RNil | Some v \<Rightarrow> RBulk v) ks"
    and "lua_call (HSET k [(f, v)]) cont ks = cont (RInt 0) (ks(k \<mapsto> (VHash (h(f \<mapsto> v)), t)))"
    and "0 < d \<Longrightarrow> lua_call (EXPIRE k d) cont ks = cont (RInt 1) (ks(k \<mapsto> (VHash h, Some d)))"
  using assms by (simp_all add: lua_call_simps split: option.splits)

lemma field_upd: "field (h(f \<mapsto> v)) g = (if g = f then v else field h g)"
  by (simp add: field_def)

text \<open>The script on a hash, written out.\<close>

definition script_hash :: "(string \<rightharpoonup> string) \<Rightarrow> string \<Rightarrow> int \<times> (string \<rightharpoonup> string)" where
  "script_hash h sid =
     (if field h ''status'' \<noteq> ''pending_accept'' then (-2, h)
      else if field h ''user_a'' \<noteq> sid \<and> field h ''user_b'' \<noteq> sid then (-3, h)
      else (let h1 = h((if field h ''user_a'' = sid then ''accepted_a'' else ''accepted_b'') \<mapsto> ''true'')
            in if field h1 ''accepted_a'' = ''true'' \<and> field h1 ''accepted_b'' = ''true''
               then (1, h1(''status'' \<mapsto> ''active'')) else (0, h1)))"

lemma bulk_case: "(case h f of None \<Rightarrow> RNil | Some v \<Rightarrow> RBulk v) = RBulk ''true'' \<longleftrightarrow> field h f = ''true''"
  by (auto simp: field_def split: option.splits)

text \<open>The end of the script, once the acceptance is recorded.\<close>

lemma check_on_hash:
  assumes "ks key = Some (VHash h, t)"
  shows "lua_call (HGET key ''accepted_a'') (\<lambda>accepted_a.
      lua_call (HGET key ''accepted_b'') (\<lambda>accepted_b.
        if accepted_a = RBulk ''true'' \<and> accepted_b = RBulk ''true'' then
          lua_call (HSET key [(''status'', ''active'')]) (\<lambda>_.
          lua_call (EXPIRE key (7200 * Second)) (\<lambda>_. Pair (RInt 1)))
        else Pair (RInt 0))) ks =
    (if field h ''accepted_a'' = ''true'' \<and> field h ''accepted_b'' = ''true''
     then (RInt 1, ks(key \<mapsto> (VHash (h(''status'' \<mapsto> ''active'')), Some (7200 * Second))))
     else (RInt 0, ks))"
proof -
  note L = hash_lua [of ks key h t, OF assms]
  note L2 = hash_lua(3) [of "ks(key \<mapsto> (VHash (h(''status'' \<mapsto> ''active'')), t))" key
      "h(''status'' \<mapsto> ''active'')" t, OF fun_upd_same]
  show ?thesis by (simp add: L L2 bulk_case)
qed

lemma script_on_hash:
  assumes "ks key = Some (VHash h, t)" "{''user_a'', ''user_b'', ''status''} \<subseteq> dom h"
  shows "acceptMatchLua key sid ks =
    (RInt (fst (script_hash h sid)),
     if fst (script_hash h sid) \<in> {0, 1}
     then ks(key \<mapsto> (VHash (snd (script_hash h sid)), if fst (script_hash h sid) = 1 then Some (7200 * Second) else t))
     else ks)"
proof -
  obtain a b st where f: "h ''user_a'' = Some a" "h ''user_b'' = Some b" "h ''status'' = Some st"
    using assms(2) by auto
  note L = hash_lua [of ks key h t, OF assms(1)]
  note C = check_on_hash [of "ks(key \<mapsto> (VHash (h(g \<mapsto> ''true'')), t))" key "h(g \<mapsto> ''true'')" t for g, OF fun_upd_same]
  consider "st \<noteq> ''pending_accept''" | "st = ''pending_accept''" "a \<noteq> sid" "b \<noteq> sid"
    | "st = ''pending_accept''" "a = sid" | "st = ''pending_accept''" "a \<noteq> sid" "b = sid"
    by blast
  then show ?thesis
    by cases (use f in \<open>simp_all add: acceptMatchLua_def L C script_hash_def Let_def field_upd\<close>)
qed

lemma script_absent: "ks key = None \<Longrightarrow> acceptMatchLua key sid ks = (RInt (-1), ks)"
  by (simp add: acceptMatchLua_def lua_call_simps)

lemma script_hash_spec:
  "accept_spec (Some (chat_of_hash c h)) sid =
    (fst (script_hash h sid), Some (chat_of_hash c (snd (script_hash h sid))))"
proof -
  let ?f = "field h"
  consider "?f ''status'' \<noteq> ''pending_accept''"
    | "?f ''status'' = ''pending_accept''" "?f ''user_a'' \<noteq> sid" "?f ''user_b'' \<noteq> sid"
    | "?f ''status'' = ''pending_accept''" "?f ''user_a'' = sid"
    | "?f ''status'' = ''pending_accept''" "?f ''user_a'' \<noteq> sid" "?f ''user_b'' = sid"
    by blast
  then show ?thesis
    by cases (simp_all add: accept_spec_def script_hash_def chat_of_hash_def IsParticipant_def accepted_def
                 Let_def field_upd StatusPendingAccept_def StatusActive_def)
qed

lemma script_hash_dom: "dom h \<subseteq> dom (snd (script_hash h sid))"
  by (auto simp: script_hash_def Let_def)

lemma script_hash_codes: "fst (script_hash h sid) \<notin> {0, 1} \<Longrightarrow> snd (script_hash h sid) = h"
  by (auto simp: script_hash_def Let_def split: if_splits)

text \<open>The script on a chat key as the store keeps it.\<close>

lemma script_chat:
  assumes "chat_wf ks c" "acceptMatchLua (ChatPrefix @ c) sid ks = (r, ks')"
  shows "\<exists>n. r = RInt n \<and> accept_spec (chat_at ks c) sid = (n, chat_at ks' c) \<and> chat_wf ks' c \<and>
    ttl_of ks' (ChatPrefix @ c) = (if n = 1 then Some ChatTTLActive else ttl_of ks (ChatPrefix @ c)) \<and>
    (\<forall>k. k \<noteq> ChatPrefix @ c \<longrightarrow> ks' k = ks k)"
proof (cases "ks (ChatPrefix @ c)")
  case None
  with assms(2) show ?thesis
    by (auto simp: script_absent chat_at_def accept_spec_def chat_wf_def)
next
  case (Some x)
  with assms(1) obtain h t where h: "ks (ChatPrefix @ c) = Some (VHash h, t)"
      "{''user_a'', ''user_b'', ''status''} \<subseteq> dom h"
    by (auto simp: chat_wf_def split: option.splits rvalue.splits)
  let ?q = "script_hash h sid"
  have s: "(r, ks') = (RInt (fst ?q),
      if fst ?q \<in> {0, 1} then ks(ChatPrefix @ c \<mapsto> (VHash (snd ?q), if fst ?q = 1 then Some (7200 * Second) else t)) else ks)"
    using script_on_hash [of ks "ChatPrefix @ c" h t sid, OF h] assms(2) by simp
  have ne: "h \<noteq> Map.empty" "snd ?q \<noteq> Map.empty" using h(2) script_hash_dom [of h sid] by auto
  have "chat_at ks' c = Some (chat_of_hash c (snd ?q))"
    using s ne h(1) script_hash_codes [of h sid] by (auto simp: chat_at_def)
  moreover have "chat_at ks c = Some (chat_of_hash c h)" using h(1) ne by (simp add: chat_at_def)
  moreover have "chat_wf ks' c"
    using s h script_hash_dom [of h sid] by (auto simp: chat_wf_def)
  ultimately show ?thesis
    using s h(1) script_hash_spec [of c h sid] by (auto simp: ttl_of_def ChatTTLActive_def)
qed

section \<open>Accepting a match\<close>

context redis_server
begin

lemma AcceptMatch_view:
  assumes "AcceptMatch exec c sid s = (x, s')"
  shows "view s' = view s \<or> view s' = snd (acceptMatchLua (ChatPrefix @ c) sid (view s))"
proof -
  obtain r where "exec (EVAL (acceptMatchLua (ChatPrefix @ c) sid)) s = (r, s')"
    using assms by (auto simp: AcceptMatch_def Let_def split: prod.splits sum.splits)
  then show ?thesis by (auto elim: view_cases)
qed

lemma AcceptMatch_Inr:
  assumes "AcceptMatch exec c sid s = (Inr n, s')"
  shows "acceptMatchLua (ChatPrefix @ c) sid (view s) = (RInt n, view s')"
proof -
  have "exec (EVAL (acceptMatchLua (ChatPrefix @ c) sid)) s = (RInt n, s')"
    using assms by (auto simp: AcceptMatch_def Let_def split: prod.splits sum.splits)
  from answered [OF this] show ?thesis by (cases "acceptMatchLua (ChatPrefix @ c) sid (view s)") auto
qed

end

text \<open>
  C21.  \<open>AcceptMatch\<close> implements the acceptance of a match: on a chat key the store wrote, the
  script returns -1 when there is no such chat, -2 when it is not pending, -3 when the session is not
  one of its two users, and otherwise records the acceptance and returns 1 with the chat active
  exactly when both have now accepted, else 0; the key lives two more hours when the chat
  became active and keeps its time to live otherwise; no other key changes.
\<close>

theorem AcceptMatch_refines:
  assumes "redis_server R view" and "chat_wf (view s) c" and "AcceptMatch R c sid s = (Inr n, s')"
  shows "accept_spec (chat_at (view s) c) sid = (n, chat_at (view s') c) \<and> chat_wf (view s') c \<and>
    ttl_of (view s') (ChatPrefix @ c) = (if n = 1 then Some (2 * Hour) else ttl_of (view s) (ChatPrefix @ c)) \<and>
    (\<forall>k. k \<noteq> ChatPrefix @ c \<longrightarrow> view s' k = view s k)"
  using script_chat [OF assms(2) redis_server.AcceptMatch_Inr [OF assms(1,3)]]
  by (auto simp: ChatTTLActive_def)

text \<open>A pending chat between Ann and Bob in which Bob accepts after Ann.\<close>

definition ann_accepted :: keyspace where
  "ann_accepted =
     [''chat:c'' \<mapsto> (VHash [''user_a'' \<mapsto> ''ann'', ''user_b'' \<mapsto> ''bob'', ''status'' \<mapsto> ''pending_accept'',
        ''accepted_a'' \<mapsto> ''true'', ''accepted_b'' \<mapsto> ''false''], Some (50 * Second))]"

theorem AcceptMatch_refines_witness:
  "\<exists>s'. AcceptMatch rcall ''c'' ''bob'' ann_accepted = (Inr 1, s') \<and>
     map_option Status (chat_at s' ''c'') = Some ''active'' \<and> ttl_of s' ''chat:c'' = Some (2 * Hour)"
proof -
  have w: "chat_wf ann_accepted ''c''" by (simp add: chat_wf_def ann_accepted_def ChatPrefix_def)
  obtain s' where a: "AcceptMatch rcall ''c'' ''bob'' ann_accepted = (Inr 1, s')"
    by (simp add: AcceptMatch_def rcall_def acceptMatchLua_def lua_call_simps ann_accepted_def ChatPrefix_def)
  have "map_option Status (snd (accept_spec (chat_at ann_accepted ''c'') ''bob'')) = Some ''active''"
    by (simp add: accept_spec_def chat_at_def chat_of_hash_def ann_accepted_def chat_consts field_def
          IsParticipant_def accepted_def fun_upd_idem_iff)
  with AcceptMatch_refines [OF rref.redis_server_axioms w a] a show ?thesis
    by (auto simp: ChatPrefix_def)
qed

section \<open>The handshake as a state machine\<close>

text \<open>
  A run of a chat: acceptances by any sessions, in any order and any number of times, with pauses
  between them.  The reply of an acceptance may be an error.
\<close>

datatype chat_event = Accept string | Elapse Duration

inductive chat_run :: "'r redis \<Rightarrow> (Duration \<Rightarrow> 'r \<Rightarrow> 'r) \<Rightarrow> string \<Rightarrow> 'r \<Rightarrow> chat_event list \<Rightarrow> 'r \<Rightarrow> bool"
  for R wait c where
  chat_done: "chat_run R wait c s [] s"
| chat_accept: "AcceptMatch R c sid s = (x, s1) \<Longrightarrow> chat_run R wait c s1 es s' \<Longrightarrow>
    chat_run R wait c s (Accept sid # es) s'"
| chat_elapse: "0 \<le> d \<Longrightarrow> chat_run R wait c (wait d s) es s' \<Longrightarrow> chat_run R wait c s (Elapse d # es) s'"

inductive_simps chat_run_simps:
  "chat_run R wait c s [] s'" "chat_run R wait c s (Accept sid # es) s'" "chat_run R wait c s (Elapse d # es) s'"

text \<open>
  The invariant of a chat between \<open>a\<close> and \<open>b\<close> after the events \<open>H\<close>: it may have expired; as long as it
  is there, a flag is set only if its user accepted, and it is active only if both flags are set.
\<close>

definition chat_inv :: "string \<Rightarrow> string \<Rightarrow> string \<Rightarrow> chat_event set \<Rightarrow> keyspace \<Rightarrow> bool" where
  "chat_inv c a b H ks \<longleftrightarrow> chat_wf ks c \<and>
     (\<forall>cs. chat_at ks c = Some cs \<longrightarrow>
        UserA cs = a \<and> UserB cs = b \<and> (AcceptedA cs \<longrightarrow> Accept a \<in> H) \<and> (AcceptedB cs \<longrightarrow> Accept b \<in> H) \<and>
        (Status cs = StatusPendingAccept \<or> Status cs = StatusActive \<and> AcceptedA cs \<and> AcceptedB cs))"

lemma chat_wf_advance [wf_intros]: "chat_wf ks c \<Longrightarrow> chat_wf (advance d ks) c"
  by (auto simp: chat_wf_def advance_def split: option.splits rvalue.splits)

lemma chat_at_advance: "chat_at (advance d ks) c = Some cs \<Longrightarrow> chat_at ks c = Some cs"
  by (auto simp: chat_at_def advance_def split: option.splits rvalue.splits if_splits)

lemma chat_inv_advance: "chat_inv c a b H ks \<Longrightarrow> chat_inv c a b H (advance d ks)"
  by (auto simp: chat_inv_def chat_wf_advance dest: chat_at_advance)

lemma chat_inv_mono: "chat_inv c a b H ks \<Longrightarrow> H \<subseteq> H' \<Longrightarrow> chat_inv c a b H' ks"
  by (auto simp: chat_inv_def)

lemma accept_spec_cases:
  assumes "accept_spec cs0 sid = (n, Some cs)"
  obtains cs1 where "cs0 = Some cs1" "cs = cs1"
  | cs1 where "cs0 = Some cs1" "Status cs1 = StatusPendingAccept" "IsParticipant cs1 sid"
      "n = 0" "cs = accepted cs1 sid"
  | cs1 where "cs0 = Some cs1" "Status cs1 = StatusPendingAccept" "IsParticipant cs1 sid"
      "n = 1" "cs = (accepted cs1 sid)\<lparr>Status := StatusActive\<rparr>" "AcceptedA cs" "AcceptedB cs"
  using assms by (auto simp: accept_spec_def Let_def split: option.splits if_splits)

lemma chat_inv_script:
  assumes "chat_inv c a b H ks" "acceptMatchLua (ChatPrefix @ c) sid ks = (r, ks')"
  shows "chat_inv c a b (insert (Accept sid) H) ks'"
proof -
  obtain n where n: "accept_spec (chat_at ks c) sid = (n, chat_at ks' c)" "chat_wf ks' c"
    using script_chat [OF _ assms(2)] assms(1) by (auto simp: chat_inv_def)
  show ?thesis
    unfolding chat_inv_def
  proof (intro conjI allI impI n(2))
    fix cs assume "chat_at ks' c = Some cs"
    with n(1) have "accept_spec (chat_at ks c) sid = (n, Some cs)" by simp
    then show "UserA cs = a" "UserB cs = b"
      "AcceptedA cs \<Longrightarrow> Accept a \<in> insert (Accept sid) H" "AcceptedB cs \<Longrightarrow> Accept b \<in> insert (Accept sid) H"
      "Status cs = StatusPendingAccept \<or> Status cs = StatusActive \<and> AcceptedA cs \<and> AcceptedB cs"
      using assms(1)
      by (cases rule: accept_spec_cases; force simp: chat_inv_def accepted_def IsParticipant_def split: if_splits)+
  qed
qed

context redis_clock
begin

lemma chat_run_inv:
  "chat_run exec wait c s es s' \<Longrightarrow> chat_inv c a b H (view s) \<Longrightarrow> chat_inv c a b (H \<union> set es) (view s')"
proof (induction arbitrary: H rule: chat_run.induct)
  case (chat_done s)
  then show ?case by simp
next
  case (chat_accept sid s x s1 es s')
  have "chat_inv c a b (insert (Accept sid) H) (view s1)"
    using AcceptMatch_view [OF chat_accept.hyps(1)] chat_accept.prems
    by (metis chat_inv_mono chat_inv_script prod.collapse subset_insertI)
  from chat_accept.IH [OF this] show ?case by simp
next
  case (chat_elapse d s es s')
  have "chat_inv c a b H (view (wait d s))"
    using chat_inv_advance [OF chat_elapse.prems] by (simp add: wait_view)
  from chat_elapse.IH [OF this] show ?case by (auto intro: chat_inv_mono)
qed

end

section \<open>From proposal to conversation\<close>

lemma chat_key_pending [simp]: "ChatPrefix @ c \<noteq> PendingKey" "PendingKey \<noteq> ChatPrefix @ c"
  by (simp_all add: ChatPrefix_def PendingKey_def)

definition pending_hash :: "int \<Rightarrow> string \<Rightarrow> string \<Rightarrow> string \<rightharpoonup> string" where
  "pending_hash now a b =
     [''user_a'' \<mapsto> a, ''user_b'' \<mapsto> b, ''status'' \<mapsto> ''pending_accept'', ''created_at'' \<mapsto> show_int now,
      ''accept_deadline'' \<mapsto> show_int (now + 15), ''accepted_a'' \<mapsto> ''false'', ''accepted_b'' \<mapsto> ''false'']"

context redis_server
begin

lemma CreatePending_ok:
  assumes "CreatePending exec now c a b s = (None, s1)" "view s (ChatPrefix @ c) = None"
  shows "view s1 (ChatPrefix @ c) = Some (VHash (pending_hash now a b), Some ChatTTLPending)"
    and "view s1 = effect (ZADD PendingKey (now + 15) c)
           ((view s)(ChatPrefix @ c \<mapsto> (VHash (pending_hash now a b), Some ChatTTLPending)))"
proof -
  have "0 < ChatTTLPending" by (simp add: ChatTTLPending_def)
  with pipe_ok [OF assms(1) [unfolded CreatePending_def Let_def]] assms(2)
  show v: "view s1 = effect (ZADD PendingKey (now + 15) c)
      ((view s)(ChatPrefix @ c \<mapsto> (VHash (pending_hash now a b), Some ChatTTLPending)))"
    by (simp add: pending_hash_def StatusPendingAccept_def del: effect.simps(8))
  then show "view s1 (ChatPrefix @ c) = Some (VHash (pending_hash now a b), Some ChatTTLPending)"
    by (simp add: effect_frame [where k = PendingKey] del: effect.simps)
qed

end

lemma pending_chat:
  assumes "ks (ChatPrefix @ c) = Some (VHash (pending_hash now a b), t)"
  shows "chat_wf ks c"
    and "\<exists>cs. chat_at ks c = Some cs \<and> UserA cs = a \<and> UserB cs = b \<and> Status cs = StatusPendingAccept \<and>
           \<not> AcceptedA cs \<and> \<not> AcceptedB cs"
proof -
  have ne: "pending_hash now a b \<noteq> Map.empty"
    by (simp add: pending_hash_def fun_eq_iff exI [of _ "''user_a''"])
  show "chat_wf ks c" using assms by (simp add: chat_wf_def pending_hash_def)
  show "\<exists>cs. chat_at ks c = Some cs \<and> UserA cs = a \<and> UserB cs = b \<and> Status cs = StatusPendingAccept \<and>
           \<not> AcceptedA cs \<and> \<not> AcceptedB cs"
    using assms ne by (simp add: chat_at_def chat_of_hash_def StatusPendingAccept_def)
       (simp add: pending_hash_def)
qed

section \<open>What the acceptances determine\<close>

text \<open>
  On a server that answers, the state of a chat between \<open>a\<close> and \<open>b\<close> is determined by who accepted.  Its key has more time left than \<open>left\<close> gives for an
  active chat and for a pending one.
\<close>

definition both :: "string \<Rightarrow> string \<Rightarrow> chat_event set \<Rightarrow> bool" where
  "both a b H \<longleftrightarrow> Accept a \<in> H \<and> Accept b \<in> H"

definition chat_exact :: "string \<Rightarrow> string \<Rightarrow> string \<Rightarrow> chat_event set \<Rightarrow> (bool \<Rightarrow> Duration) \<Rightarrow> keyspace \<Rightarrow> bool" where
  "chat_exact c a b H left ks \<longleftrightarrow> chat_wf ks c \<and>
     (\<exists>cs t. chat_at ks c = Some cs \<and> ttl_of ks (ChatPrefix @ c) = Some t \<and> left (both a b H) < t \<and>
        UserA cs = a \<and> UserB cs = b \<and> AcceptedA cs = (Accept a \<in> H) \<and> AcceptedB cs = (Accept b \<in> H) \<and>
        Status cs = (if both a b H then StatusActive else StatusPendingAccept))"

lemma chat_exact_advance:
  assumes "chat_exact c a b H left ks" "d \<le> left (both a b H)"
  shows "chat_exact c a b H (\<lambda>x. left x - d) (advance d ks)"
proof -
  obtain cs t where cs: "chat_at ks c = Some cs" "ttl_of ks (ChatPrefix @ c) = Some t" "left (both a b H) < t"
    using assms(1) by (auto simp: chat_exact_def)
  then obtain h where h: "ks (ChatPrefix @ c) = Some (VHash h, Some t)"
    by (auto simp: chat_at_def ttl_of_def split: option.splits rvalue.splits)
  then have "advance d ks (ChatPrefix @ c) = Some (VHash h, Some (t - d))"
    using assms(2) cs(3) by (simp add: advance_alive)
  with assms h cs show ?thesis
    by (auto simp: chat_exact_def chat_wf_advance chat_at_def ttl_of_def)
qed

lemma chat_exact_script:
  assumes "chat_exact c a b H left ks" "left True < ChatTTLActive" "a \<noteq> b"
    and "acceptMatchLua (ChatPrefix @ c) sid ks = (r, ks')"
  shows "chat_exact c a b (insert (Accept sid) H) left ks'"
proof -
  have wf: "chat_wf ks c" using assms(1) by (simp add: chat_exact_def)
  obtain n where n: "accept_spec (chat_at ks c) sid = (n, chat_at ks' c)" "chat_wf ks' c"
      "ttl_of ks' (ChatPrefix @ c) = (if n = 1 then Some ChatTTLActive else ttl_of ks (ChatPrefix @ c))"
    using script_chat [OF wf assms(4)] by blast
  obtain cs t where cs: "chat_at ks c = Some cs" "UserA cs = a" "UserB cs = b"
      "AcceptedA cs = (Accept a \<in> H)" "AcceptedB cs = (Accept b \<in> H)"
      "Status cs = (if both a b H then StatusActive else StatusPendingAccept)"
      and t: "ttl_of ks (ChatPrefix @ c) = Some t" "left (both a b H) < t"
    using assms(1) by (auto simp: chat_exact_def)
  let ?H = "insert (Accept sid) H"
  have ne: "StatusActive \<noteq> StatusPendingAccept" by (simp add: StatusActive_def StatusPendingAccept_def)
  obtain cs' where cs': "chat_at ks' c = Some cs'" "accept_spec (Some cs) sid = (n, Some cs')"
    using n(1) cs(1) by (cases "chat_at ks' c") (auto simp: accept_spec_def Let_def split: if_splits)
  have "UserA cs' = a \<and> UserB cs' = b \<and> AcceptedA cs' = (Accept a \<in> ?H) \<and> AcceptedB cs' = (Accept b \<in> ?H) \<and>
      Status cs' = (if both a b ?H then StatusActive else StatusPendingAccept)"
    using cs'(2) cs(2-6) assms(3) ne
    by (auto simp: accept_spec_def IsParticipant_def accepted_def both_def Let_def split: if_splits)
  moreover have "n = 1 \<and> both a b ?H \<or> n \<noteq> 1 \<and> both a b ?H = both a b H"
    using cs'(2) cs(2-6) assms(3) ne
    by (auto simp: accept_spec_def IsParticipant_def accepted_def both_def Let_def split: if_splits)
  then have "\<exists>t. ttl_of ks' (ChatPrefix @ c) = Some t \<and> left (both a b ?H) < t"
    using n(3) t assms(2) by (cases "n = 1") auto
  ultimately show ?thesis using n(2) cs'(1) unfolding chat_exact_def by blast
qed

context reliable_redis
begin

lemma AcceptMatch_reliable:
  assumes "chat_wf (view s) c" "AcceptMatch exec c sid s = (x, s')"
  shows "snd (acceptMatchLua (ChatPrefix @ c) sid (view s)) = view s' \<and> (\<exists>n. x = Inr n)"
proof -
  let ?f = "acceptMatchLua (ChatPrefix @ c) sid"
  obtain n where n: "fst (?f (view s)) = RInt n"
    using script_chat [OF assms(1) surjective_pairing] by blast
  obtain r t where "exec (EVAL ?f) s = (r, t)" "reply_ok (EVAL ?f) (view s) r" "view t = effect (EVAL ?f) (view s)"
    by (rule answers [of "EVAL ?f" s]) (use n in auto)
  with n assms(2) show ?thesis by (auto simp: AcceptMatch_def)
qed

lemma AcceptMatch_exact:
  assumes "chat_exact c a b H left (view s)" "left True < ChatTTLActive" "a \<noteq> b"
  shows "chat_exact c a b (insert (Accept sid) H) left (view (snd (AcceptMatch exec c sid s)))"
proof -
  have "chat_wf (view s) c" using assms(1) by (simp add: chat_exact_def)
  from AcceptMatch_reliable [OF this surjective_pairing] chat_exact_script [OF assms surjective_pairing] show ?thesis by simp
qed

end

text \<open>A proposal to Ann and Bob that Ann accepts at once and Bob a second later.\<close>

definition proposed :: keyspace where
  "proposed = snd (CreatePending rcall 0 ''c'' ''ann'' ''bob'' Map.empty)"

definition both_accepted :: keyspace where
  "both_accepted =
     snd (AcceptMatch rcall ''c'' ''bob'' (advance Second (snd (AcceptMatch rcall ''c'' ''ann'' proposed))))"

abbreviation ann_then_bob :: "chat_event list" where
  "ann_then_bob \<equiv> [Accept ''ann'', Elapse Second, Accept ''bob'']"

lemma proposed_ok: "CreatePending rcall 0 ''c'' ''ann'' ''bob'' Map.empty = (None, proposed)"
  by (simp add: proposed_def CreatePending_def rcall_def chat_consts Let_def)

lemma both_accepted_run: "chat_run rcall advance ''c'' proposed ann_then_bob both_accepted"
  unfolding both_accepted_def
  by (rule chat_accept [OF surjective_pairing chat_elapse [OF _ chat_accept [OF surjective_pairing chat_done]]]) simp

text \<open>
  C2.  A chat becomes active only by both users' consent: start from a chat proposed to \<open>a\<close> and
  \<open>b\<close> and let any sessions accept it in any order, any number of times, with any pauses and with
  Redis failing whenever it likes; if the chat is active at the end, both \<open>a\<close> and \<open>b\<close> accepted it.
\<close>

theorem active_needs_both:
  assumes "redis_clock R view wait" and "view s0 (ChatPrefix @ c) = None"
    and "CreatePending R now c a b s0 = (None, s1)" and "chat_run R wait c s1 es s2"
    and "chat_at (view s2) c = Some cs" and "Status cs = StatusActive"
  shows "UserA cs = a \<and> UserB cs = b \<and> Accept a \<in> set es \<and> Accept b \<in> set es"
proof -
  have "redis_server R view" using assms(1) by (simp add: redis_clock_def)
  from redis_server.CreatePending_ok(1) [OF this assms(3,2)]
  have "chat_inv c a b {} (view s1)" by (auto simp: chat_inv_def dest: pending_chat)
  from redis_clock.chat_run_inv [OF assms(1,4) this] assms(5,6) show ?thesis
    by (auto simp: chat_inv_def StatusActive_def StatusPendingAccept_def)
qed

theorem active_needs_both_witness:
  "\<exists>cs. chat_at both_accepted ''c'' = Some cs \<and> Status cs = StatusActive \<and> UserA cs = ''ann'' \<and>
     {Accept ''ann'', Accept ''bob''} \<subseteq> set ann_then_bob"
proof -
  note p = rref.CreatePending_ok(1) [OF proposed_ok, simplified]
  have 0: "chat_exact ''c'' ''ann'' ''bob'' {} (\<lambda>x. Second) proposed"
    using pending_chat [of proposed "''c''" 0 "''ann''" "''bob''" "Some ChatTTLPending", OF p] p
    by (auto simp: chat_exact_def ttl_of_def both_def ChatTTLPending_def)
  note S = rref.AcceptMatch_exact
  have "chat_exact ''c'' ''ann'' ''bob'' (insert (Accept ''bob'') {Accept ''ann''}) (\<lambda>x. Second - Second) both_accepted"
    unfolding both_accepted_def by (intro S chat_exact_advance 0) (simp_all add: ChatTTLActive_def)
  then obtain cs where cs: "chat_at both_accepted ''c'' = Some cs" "Status cs = StatusActive"
    by (auto simp: chat_exact_def both_def)
  from active_needs_both [OF rclk.redis_clock_axioms _ proposed_ok both_accepted_run, of cs] cs
  show ?thesis by simp
qed

end
