(* ===== verification/MatchService.thy ===== *)
theory MatchService
  imports Matching ChatStore World Json
begin

text \<open>
  The matching service: \<open>service.go\<close>, \<open>publisher.go\<close> and \<open>cleanup.go\<close> of \<open>internal/matching\<close>.  Every two
  seconds \<open>processQueue\<close> takes the waiting users in the order in which they joined and pairs them, trying
  weaker and weaker tiers the longer a user has waited, and giving up after half a minute; every five seconds
  the cleanup drops users whose session is gone and proposed chats nobody accepted.  Log lines are left out.
\<close>

section \<open>Messages\<close>

definition matchInterval :: Duration where "matchInterval = 2 * Second"
definition tier1MaxWait :: Duration where "tier1MaxWait = 10 * Second"
definition tier2MaxWait :: Duration where "tier2MaxWait = 20 * Second"
definition tier3MaxWait :: Duration where "tier3MaxWait = 25 * Second"
definition matchTimeout :: Duration where "matchTimeout = 30 * Second"
definition cleanupInterval :: Duration where "cleanupInterval = 5 * Second"

lemmas wait_defs = tier1MaxWait_def tier2MaxWait_def tier3MaxWait_def matchTimeout_def

record MatchRequest =
  req_SessionID :: string
  req_Interests :: "string list option"

definition marshal_MatchRequest :: "MatchRequest \<Rightarrow> string" where
  "marshal_MatchRequest r =
     json_text (JObj [(''session_id'', JStr (req_SessionID r)), (''interests'', JStrs (req_Interests r))])"

definition unmarshal_MatchRequest :: "string \<Rightarrow> MatchRequest result" where
  "unmarshal_MatchRequest data =
     (case Unmarshal [(''session_id'', FStr []), (''interests'', FStrs None)] data of
        Inl err \<Rightarrow> Inl err
      | Inr fs \<Rightarrow> Inr \<lparr>req_SessionID = str_field fs ''session_id'', req_Interests = strs_field fs ''interests''\<rparr>)"

text \<open>A \<open>CancelRequest\<close> has one field.\<close>

type_synonym CancelRequest = string

definition marshal_CancelRequest :: "CancelRequest \<Rightarrow> string" where
  "marshal_CancelRequest sessionID = json_text (JObj [(''session_id'', JStr sessionID)])"

definition unmarshal_CancelRequest :: "string \<Rightarrow> CancelRequest result" where
  "unmarshal_CancelRequest data =
     (case Unmarshal [(''session_id'', FStr [])] data of
        Inl err \<Rightarrow> Inl err
      | Inr fs \<Rightarrow> Inr (str_field fs ''session_id''))"

record MatchResult =
  res_Timeout :: bool
  res_ChatID :: string
  res_PartnerID :: string
  res_SharedInterests :: "string list option"
  res_AcceptDeadline :: int

text \<open>Every field has \<open>omitempty\<close>.\<close>

definition marshal_MatchResult :: "MatchResult \<Rightarrow> string" where
  "marshal_MatchResult r = json_text (JObj (
     (if res_Timeout r then [(''timeout'', JBool True)] else []) @
     (if res_ChatID r \<noteq> [] then [(''chat_id'', JStr (res_ChatID r))] else []) @
     (if res_PartnerID r \<noteq> [] then [(''partner_id'', JStr (res_PartnerID r))] else []) @
     (case res_SharedInterests r of
        Some (t # ts) \<Rightarrow> [(''shared_interests'', JStrs (Some (t # ts)))]
      | _ \<Rightarrow> []) @
     (if res_AcceptDeadline r \<noteq> 0 then [(''accept_deadline'', JInt (res_AcceptDeadline r))] else [])))"

definition match_result_fields :: fields where
  "match_result_fields = [(''timeout'', FBool False), (''chat_id'', FStr []), (''partner_id'', FStr []),
     (''shared_interests'', FStrs None), (''accept_deadline'', FInt 0)]"

definition unmarshal_MatchResult :: "string \<Rightarrow> MatchResult result" where
  "unmarshal_MatchResult data =
     (case Unmarshal match_result_fields data of
        Inl err \<Rightarrow> Inl err
      | Inr fs \<Rightarrow> Inr \<lparr>res_Timeout = bool_field fs ''timeout'', res_ChatID = str_field fs ''chat_id'',
          res_PartnerID = str_field fs ''partner_id'', res_SharedInterests = strs_field fs ''shared_interests'',
          res_AcceptDeadline = int_field fs ''accept_deadline''\<rparr>)"

record MatchNotification =
  not_Type :: string
  not_ChatID :: string

definition marshal_MatchNotification :: "MatchNotification \<Rightarrow> string" where
  "marshal_MatchNotification n =
     json_text (JObj [(''type'', JStr (not_Type n)), (''chat_id'', JStr (not_ChatID n))])"

definition unmarshal_MatchNotification :: "string \<Rightarrow> MatchNotification result" where
  "unmarshal_MatchNotification data =
     (case Unmarshal [(''type'', FStr []), (''chat_id'', FStr [])] data of
        Inl err \<Rightarrow> Inl err
      | Inr fs \<Rightarrow> Inr \<lparr>not_Type = str_field fs ''type'', not_ChatID = str_field fs ''chat_id''\<rparr>)"

section \<open>The service\<close>

text \<open>Marshalling these structs cannot fail.\<close>

definition PublishMatchFound ::
    "('e, 'h, 'z) env_scheme \<Rightarrow> string \<Rightarrow> MatchCandidate \<Rightarrow> 'e \<Rightarrow> error option \<times> 'e" where
  "PublishMatchFound E chatID candidate e =
     (let deadline = 15;
          dataA = marshal_MatchResult \<lparr>res_Timeout = False, res_ChatID = chatID, res_PartnerID = SessionB candidate,
            res_SharedInterests = Some (SharedInterests candidate), res_AcceptDeadline = deadline\<rparr>;
          dataB = marshal_MatchResult \<lparr>res_Timeout = False, res_ChatID = chatID, res_PartnerID = SessionA candidate,
            res_SharedInterests = Some (SharedInterests candidate), res_AcceptDeadline = deadline\<rparr>
      in case Publish E (SubjectMatchFound @ ''.'' @ SessionA candidate) dataA e of
           (Some err, e1) \<Rightarrow> (Some (ErrWrap (''matching: publish match.found for '' @ SessionA candidate) err), e1)
         | (None, e1) \<Rightarrow>
             (case Publish E (SubjectMatchFound @ ''.'' @ SessionB candidate) dataB e1 of
                (Some err, e2) \<Rightarrow> (Some (ErrWrap (''matching: publish match.found for '' @ SessionB candidate) err), e2)
              | (None, e2) \<Rightarrow> (None, e2)))"

definition handleMatchRequest :: "('e, 'h, 'z) env_scheme \<Rightarrow> string \<Rightarrow> 'e \<Rightarrow> 'e" where
  "handleMatchRequest E data e =
     (case unmarshal_MatchRequest data of
        Inl err \<Rightarrow> e
      | Inr req \<Rightarrow>
          (case Enqueue (env_redis E) (UnixMilli E e) (req_SessionID req)
                  (case req_Interests req of None \<Rightarrow> [] | Some ts \<Rightarrow> ts) e of
             (Some err, e1) \<Rightarrow> e1
           | (None, e1) \<Rightarrow> snd (QueueSize (env_redis E) e1)))"

definition handleCancelRequest :: "('e, 'h, 'z) env_scheme \<Rightarrow> string \<Rightarrow> 'e \<Rightarrow> 'e" where
  "handleCancelRequest E data e =
     (case unmarshal_CancelRequest data of
        Inl err \<Rightarrow> e
      | Inr sessionID \<Rightarrow> snd (Dequeue (env_redis E) sessionID e))"

definition handleMatch :: "('e, 'h, 'z) env_scheme \<Rightarrow> MatchCandidate \<Rightarrow> 'e \<Rightarrow> 'e" where
  "handleMatch E m e =
     (let (chatID, e1) = env_uuid E e;
          (_, e2) = Dequeue (env_redis E) (SessionA m) e1;
          (_, e3) = Dequeue (env_redis E) (SessionB m) e2;
          (_, e4) = CreatePending (env_redis E) (Unix E e3) chatID (SessionA m) (SessionB m) e3;
          (_, e5) = PublishMatchFound E chatID m e4
      in e5)"

definition timeout_result :: MatchResult where
  "timeout_result = \<lparr>res_Timeout = True, res_ChatID = [], res_PartnerID = [], res_SharedInterests = None, res_AcceptDeadline = 0\<rparr>"

definition handleTimeout :: "('e, 'h, 'z) env_scheme \<Rightarrow> string \<Rightarrow> 'e \<Rightarrow> 'e" where
  "handleTimeout E sessionID e =
     (let (_, e1) = Dequeue (env_redis E) sessionID e;
          (_, e2) = Publish E (SubjectMatchFound @ ''.'' @ sessionID) (marshal_MatchResult timeout_result) e1
      in e2)"

text \<open>\<open>time.Duration\<close> is an \<open>int64\<close>: the product with a millisecond wraps around.\<close>

definition waitDuration :: "int \<Rightarrow> QueueEntry \<Rightarrow> Duration" where
  "waitDuration now_ms entry = wrap64 ((now_ms - JoinedAt entry) * Millisecond)"

text \<open>\<open>match, err = ...\<close> followed by logging: the candidate, or nil when there was an error.\<close>

definition found :: "'m option result \<times> 'e \<Rightarrow> 'm option \<times> 'e" where
  "found x = (case x of (Inl err, e) \<Rightarrow> (None, e) | (Inr m, e) \<Rightarrow> (m, e))"

definition try_tiers ::
    "('e, 'h, 'z) env_scheme \<Rightarrow> (string list \<Rightarrow> string list) \<Rightarrow> Duration \<Rightarrow> string \<Rightarrow> 'e \<Rightarrow> MatchCandidate option \<times> 'e" where
  "try_tiers E ord waited sid e =
     (let R = env_redis E;
          (m1, e1) = found (TryExactMatch R sid e);
          (m2, e2) = (if m1 = None \<and> tier1MaxWait \<le> waited then found (TryOverlapMatch R ord sid e1) else (m1, e1));
          (m3, e3) = (if m2 = None \<and> tier2MaxWait \<le> waited then found (TrySingleInterestMatch R ord sid e2) else (m2, e2));
          (m4, e4) = (if m3 = None \<and> tier3MaxWait \<le> waited then found (TryRandomMatch R sid e3) else (m3, e3))
      in (m4, e4))"

definition process_user :: "('e, 'h, 'z) env_scheme \<Rightarrow> (string list \<Rightarrow> string list) \<Rightarrow> string \<Rightarrow> 'e \<Rightarrow> 'e" where
  "process_user E ord sid e =
     (case IsQueued (env_redis E) sid e of
        (Inl err, e1) \<Rightarrow> e1
      | (Inr False, e1) \<Rightarrow> e1
      | (Inr True, e1) \<Rightarrow>
          (case GetEntry (env_redis E) sid e1 of
             (Inl err, e2) \<Rightarrow> e2
           | (Inr None, e2) \<Rightarrow> e2
           | (Inr (Some entry), e2) \<Rightarrow>
               (let waited = waitDuration (UnixMilli E e2) entry
                in if matchTimeout \<le> waited then handleTimeout E sid e2
                   else (case try_tiers E ord waited sid e2 of
                           (None, e3) \<Rightarrow> e3
                         | (Some m, e3) \<Rightarrow> handleMatch E m e3))))"

definition processQueue :: "('e, 'h, 'z) env_scheme \<Rightarrow> (string list \<Rightarrow> string list) \<Rightarrow> 'e \<Rightarrow> 'e" where
  "processQueue E ord e =
     (case GetAllQueued (env_redis E) e of
        (Inl err, e1) \<Rightarrow> e1
      | (Inr sessionIDs, e1) \<Rightarrow> fold (process_user E ord) sessionIDs e1)"

section \<open>Cleanup\<close>

definition clean_user :: "('e, 'h, 'z) env_scheme \<Rightarrow> string \<Rightarrow> 'e \<Rightarrow> 'e" where
  "clean_user E sid e =
     (let (r, e1) = env_redis E (EXISTS (''session:'' @ sid)) e
      in case int_result r of
           Inl err \<Rightarrow> e1
         | Inr n \<Rightarrow> if n = 0 then snd (Dequeue (env_redis E) sid e1) else e1)"

definition cleanStaleEntries :: "('e, 'h, 'z) env_scheme \<Rightarrow> 'e \<Rightarrow> 'e" where
  "cleanStaleEntries E e =
     (case GetAllQueued (env_redis E) e of
        (Inl err, e1) \<Rightarrow> e1
      | (Inr sessionIDs, e1) \<Rightarrow> fold (clean_user E) sessionIDs e1)"

text \<open>\<open>v, _ := ... .Result()\<close>: the empty string on an error.\<close>

definition or_empty :: "string result \<Rightarrow> string" where
  "or_empty x = (case x of Inl err \<Rightarrow> [] | Inr v \<Rightarrow> v)"

definition clean_chat :: "('e, 'h, 'z) env_scheme \<Rightarrow> string \<Rightarrow> 'e \<Rightarrow> 'e" where
  "clean_chat E chatID e =
     (let R = env_redis E;
          key = ''chat:'' @ chatID;
          (r, e1) = R (HGET key ''status'') e;
          e5 = (if or_empty (string_result r) = ''pending_accept'' then
                 (let (ra, e2) = R (HGET key ''user_a'') e1;
                      (rb, e3) = R (HGET key ''user_b'') e2;
                      userA = or_empty (string_result ra);
                      userB = or_empty (string_result rb);
                      notif = marshal_MatchNotification \<lparr>not_Type = ''timed_out'', not_ChatID = chatID\<rparr>;
                      e4a = (if userA \<noteq> [] then snd (PublishMatchNotify E userA notif e3) else e3);
                      e4b = (if userB \<noteq> [] then snd (PublishMatchNotify E userB notif e4a) else e4a)
                  in snd (R (DEL key) e4b))
                else e1)
      in snd (R (ZREM ''match:pending_chats'' chatID) e5))"

definition cleanExpiredPendingChats :: "('e, 'h, 'z) env_scheme \<Rightarrow> 'e \<Rightarrow> 'e" where
  "cleanExpiredPendingChats E e =
     (let now = Unix E e;
          (r, e1) = env_redis E (ZRANGEBYSCORE ''match:pending_chats'' 0 now) e
      in case list_result r of
           Inl err \<Rightarrow> e1
         | Inr chatIDs \<Rightarrow> fold (clean_chat E) chatIDs e1)"

section \<open>What the queue operations leave alone\<close>

context redis_frame
begin

lemma queue_frame:
  "Enqueue exec now sid tags s = (a, s') \<Longrightarrow> f s' = f s"
  "GetEntry exec sid s = (b, s') \<Longrightarrow> f s' = f s"
  "IsQueued exec sid s = (c, s') \<Longrightarrow> f s' = f s"
  "GetAllQueued exec s = (d, s') \<Longrightarrow> f s' = f s"
  "GetExactCandidates exec h s = (d, s') \<Longrightarrow> f s' = f s"
  "GetInterestCandidates exec t s = (d, s') \<Longrightarrow> f s' = f s"
  "QueueSize exec s = (g, s') \<Longrightarrow> f s' = f s"
  "CreatePending exec now i u v s = (a, s') \<Longrightarrow> f s' = f s"
  by (auto simp: Enqueue_def GetEntry_def IsQueued_def GetAllQueued_def GetExactCandidates_def GetInterestCandidates_def
      QueueSize_def CreatePending_def Let_def split: prod.splits sum.splits option.splits if_splits error.splits dest!: redis_step pipe_step)

lemma Dequeue_frame: "Dequeue exec sid s = (a, s') \<Longrightarrow> f s' = f s"
  by (auto simp: Dequeue_def Let_def split: prod.splits sum.splits option.splits dest!: queue_frame pipe_step)

lemma first_queued_frame: "first_queued exec cs s = (x, s') \<Longrightarrow> f s' = f s"
  by (induction cs arbitrary: s) (auto split: prod.splits sum.splits if_splits dest!: queue_frame(3))

lemma collect_overlap_frame: "collect_overlap exec sid tags acc s = (x, s') \<Longrightarrow> f s' = f s"
  by (induction tags arbitrary: acc s) (auto split: prod.splits sum.splits dest!: queue_frame(6))

lemma collect_single_frame: "collect_single exec sid tags acc s = (x, s') \<Longrightarrow> f s' = f s"
  by (induction tags arbitrary: acc s) (auto split: prod.splits sum.splits dest!: queue_frame(6))

lemma tier_frame:
  "TryExactMatch exec sid s = (x, s') \<Longrightarrow> f s' = f s"
  "TryOverlapMatch exec ord sid s = (x, s') \<Longrightarrow> f s' = f s"
  "TrySingleInterestMatch exec ord sid s = (x, s') \<Longrightarrow> f s' = f s"
  "TryRandomMatch exec sid s = (x, s') \<Longrightarrow> f s' = f s"
  by (auto simp: TryExactMatch_def TryOverlapMatch_def TrySingleInterestMatch_def TryRandomMatch_def Let_def
      split: prod.splits sum.splits option.splits if_splits
      dest!: queue_frame first_queued_frame collect_overlap_frame collect_single_frame)

lemmas queue_snd [world_simps] = queue_frame [OF surjective_pairing] Dequeue_frame [OF surjective_pairing]

end

section \<open>Key types\<close>

text \<open>
  Whatever arrives and whatever fails, the service keeps the layout of the keys.
\<close>

lemma chat_kinds [simp]:
  "app_kind (ChatPrefix @ c) = Some KHash" "app_kind (CHR ''c'' # CHR ''h'' # CHR ''a'' # CHR ''t'' # CHR '':'' # c) = Some KHash" "app_kind PendingKey = Some KZSet"
  "app_kind ''match:pending_chats'' = Some KZSet" 
  "app_kind (CHR ''s'' # CHR ''e'' # CHR ''s'' # CHR ''s'' # CHR ''i'' # CHR ''o'' # CHR ''n'' # CHR '':'' # c) = Some KHash"
  by (simp_all add: app_kind_def ChatPrefix_def PendingKey_def)

lemma fits_CreatePending:
  "list_all fits [HSET (ChatPrefix @ i) fvs, EXPIRE (ChatPrefix @ i) ChatTTLPending, ZADD PendingKey d i]"
  by (simp add: fits_def)

context redis_server
begin

lemma schema_snd [world_simps]: "fits c \<Longrightarrow> schema_ok (view s) \<Longrightarrow> schema_ok (view (snd (exec c s)))"
  by (rule schema_step [OF surjective_pairing])

lemma CreatePending_schema [world_simps]: "schema_ok (view s) \<Longrightarrow> schema_ok (view (snd (CreatePending exec now i u v s)))"
  unfolding CreatePending_def Let_def by (rule schema_pipe [OF surjective_pairing fits_CreatePending])

lemma Enqueue_schema [world_simps]: "schema_ok (view s) \<Longrightarrow> schema_ok (view (snd (Enqueue exec now sid tags s)))"
  unfolding Enqueue_def
  by (erule schema_pipe [OF surjective_pairing, rotated]) (use fits_cmds(1) [of now sid tags] in \<open>auto simp: list_all_iff\<close>)

lemmas Dequeue_schema_snd [world_simps] = Dequeue_schema [OF _ surjective_pairing]

lemma query_view:
  "IsQueued exec sid s = (b, s') \<Longrightarrow> view s' = view s"
  "GetAllQueued exec s = (l, s') \<Longrightarrow> view s' = view s"
  "QueueSize exec s = (n, s') \<Longrightarrow> view s' = view s"
  "GetEntry exec sid s = (x, s') \<Longrightarrow> view s' = view s"
  by (auto simp: IsQueued_def GetAllQueued_def QueueSize_def GetEntry_def Let_def
      split: prod.splits sum.splits if_splits error.splits dest: read_only [rotated])

lemmas query_snd [world_simps] = query_view [OF surjective_pairing]

end

locale match_world = world + map_order

sublocale match_world \<subseteq> me: match_env "env_redis E" view ord
  by unfold_locales

text \<open>A tier as the service calls it: what it proposes, if it proposes anything.\<close>

definition proposal :: "keyspace \<Rightarrow> string \<Rightarrow> MatchCandidate option \<Rightarrow> bool" where
  "proposal ks sid m \<longleftrightarrow> (\<forall>x. m = Some x \<longrightarrow> SessionA x = sid \<and> SessionB x \<noteq> sid \<and> queued ks (SessionB x))"

context match_world
begin

lemma found_ok:
  assumes "\<And>x e'. t = (x, e') \<Longrightarrow> view e' = view e" "\<And>x e'. t = (x, e') \<Longrightarrow> sent e' = sent e"
    "\<And>m e'. t = (Inr (Some m), e') \<Longrightarrow> SessionA m = sid \<and> SessionB m \<noteq> sid \<and> queued (view e) (SessionB m)"
    "found t = (m, e')"
  shows "view e' = view e \<and> sent e' = sent e \<and> proposal (view e) sid m"
proof -
  obtain x e1 where t: "t = (x, e1)" by fastforce
  with assms(4) have "e' = e1" "m = (case x of Inl err \<Rightarrow> None | Inr m \<Rightarrow> m)"
    by (auto simp: found_def split: sum.splits)
  with assms(1-3) t show ?thesis by (cases x) (auto simp: proposal_def)
qed

lemma found_tier:
  assumes "schema_ok (view e)"
  shows "found (TryExactMatch (env_redis E) sid e) = (m, e') \<Longrightarrow> view e' = view e \<and> sent e' = sent e \<and> proposal (view e) sid m"
    "found (TryOverlapMatch (env_redis E) ord sid e) = (m, e') \<Longrightarrow> view e' = view e \<and> sent e' = sent e \<and> proposal (view e) sid m"
    "found (TrySingleInterestMatch (env_redis E) ord sid e) = (m, e') \<Longrightarrow> view e' = view e \<and> sent e' = sent e \<and> proposal (view e) sid m"
    "found (TryRandomMatch (env_redis E) sid e) = (m, e') \<Longrightarrow> view e' = view e \<and> sent e' = sent e \<and> proposal (view e) sid m"
  by (erule found_ok [rotated 3, OF _ me.exact.tier_view [OF assms] sf.tier_frame(1) me.exact.tier_sound [OF assms]]
            found_ok [rotated 3, OF _ me.overlap.tier_view [OF assms] sf.tier_frame(2) me.overlap.tier_sound [OF assms]]
            found_ok [rotated 3, OF _ me.single.tier_view [OF assms] sf.tier_frame(3) me.single.tier_sound [OF assms]]
            found_ok [rotated 3, OF _ me.random.tier_view [OF assms] sf.tier_frame(4) me.random.tier_sound [OF assms]]; assumption)+

lemma try_tiers_sound:
  assumes "schema_ok (view e)" "try_tiers E ord w sid e = (m, e')"
  shows "view e' = view e \<and> sent e' = sent e \<and> proposal (view e) sid m"
proof -
  let ?R = "env_redis E"
  obtain m1 e1 where 1: "found (TryExactMatch ?R sid e) = (m1, e1)" by fastforce
  note v1 = found_tier(1) [OF assms(1) 1]
  obtain m2 e2 where 2: "(if m1 = None \<and> tier1MaxWait \<le> w then found (TryOverlapMatch ?R ord sid e1) else (m1, e1)) = (m2, e2)" by fastforce
  have v2: "view e2 = view e \<and> sent e2 = sent e \<and> proposal (view e) sid m2"
    using 2 v1 found_tier(2) [of e1] assms(1) by (auto split: if_splits)
  obtain m3 e3 where 3: "(if m2 = None \<and> tier2MaxWait \<le> w then found (TrySingleInterestMatch ?R ord sid e2) else (m2, e2)) = (m3, e3)" by fastforce
  have v3: "view e3 = view e \<and> sent e3 = sent e \<and> proposal (view e) sid m3"
    using 3 v2 found_tier(3) [of e2] assms(1) by (auto split: if_splits)
  have "(if m3 = None \<and> tier3MaxWait \<le> w then found (TryRandomMatch ?R sid e3) else (m3, e3)) = (m, e')"
    using assms(2) by (simp add: try_tiers_def 1 2 3)
  with v3 found_tier(4) [of e3] assms(1) show ?thesis by (auto split: if_splits)
qed

end

context world
begin

lemma PublishMatchFound_view [world_simps]: "view (snd (PublishMatchFound E i m e)) = view e"
  by (simp add: PublishMatchFound_def Let_def case_prod_beta world_simps split: option.split)

lemma handler_schema [world_simps]:
  assumes "schema_ok (view e)"
  shows "schema_ok (view (handleMatch E m e))" "schema_ok (view (handleTimeout E sid e))"
    "schema_ok (view (handleMatchRequest E data e))" "schema_ok (view (handleCancelRequest E data e))"
  using assms
  by (simp_all add: handleMatch_def handleTimeout_def handleMatchRequest_def handleCancelRequest_def Let_def case_prod_beta
      world_simps split: sum.split option.split)

lemma clean_schema [world_simps]:
  assumes "schema_ok (view e)"
  shows "schema_ok (view (clean_user E sid e))" "schema_ok (view (clean_chat E c e))"
  using assms
  by (simp_all add: clean_user_def clean_chat_def PublishMatchNotify_def Let_def case_prod_beta world_simps fits_def split: sum.split)

lemma fold_inv: "\<forall>e. P e \<longrightarrow> (\<forall>x. P (g x e)) \<Longrightarrow> P e \<Longrightarrow> P (fold g xs e)"
  by (induction xs arbitrary: e) auto

lemma cleanup_schema [world_simps]:
  assumes "schema_ok (view e)"
  shows "schema_ok (view (cleanStaleEntries E e))" "schema_ok (view (cleanExpiredPendingChats E e))"
  using assms
  by (auto simp: cleanStaleEntries_def cleanExpiredPendingChats_def Let_def case_prod_beta world_simps fits_def
      intro!: fold_inv [where P = "\<lambda>e. schema_ok (view e)"] split: sum.split)

end

context match_world
begin

lemma try_tiers_view [world_simps]: "schema_ok (view e) \<Longrightarrow> view (snd (try_tiers E ord w sid e)) = view e"
  using try_tiers_sound [OF _ surjective_pairing] by simp

lemma process_user_schema [world_simps]: "schema_ok (view e) \<Longrightarrow> schema_ok (view (process_user E ord sid e))"
  by (simp add: process_user_def Let_def case_prod_beta world_simps split: sum.split option.split bool.split)

lemma processQueue_schema:
  assumes "schema_ok (view e)"
  shows "schema_ok (view (processQueue E ord e))"
  using assms
  by (auto simp: processQueue_def case_prod_beta world_simps intro!: fold_inv [where P = "\<lambda>e. schema_ok (view e)"] split: sum.split)

end

section \<open>The running service\<close>

text \<open>
  \<open>Start\<close> subscribes to the requests and starts the two loops; from then on the service reacts to ticks of
  the loops and to messages, one after the other.
\<close>

datatype service_handler = HandleMatchRequest | HandleCancelRequest

definition Start :: "('e, service_handler, 'z) env_scheme \<Rightarrow> subs \<Rightarrow> 'e \<Rightarrow> error option \<times> subs \<times> 'e" where
  "Start E subs e =
     (case SubscribeMatchRequest E HandleMatchRequest subs e of
        (Some err, subs1, e1) \<Rightarrow> (Some err, subs1, e1)
      | (None, subs1, e1) \<Rightarrow> SubscribeMatchCancel E HandleCancelRequest subs1 e1)"

datatype service_event = MatchTick | CleanupTick | Deliver service_handler string

fun service_exec :: "('e, 'h, 'z) env_scheme \<Rightarrow> (string list \<Rightarrow> string list) \<Rightarrow> service_event \<Rightarrow> 'e \<Rightarrow> 'e" where
  "service_exec E ord MatchTick e = processQueue E ord e"
| "service_exec E ord CleanupTick e = cleanExpiredPendingChats E (cleanStaleEntries E e)"
| "service_exec E ord (Deliver HandleMatchRequest data) e = handleMatchRequest E data e"
| "service_exec E ord (Deliver HandleCancelRequest data) e = handleCancelRequest E data e"

context match_world
begin

lemma service_exec_schema: "schema_ok (view e) \<Longrightarrow> schema_ok (view (service_exec E ord ev e))"
  by (cases "(E, ord, ev, e)" rule: service_exec.cases) (simp_all add: world_simps processQueue_schema)

end

section \<open>On services that answer\<close>

definition match_key :: "string \<Rightarrow> bool" where
  "match_key k \<longleftrightarrow> k = keyMatchQueue \<or> prefix keyExactPrefix k \<or> prefix keyInterestPrefix k \<or> prefix keySessionPrefix k"

lemma match_key_simps [simp]:
  "match_key keyMatchQueue" "match_key (keyExactPrefix @ x)" "match_key (keyInterestPrefix @ x)" "match_key (keySessionPrefix @ x)"
  "\<not> match_key (ChatPrefix @ x)" "\<not> match_key PendingKey" "\<not> match_key (''session:'' @ x)"
  by (simp_all add: match_key_def key_defs ChatPrefix_def PendingKey_def)

definition tidy :: "keyspace \<Rightarrow> bool" where
  "tidy ks \<longleftrightarrow> coherent ks \<and> wf_keyspace ks"

lemma coherent_frame:
  assumes "coherent ks" "schema_ok ks'" "\<And>k. match_key k \<Longrightarrow> ks' k = ks k"
  shows "coherent ks'" "waiting ks' = waiting ks"
proof -
  have at: "zset_at ks' keyMatchQueue = zset_at ks keyMatchQueue" "set_at ks' (keyExactPrefix @ x) = set_at ks (keyExactPrefix @ x)"
    "set_at ks' (keyInterestPrefix @ x) = set_at ks (keyInterestPrefix @ x)"
    "hash_at ks' (keySessionPrefix @ x) = hash_at ks (keySessionPrefix @ x)" for x
    by (simp_all add: at_defs assms(3))
  show w: "waiting ks' = waiting ks" by (simp add: fun_eq_iff waiting_def at)
  from assms(1,2) show "coherent ks'" by (simp add: coherent_def at w)
qed

lemma dequeue_keys: "c \<in> set (dequeue_cmds sid e) \<Longrightarrow> \<exists>k. cmd_key c = Some k \<and> match_key k"
  by (auto simp: dequeue_cmds_def)

context reliable_redis
begin

lemma Dequeue_tidy:
  assumes "tidy (view s)"
  obtains s' where "Dequeue exec sid s = (None, s')" "tidy (view s')" "waiting (view s') = (waiting (view s))(sid := None)"
    "\<And>k. \<not> match_key k \<Longrightarrow> view s' k = view s k"
proof -
  have c: "coherent (view s)" "wf_keyspace (view s)" "schema_ok (view s)" using assms by (simp_all add: tidy_def coherent_def)
  obtain s1 where g: "GetEntry exec sid s = (Inr (waiting (view s) sid), s1)" "view s1 = view s"
    using GetEntry_reliable [OF c(3)] by blast
  show thesis
  proof (cases "waiting (view s) sid")
    case None
    then have "(waiting (view s))(sid := None) = waiting (view s)" by auto
    with that [of s1] g None assms show thesis by (simp add: Dequeue_def)
  next
    case (Some en)
    obtain s2 where p: "pipe_exec exec (dequeue_cmds sid en) s1 = (None, s2)" "view s2 = fold effect (dequeue_cmds sid en) (view s1)"
      using pipe_answered [OF fits_cmds(2)] c(3) g(2) by metis
    have D: "coherent (view s2) \<and> waiting (view s2) = (waiting (view s))(sid := None)"
      using dequeue_coherent [OF c(1) Some] p(2) g(2) by simp
    have "wf_keyspace (view s2)"
      using pipe_wf [OF p(1)] dequeue_keys c(2) g(2) by (metis option.distinct(1))
    moreover have "view s2 k = view s k" if "\<not> match_key k" for k
      using pipe_frame [OF p(1), of k] dequeue_keys that g(2) by metis
    ultimately show thesis using that [of s2] g Some p(1) D by (simp add: Dequeue_def tidy_def)
  qed
qed

lemma CreatePending_tidy:
  assumes "tidy (view s)"
  obtains s' where "CreatePending exec now i u v s = (None, s')" "tidy (view s')" "waiting (view s') = waiting (view s)"
    "\<And>k. k \<noteq> ChatPrefix @ i \<Longrightarrow> k \<noteq> PendingKey \<Longrightarrow> view s' k = view s k"
proof -
  have c: "coherent (view s)" "wf_keyspace (view s)" "schema_ok (view s)" using assms by (simp_all add: tidy_def coherent_def)
  define cs where "cs = [HSET (ChatPrefix @ i) [(''user_a'', u), (''user_b'', v), (''status'', StatusPendingAccept),
    (''created_at'', show_int now), (''accept_deadline'', show_int (now + 15)), (''accepted_a'', ''false''), (''accepted_b'', ''false'')],
    EXPIRE (ChatPrefix @ i) ChatTTLPending, ZADD PendingKey (now + 15) i]"
  have C: "CreatePending exec now i u v s = pipe_exec exec cs s" by (simp only: CreatePending_def Let_def cs_def)
  obtain s1 where p: "pipe_exec exec cs s = (None, s1)"
    using pipe_answered [of cs s] c(3) by (auto simp: cs_def fits_def)
  have k: "view s1 k = view s k" if "k \<noteq> ChatPrefix @ i" "k \<noteq> PendingKey" for k
    by (rule pipe_frame [OF p]) (use that in \<open>auto simp: cs_def\<close>)
  then have f: "view s1 k = view s k" if "match_key k" for k using that by (metis match_key_simps(5,6))
  have "wf_keyspace (view s1)" by (rule pipe_wf [OF p _ c(2)]) (auto simp: cs_def)
  moreover have s: "schema_ok (view s1)" by (rule schema_pipe [OF p _ c(3)]) (simp add: cs_def fits_def)
  ultimately show thesis
    using that [of s1] C p k coherent_frame [OF c(1) s f] by (simp add: tidy_def)
qed

end

text \<open>What the two users of a match are told.\<close>

definition match_msgs :: "string \<Rightarrow> MatchCandidate \<Rightarrow> (string \<times> string) list" where
  "match_msgs i m =
     [(SubjectMatchFound @ ''.'' @ SessionA m,
       marshal_MatchResult \<lparr>res_Timeout = False, res_ChatID = i, res_PartnerID = SessionB m,
         res_SharedInterests = Some (SharedInterests m), res_AcceptDeadline = 15\<rparr>),
      (SubjectMatchFound @ ''.'' @ SessionB m,
       marshal_MatchResult \<lparr>res_Timeout = False, res_ChatID = i, res_PartnerID = SessionA m,
         res_SharedInterests = Some (SharedInterests m), res_AcceptDeadline = 15\<rparr>)]"

locale reliable_match_world = reliable_world + map_order

sublocale reliable_match_world \<subseteq> mw: match_world E view active sent ord
  by unfold_locales

sublocale reliable_match_world \<subseteq> rm: reliable_match "env_redis E" view ord
  by unfold_locales

interpretation wrefm: reliable_match_world env_ref wd_keys "\<lambda>w. map_of (nw_active w)" nw_sent "\<lambda>xs. xs"
  by unfold_locales

context reliable_match_world
begin

lemma PublishMatchFound_reliable:
  obtains e' where "PublishMatchFound E i m e = (None, e')" "view e' = view e" "sent e' = sent e @ match_msgs i m"
proof -
  obtain e1 where 1: "Publish E (fst (match_msgs i m ! 0)) (snd (match_msgs i m ! 0)) e = (None, e1)" "view e1 = view e"
      "sent e1 = sent e @ [match_msgs i m ! 0]"
    by (rule Publish_reliable [of "fst (match_msgs i m ! 0)" "snd (match_msgs i m ! 0)" e]) simp
  obtain e2 where 2: "Publish E (fst (match_msgs i m ! 1)) (snd (match_msgs i m ! 1)) e1 = (None, e2)" "view e2 = view e1"
      "sent e2 = sent e1 @ [match_msgs i m ! 1]"
    by (rule Publish_reliable [of "fst (match_msgs i m ! 1)" "snd (match_msgs i m ! 1)" e1]) simp
  from that [of e2] 1 2 show thesis by (simp add: PublishMatchFound_def match_msgs_def)
qed

lemma handleMatch_reliable:
  assumes "tidy (view e)" "SessionA m \<noteq> SessionB m"
  obtains i e1 e3 where "env_uuid E e = (i, e1)" "tidy (view (handleMatch E m e))"
    "waiting (view (handleMatch E m e)) = (waiting (view e))(SessionA m := None, SessionB m := None)"
    "sent (handleMatch E m e) = sent e @ match_msgs i m"
    "\<And>k. \<not> match_key k \<Longrightarrow> k \<noteq> ChatPrefix @ i \<Longrightarrow> k \<noteq> PendingKey \<Longrightarrow> view (handleMatch E m e) k = view e k"
    "view e (ChatPrefix @ i) = None \<Longrightarrow>
       view (handleMatch E m e) (ChatPrefix @ i) = Some (VHash (pending_hash (Unix E e3) (SessionA m) (SessionB m)), Some ChatTTLPending)"
proof -
  obtain i e1 where 1: "env_uuid E e = (i, e1)" by fastforce
  note v1 = uuid_view [OF 1] uuid_sent [OF 1]
  obtain e2 where 2: "Dequeue (env_redis E) (SessionA m) e1 = (None, e2)" "tidy (view e2)"
      "waiting (view e2) = (waiting (view e1))(SessionA m := None)" "\<And>k. \<not> match_key k \<Longrightarrow> view e2 k = view e1 k"
    using rr.Dequeue_tidy [of e1 "SessionA m"] assms(1) v1(1) by metis
  obtain e3 where 3: "Dequeue (env_redis E) (SessionB m) e2 = (None, e3)" "tidy (view e3)"
      "waiting (view e3) = (waiting (view e2))(SessionB m := None)" "\<And>k. \<not> match_key k \<Longrightarrow> view e3 k = view e2 k"
    using rr.Dequeue_tidy [OF 2(2), of "SessionB m"] by metis
  obtain e4 where 4: "CreatePending (env_redis E) (Unix E e3) i (SessionA m) (SessionB m) e3 = (None, e4)" "tidy (view e4)"
      "waiting (view e4) = waiting (view e3)" "\<And>k. k \<noteq> ChatPrefix @ i \<Longrightarrow> k \<noteq> PendingKey \<Longrightarrow> view e4 k = view e3 k"
    using rr.CreatePending_tidy [OF 3(2)] by metis
  obtain e5 where 5: "PublishMatchFound E i m e4 = (None, e5)" "view e5 = view e4" "sent e5 = sent e4 @ match_msgs i m"
    by (rule PublishMatchFound_reliable)
  have h: "handleMatch E m e = e5" by (simp add: handleMatch_def 1 2(1) 3(1) 4(1) 5(1))
  have "sent e4 = sent e"
    using sf.Dequeue_frame [OF 2(1)] sf.Dequeue_frame [OF 3(1)] sf.queue_frame(8) [OF 4(1)] v1(2) by simp
  moreover have "view e3 (ChatPrefix @ i) = view e (ChatPrefix @ i)" using 2(4) 3(4) v1(1) by simp
  ultimately show thesis
    using that [OF 1, of e3] h 2(3,4) 3(3,4) 4(2-4) 5(2,3) v1(1) rs.CreatePending_ok(1) [OF 4(1)] by simp
qed

lemma handleTimeout_reliable:
  assumes "tidy (view e)"
  shows "tidy (view (handleTimeout E sid e))" "waiting (view (handleTimeout E sid e)) = (waiting (view e))(sid := None)"
    "sent (handleTimeout E sid e) = sent e @ [(SubjectMatchFound @ ''.'' @ sid, marshal_MatchResult timeout_result)]"
proof -
  obtain e1 where 1: "Dequeue (env_redis E) sid e = (None, e1)" "tidy (view e1)"
      "waiting (view e1) = (waiting (view e))(sid := None)"
    using rr.Dequeue_tidy [OF assms, of sid] by metis
  obtain e2 where 2: "Publish E (SubjectMatchFound @ ''.'' @ sid) (marshal_MatchResult timeout_result) e1 = (None, e2)"
      "view e2 = view e1" "sent e2 = sent e1 @ [(SubjectMatchFound @ ''.'' @ sid, marshal_MatchResult timeout_result)]"
    by (rule Publish_reliable)
  have "handleTimeout E sid e = e2" using 1(1) 2(1) by (simp add: handleTimeout_def)
  with 1 2 sf.Dequeue_frame [OF 1(1)]
  show "tidy (view (handleTimeout E sid e))" "waiting (view (handleTimeout E sid e)) = (waiting (view e))(sid := None)"
    "sent (handleTimeout E sid e) = sent e @ [(SubjectMatchFound @ ''.'' @ sid, marshal_MatchResult timeout_result)]"
    by simp_all
qed

end

text \<open>
  What a step of a pass does: the users \<open>us\<close>, each of them waiting and none twice, get one message
  and leave the queue; the others stay as they are.
\<close>

definition dismissed :: "string list \<Rightarrow> keyspace \<Rightarrow> (string \<times> string) list \<Rightarrow> keyspace \<Rightarrow> (string \<times> string) list \<Rightarrow> bool" where
  "dismissed us ks msgs ks' msgs' \<longleftrightarrow> distinct us \<and> set us \<subseteq> dom (waiting ks) \<and>
     waiting ks' = waiting ks |` (- set us) \<and>
     (\<exists>ds. msgs' = msgs @ ds \<and> map fst ds = map (\<lambda>u. SubjectMatchFound @ ''.'' @ u) us)"

lemma dismissed_none: "dismissed [] ks msgs ks msgs"
  by (simp add: dismissed_def restrict_map_def)

lemma dismissed_trans:
  assumes "dismissed us ks msgs ks1 msgs1" "dismissed vs ks1 msgs1 ks2 msgs2"
  shows "dismissed (us @ vs) ks msgs ks2 msgs2"
proof -
  from assms(2) have "set vs \<subseteq> dom (waiting ks1)" by (simp add: dismissed_def)
  with assms(1) have "set us \<inter> set vs = {}" "set vs \<subseteq> dom (waiting ks)" by (auto simp: dismissed_def)
  with assms show ?thesis by (auto simp: dismissed_def Int_commute)
qed

context reliable_match_world
begin

lemma process_user_dismissed:
  assumes "tidy (view e)"
  shows "\<exists>us. dismissed us (view e) (sent e) (view (process_user E ord sid e)) (sent (process_user E ord sid e))"
    and "tidy (view (process_user E ord sid e))"
proof -
  have c: "coherent (view e)" "schema_ok (view e)" using assms by (simp_all add: tidy_def coherent_def)
  obtain e1 where 1: "IsQueued (env_redis E) sid e = (Inr (queued (view e) sid), e1)" "view e1 = view e"
    using rr.IsQueued_reliable [OF c(2)] by blast
  obtain e2 where 2: "GetEntry (env_redis E) sid e1 = (Inr (waiting (view e) sid), e2)" "view e2 = view e"
    using rr.GetEntry_reliable [of e1 sid] c(2) 1(2) by auto
  have s2: "sent e1 = sent e" "sent e2 = sent e"
    using sf.queue_frame(3) [OF 1(1)] sf.queue_frame(2) [OF 2(1)] by simp_all
  let ?e' = "process_user E ord sid e"
  have "(\<exists>us. dismissed us (view e) (sent e) (view ?e') (sent ?e')) \<and> tidy (view ?e')"
  proof (cases "waiting (view e) sid")
    case None
    then have "?e' = e1" using coherentD(2) [OF c(1), of sid] 1 by (simp add: process_user_def)
    with 1 s2 assms show ?thesis by (metis dismissed_none)
  next
    case (Some en)
    then have q: "queued (view e) sid" using coherentD(2) [OF c(1), of sid] by simp
    let ?w = "waitDuration (UnixMilli E e2) en"
    show ?thesis
    proof (cases "matchTimeout \<le> ?w")
      case True
      then have h: "?e' = handleTimeout E sid e2" using 1 2 Some q by (simp add: process_user_def)
      have "tidy (view e2)" using assms 2(2) by simp
      note H = handleTimeout_reliable [OF this, of sid, folded h]
      have "(waiting (view e))(sid := None) = waiting (view e) |` (- {sid})" by (auto simp: restrict_map_def)
      with H Some s2 2(2) have "dismissed [sid] (view e) (sent e) (view ?e') (sent ?e')"
        by (auto simp: dismissed_def)
      with H(1) show ?thesis by blast
    next
      case False
      obtain m e3 where t: "try_tiers E ord ?w sid e2 = (m, e3)" by fastforce
      have T: "view e3 = view e" "sent e3 = sent e" "proposal (view e) sid m"
        using mw.try_tiers_sound [OF _ t] c(2) 2(2) s2 by simp_all
      show ?thesis
      proof (cases m)
        case None
        with False 1 2 Some q t have "?e' = e3" by (simp add: process_user_def)
        with T assms show ?thesis by (metis dismissed_none)
      next
        case (Some x)
        with False 1 2 \<open>waiting (view e) sid = Some en\<close> q t have h: "?e' = handleMatch E x e3" by (simp add: process_user_def)
        have x: "SessionA x = sid" "SessionB x \<noteq> sid" "waiting (view e) (SessionB x) \<noteq> None"
          using T(3) Some coherentD(2) [OF c(1), of "SessionB x"] by (auto simp: proposal_def)
        then have ne: "SessionA x \<noteq> SessionB x" and t3: "tidy (view e3)" using T assms by auto
        obtain i where H: "tidy (view ?e')" "waiting (view ?e') = (waiting (view e3))(SessionA x := None, SessionB x := None)"
            "sent ?e' = sent e3 @ match_msgs i x"
          unfolding h using handleMatch_reliable [OF t3 ne] by metis
        have "(waiting (view e))(sid := None, SessionB x := None) = waiting (view e) |` (- {sid, SessionB x})"
          by (auto simp: restrict_map_def)
        then have "dismissed [sid, SessionB x] (view e) (sent e) (view ?e') (sent ?e')"
          using H x T \<open>waiting (view e) sid = Some en\<close> by (auto simp: dismissed_def match_msgs_def)
        with H(1) show ?thesis by blast
      qed
    qed
  qed
  then show "\<exists>us. dismissed us (view e) (sent e) (view ?e') (sent ?e')" "tidy (view ?e')" by auto
qed

lemma fold_dismissed:
  "tidy (view e) \<Longrightarrow> \<exists>us. dismissed us (view e) (sent e) (view (fold (process_user E ord) sids e)) (sent (fold (process_user E ord) sids e)) \<and>
     tidy (view (fold (process_user E ord) sids e))"
proof (induction sids arbitrary: e)
  case Nil
  then show ?case using dismissed_none by auto
next
  case (Cons sid sids)
  note p = process_user_dismissed [OF Cons.prems, of sid]
  obtain us where us: "dismissed us (view e) (sent e) (view (process_user E ord sid e)) (sent (process_user E ord sid e))" using p(1) by blast
  from Cons.IH [OF p(2)] dismissed_trans [OF us] show ?case by (metis fold_simps(2))
qed

end

section \<open>Finding a partner in time\<close>

text \<open>Who may be paired with a user who has waited for the time \<open>w\<close>.\<close>

definition eligible :: "Duration \<Rightarrow> QueueEntry \<Rightarrow> QueueEntry \<Rightarrow> bool" where
  "eligible w a b \<longleftrightarrow> Hash b = Hash a \<or> 10 * Second \<le> w \<and> common a b \<noteq> {} \<or> 25 * Second \<le> w"

lemma sharing_iff:
  assumes "coherent ks"
  shows "sharing ks sid (Interests a) c \<longleftrightarrow> c \<noteq> sid \<and> (\<exists>b. waiting ks c = Some b \<and> common a b \<noteq> {})"
  using coherentD(5,6) [OF assms, of c] by (cases "waiting ks c") (auto simp: filter_empty_conv)

context reliable_match_world
begin

lemma found_Inr: "found (Inr x, e) = (x, e)"
  by (simp add: found_def)

lemma try_tiers_complete:
  assumes "tidy (view e)" "waiting (view e) sid = Some a" "try_tiers E ord w sid e = (m, e')"
  shows "case m of
       None \<Rightarrow> \<forall>c b. c \<noteq> sid \<longrightarrow> waiting (view e) c = Some b \<longrightarrow> \<not> eligible w a b
     | Some x \<Rightarrow> SessionA x = sid \<and> SessionB x \<noteq> sid \<and> (\<exists>b. waiting (view e) (SessionB x) = Some b \<and> eligible w a b)"
proof -
  let ?R = "env_redis E" and ?ks = "view e"
  have c: "coherent ?ks" "wf_keyspace ?ks" "schema_ok ?ks" using assms(1) by (simp_all add: tidy_def coherent_def)
  note q = coherentD(2) [OF c(1)]
  obtain m1 e1 where 1: "TryExactMatch ?R sid e = (Inr m1, e1)" "view e1 = ?ks"
    and x1: "case m1 of None \<Rightarrow> \<forall>c \<in> set_at ?ks (keyExactPrefix @ Hash a) - {sid}. \<not> queued ?ks c
       | Some x \<Rightarrow> SessionA x = sid \<and> SessionB x \<in> set_at ?ks (keyExactPrefix @ Hash a) - {sid} \<and> queued ?ks (SessionB x) \<and>
           SharedInterests x = Interests a"
    using rm.exact_spec [OF c(3,2) assms(2)] by blast
  obtain m2 e2 where 2: "TryOverlapMatch ?R ord sid e1 = (Inr m2, e2)" "view e2 = ?ks"
    and x2: "case m2 of None \<Rightarrow> \<forall>c. sharing ?ks sid (Interests a) c \<longrightarrow> \<not> queued ?ks c
       | Some x \<Rightarrow> SessionA x = sid \<and> sharing ?ks sid (Interests a) (SessionB x) \<and> queued ?ks (SessionB x)"
    using rm.overlap_spec [of e1 sid a] c assms(2) 1(2) by (fastforce split: option.splits)
  have single: "\<exists>m3 e3. TrySingleInterestMatch ?R ord sid e0 = (Inr m3, e3) \<and> view e3 = ?ks \<and>
      (case m3 of None \<Rightarrow> True | Some x \<Rightarrow> SessionA x = sid \<and> sharing ?ks sid (Interests a) (SessionB x) \<and> queued ?ks (SessionB x))"
    if "view e0 = ?ks" for e0
    using rm.single_spec [of e0 sid a] c assms(2) that by (fastforce split: option.splits)
  have random: "\<exists>m4 e4. TryRandomMatch ?R sid e0 = (Inr m4, e4) \<and>
      (case m4 of None \<Rightarrow> \<forall>c. c \<noteq> sid \<longrightarrow> \<not> queued ?ks c
       | Some x \<Rightarrow> SessionA x = sid \<and> SessionB x \<noteq> sid \<and> queued ?ks (SessionB x))"
    if "view e0 = ?ks" for e0
    using rm.random_spec [of e0 sid] c that by (fastforce split: option.splits)
  have exact: "x \<in> set_at ?ks (keyExactPrefix @ Hash a) \<longleftrightarrow> (\<exists>b. waiting ?ks x = Some b \<and> Hash b = Hash a)" for x
    by (rule coherentD(4) [OF c(1)])
  note sh = sharing_iff [OF c(1)]
  show ?thesis
  proof (cases m1)
    case (Some x)
    then have "m = Some x" using assms(3) 1 by (simp add: try_tiers_def found_Inr)
    with Some x1 exact show ?thesis by (auto simp: eligible_def)
  next
    case None
    have n1: "Hash b \<noteq> Hash a" if "c \<noteq> sid" "waiting ?ks c = Some b" for c b
      using x1 None exact q [of c] that by auto
    show ?thesis
    proof (cases "10 * Second \<le> w")
      case False
      then have "m = None" using assms(3) 1 None by (simp add: try_tiers_def found_Inr wait_defs)
      with n1 False show ?thesis by (auto simp: eligible_def)
    next
      case True
      show ?thesis
      proof (cases m2)
        case (Some x)
        then have "m = Some x" using assms(3) 1 2 None True by (simp add: try_tiers_def found_Inr wait_defs)
        with Some x2 sh True show ?thesis by (auto simp: eligible_def)
      next
        case n2: None
        have no: "common a b = {}" if "c \<noteq> sid" "waiting ?ks c = Some b" for c b
          using x2 n2 sh [of c sid a] q [of c] that by auto
        obtain e3 where 3: "(if tier2MaxWait \<le> w then found (TrySingleInterestMatch ?R ord sid e2) else (None, e2)) = (None, e3)"
            "view e3 = ?ks"
        proof (cases "tier2MaxWait \<le> w")
          case True
          obtain m3 e3 where 3: "TrySingleInterestMatch ?R ord sid e2 = (Inr m3, e3)" "view e3 = ?ks"
              "case m3 of None \<Rightarrow> True | Some x \<Rightarrow> SessionA x = sid \<and> sharing ?ks sid (Interests a) (SessionB x) \<and> queued ?ks (SessionB x)"
            using single [OF 2(2)] by blast
          have "m3 = None" using 3(3) x2 n2 by (auto split: option.splits)
          with 3 True that show thesis by (simp add: found_Inr)
        qed (use 2(2) that in simp)
        have "(if tier3MaxWait \<le> w then found (TryRandomMatch ?R sid e3) else (None, e3)) = (m, e')"
          using assms(3) 1 2 3 None n2 True by (simp add: try_tiers_def found_Inr wait_defs split: if_splits)
        with random [OF 3(2)] n1 no q True show ?thesis
          by (auto simp: eligible_def wait_defs found_Inr split: option.splits if_splits)
      qed
    qed
  qed
qed

end

section \<open>What the cleanup does\<close>

text \<open>The notifications for a chat whose deadline has passed.\<close>

definition notices :: "keyspace \<Rightarrow> string \<Rightarrow> (string \<times> string) list" where
  "notices ks c =
     (let h = hash_at ks (ChatPrefix @ c);
          notice = (\<lambda>u. (SubjectMatchNotify @ ''.'' @ u, marshal_MatchNotification \<lparr>not_Type = ''timed_out'', not_ChatID = c\<rparr>))
      in if field h ''status'' = ''pending_accept''
         then map notice (filter (\<lambda>u. u \<noteq> []) [field h ''user_a'', field h ''user_b'']) else [])"

definition due :: "keyspace \<Rightarrow> int \<Rightarrow> string set" where
  "due ks now = {c. \<exists>sc. zset_at ks PendingKey c = Some sc \<and> 0 \<le> sc \<and> sc \<le> now}"

context reliable_redis
begin

lemma HGET_field:
  assumes "schema_ok (view s)" "app_kind k = Some KHash"
  shows "or_empty (string_result (fst (exec (HGET k g) s))) = field (hash_at (view s) k) g" "view (snd (exec (HGET k g) s)) = view s"
proof -
  have k: "kind_ok (view s) k KHash" using assms by (simp add: schema_okD)
  have "\<not> is_err (answer (HGET k g) (view s))" by (rule fits_answered [OF assms(1)]) (simp_all add: fits_def assms(2))
  then obtain r s' where r: "exec (HGET k g) s = (r, s')" "reply_ok (HGET k g) (view s) r" "view s' = effect (HGET k g) (view s)"
    by (rule answers)
  with read_replies(2) [OF k, of g] show "or_empty (string_result (fst (exec (HGET k g) s))) = field (hash_at (view s) k) g"
    by (auto simp: or_empty_def field_def split: option.splits)
  from r show "view (snd (exec (HGET k g) s)) = view s" by simp
qed

lemma write_view:
  assumes "fits c" "schema_ok (view s)" "\<not> reads c" "\<And>k. c \<noteq> INCR k"
  shows "view (snd (exec c s)) = effect c (view s)"
  using write_answered [OF assms] by (metis snd_conv)

end

context reliable_world
begin

lemma Notify_reliable:
  "view (snd (PublishMatchNotify E u d e)) = view e"
  "sent (snd (PublishMatchNotify E u d e)) = sent e @ [(SubjectMatchNotify @ ''.'' @ u, d)]"
  unfolding PublishMatchNotify_def by (metis Publish_reliable snd_conv)+

lemma clean_chat_reliable:
  assumes "schema_ok (view e)"
  shows "view (clean_chat E c e) = effect (ZREM PendingKey c)
           (if field (hash_at (view e) (ChatPrefix @ c)) ''status'' = ''pending_accept'' then effect (DEL (ChatPrefix @ c)) (view e) else view e)"
    and "sent (clean_chat E c e) = sent e @ notices (view e) c"
proof -
  note lit = ChatPrefix_def [symmetric] PendingKey_def [symmetric]
  let ?h = "hash_at (view e) (ChatPrefix @ c)"
  note H = rr.HGET_field [of _ "ChatPrefix @ c"]
  have fits: "fits (ZREM PendingKey c)" "fits (DEL (ChatPrefix @ c))" by (simp_all add: fits_def)
  have w: "schema_ok (view e0) \<Longrightarrow> view (snd (env_redis E (ZREM PendingKey c) e0)) = effect (ZREM PendingKey c) (view e0)"
    "schema_ok (view e0) \<Longrightarrow> view (snd (env_redis E (DEL (ChatPrefix @ c)) e0)) = effect (DEL (ChatPrefix @ c)) (view e0)" for e0
    using rr.write_view [OF fits(1), of e0] rr.write_view [OF fits(2), of e0] by simp_all
  have "schema_ok (effect (DEL (ChatPrefix @ c)) (view e))" using assms fits by (intro schema_ok_effect)
  then show "view (clean_chat E c e) = effect (ZREM PendingKey c)
      (if field ?h ''status'' = ''pending_accept'' then effect (DEL (ChatPrefix @ c)) (view e) else view e)"
    by (simp add: clean_chat_def Let_def case_prod_beta lit H w assms Notify_reliable del: effect.simps append.simps)
  show "sent (clean_chat E c e) = sent e @ notices (view e) c"
    by (simp add: clean_chat_def Let_def case_prod_beta lit H w assms Notify_reliable notices_def world_simps del: effect.simps append.simps)
qed

end

text \<open>The chats and the set of pending ones after a round of cleanup.\<close>

definition swept :: "string set \<Rightarrow> keyspace \<Rightarrow> keyspace \<Rightarrow> bool" where
  "swept C ks ks' \<longleftrightarrow>
     zset_at ks' PendingKey = zset_at ks PendingKey |` (- C) \<and>
     (\<forall>c. ks' (ChatPrefix @ c) =
        (if c \<in> C \<and> field (hash_at ks (ChatPrefix @ c)) ''status'' = ''pending_accept'' then None else ks (ChatPrefix @ c)))"

lemma swept_none: "swept {} ks ks"
  by (simp add: swept_def restrict_map_def)

lemma zrem_del_effect:
  assumes "schema_ok ks" "ks' = effect (ZREM PendingKey c) (if b then effect (DEL (ChatPrefix @ c)) ks else ks)"
  shows "zset_at ks' PendingKey = (zset_at ks PendingKey)(c := None)" "schema_ok ks'"
    "ks' (ChatPrefix @ c') = (if b \<and> c' = c then None else ks (ChatPrefix @ c'))"
proof -
  let ?k1 = "if b then effect (DEL (ChatPrefix @ c)) ks else ks"
  have k1: "schema_ok ?k1" using assms(1) by (auto intro!: schema_ok_effect simp: fits_def simp del: effect.simps)
  then show "schema_ok ks'" unfolding assms(2) by (intro schema_ok_effect) (simp_all add: fits_def)
  have "kind_ok ?k1 PendingKey KZSet" "kind_ok ks (ChatPrefix @ c) KHash" using k1 assms(1) by (simp_all add: schema_okD)
  then show "zset_at ks' PendingKey = (zset_at ks PendingKey)(c := None)"
    unfolding assms(2) by (cases b) (simp_all add: at_effect del: effect.simps)
  have "ks' (ChatPrefix @ c') = ?k1 (ChatPrefix @ c')" unfolding assms(2) by (rule effect_frame [where k = PendingKey]) simp_all
  then show "ks' (ChatPrefix @ c') = (if b \<and> c' = c then None else ks (ChatPrefix @ c'))" by simp
qed

context reliable_world
begin

lemma fold_clean_chat:
  "schema_ok (view e) \<Longrightarrow> distinct cs \<Longrightarrow>
   swept (set cs) (view e) (view (fold (clean_chat E) cs e)) \<and>
   sent (fold (clean_chat E) cs e) = sent e @ concat (map (notices (view e)) cs)"
proof (induction cs arbitrary: e)
  case Nil
  then show ?case by (simp add: swept_none)
next
  case (Cons c cs)
  let ?e1 = "clean_chat E c e"
  note C = clean_chat_reliable [OF Cons.prems(1), of c]
  note Z = zrem_del_effect [OF Cons.prems(1) C(1)]
  have IH: "swept (set cs) (view ?e1) (view (fold (clean_chat E) cs ?e1))"
    "sent (fold (clean_chat E) cs ?e1) = sent ?e1 @ concat (map (notices (view ?e1)) cs)"
    using Cons.IH [OF Z(2)] Cons.prems(2) by simp_all
  have h: "hash_at (view ?e1) (ChatPrefix @ c') = hash_at (view e) (ChatPrefix @ c')" if "c' \<noteq> c" for c'
    using Z(3) [of c'] that by (simp add: hash_at_def)
  have "notices (view ?e1) c' = notices (view e) c'" if "c' \<in> set cs" for c'
  proof -
    from that Cons.prems(2) have "c' \<noteq> c" by auto
    from h [OF this] show ?thesis by (simp only: notices_def)
  qed
  then have n: "map (notices (view ?e1)) cs = map (notices (view e)) cs" by simp
  have "swept (set (c # cs)) (view e) (view (fold (clean_chat E) cs ?e1))"
    unfolding swept_def
  proof (intro conjI allI)
    show "zset_at (view (fold (clean_chat E) cs ?e1)) PendingKey = zset_at (view e) PendingKey |` (- set (c # cs))"
      using IH(1) Z(1) by (auto simp: swept_def restrict_map_def fun_eq_iff)
    show "view (fold (clean_chat E) cs ?e1) (ChatPrefix @ c') =
        (if c' \<in> set (c # cs) \<and> field (hash_at (view e) (ChatPrefix @ c')) ''status'' = ''pending_accept'' then None else view e (ChatPrefix @ c'))" for c'
      using IH(1) Z(3) [of c'] h [of c'] Cons.prems(2) by (cases "c' = c") (simp_all add: swept_def)
  qed
  then show ?case using IH(2) [unfolded n] C(2) by simp
qed

lemma due_reply:
  assumes "schema_ok (view e)" "wf_keyspace (view e)"
  obtains cs e1 where "env_redis E (ZRANGEBYSCORE PendingKey 0 now) e = (RList cs, e1)" "view e1 = view e"
    "distinct cs" "set cs = due (view e) now"
proof -
  let ?c = "ZRANGEBYSCORE PendingKey 0 now" and ?z = "zset_at (view e) PendingKey"
  have k: "kind_ok (view e) PendingKey KZSet" using assms by (simp add: schema_okD)
  have "\<not> is_err (answer ?c (view e))" by (rule fits_answered [OF assms(1)]) (simp_all add: fits_def)
  then obtain r e1 where r: "env_redis E ?c e = (r, e1)" "reply_ok ?c (view e) r" "view e1 = effect ?c (view e)"
    by (rule rr.answers)
  have a: "answer ?c (view e) = RList (zsorted (zbetween 0 now ?z))"
    using k by (auto simp: kind_ok_def zset_at_def zsorted_def zbetween_def split: option.splits rvalue.splits)
  have fin: "finite (dom (zbetween 0 now ?z))"
    using finite_zset_at [OF assms(2), of PendingKey] by (auto simp: zbetween_def elim: rev_finite_subset split: option.splits if_splits)
  have "set (zsorted (zbetween 0 now ?z)) = due (view e) now"
    unfolding set_zsorted [OF fin] by (auto simp: due_def zbetween_def split: option.splits if_splits)
  moreover have "distinct (zsorted (zbetween 0 now ?z))"
    using fin by (auto simp: zsorted_def distinct_map intro!: inj_onI)
  ultimately show thesis using that r a by simp
qed

lemma cleanup_reliable:
  assumes "schema_ok (view e)" "wf_keyspace (view e)"
  shows "swept (due (view e) (Unix E e)) (view e) (view (cleanExpiredPendingChats E e)) \<and>
    (\<exists>cs. distinct cs \<and> set cs = due (view e) (Unix E e) \<and>
      sent (cleanExpiredPendingChats E e) = sent e @ concat (map (notices (view e)) cs))"
proof -
  obtain cs e1 where 1: "env_redis E (ZRANGEBYSCORE PendingKey 0 (Unix E e)) e = (RList cs, e1)" "view e1 = view e"
      "distinct cs" "set cs = due (view e) (Unix E e)"
    by (rule due_reply [OF assms])
  have "cleanExpiredPendingChats E e = fold (clean_chat E) cs e1"
    using 1(1) by (simp add: cleanExpiredPendingChats_def PendingKey_def)
  with fold_clean_chat [of e1 cs] 1 assms(1) sf.redis_step [OF 1(1)] show ?thesis by auto
qed

lemma clean_user_tidy:
  assumes "tidy (view e)"
  shows "tidy (view (clean_user E sid e))"
    "waiting (view (clean_user E sid e)) =
       (if view e (''session:'' @ sid) = None then (waiting (view e))(sid := None) else waiting (view e))"
    "view (clean_user E sid e) (''session:'' @ u) = view e (''session:'' @ u)"
    "sent (clean_user E sid e) = sent e"
proof -
  let ?c = "EXISTS (''session:'' @ sid)"
  have "schema_ok (view e)" using assms by (simp add: tidy_def coherent_def)
  then have "\<not> is_err (answer ?c (view e))" by (rule fits_answered) (simp_all add: fits_def)
  then obtain r e1 where "env_redis E ?c e = (r, e1)" "reply_ok ?c (view e) r" "view e1 = effect ?c (view e)" by (rule rr.answers)
  then have 1: "env_redis E ?c e = (RInt (if view e (''session:'' @ sid) = None then 0 else 1), e1)" "view e1 = view e" by simp_all
  have s1: "sent e1 = sent e" by (rule sf.redis_step [OF 1(1)])
  obtain e2 where 2: "Dequeue (env_redis E) sid e1 = (None, e2)" "tidy (view e2)"
      "waiting (view e2) = (waiting (view e1))(sid := None)" "\<And>k. \<not> match_key k \<Longrightarrow> view e2 k = view e1 k"
    using rr.Dequeue_tidy [of e1 sid] assms 1(2) by metis
  have c: "clean_user E sid e = (if view e (''session:'' @ sid) = None then e2 else e1)"
    using 1(1) 2(1) by (simp add: clean_user_def split: if_splits)
  note u = 2(4) [OF match_key_simps(7)]
  show "tidy (view (clean_user E sid e))" unfolding c using 1(2) 2(2) assms by simp
  show "waiting (view (clean_user E sid e)) =
       (if view e (''session:'' @ sid) = None then (waiting (view e))(sid := None) else waiting (view e))"
    unfolding c using 1(2) 2(3) by simp
  show "view (clean_user E sid e) (''session:'' @ u) = view e (''session:'' @ u)" unfolding c using 1(2) u by simp
  show "sent (clean_user E sid e) = sent e" unfolding c using s1 sf.Dequeue_frame [OF 2(1)] by simp
qed

lemma fold_clean_user:
  "tidy (view e) \<Longrightarrow>
   tidy (view (fold (clean_user E) sids e)) \<and> sent (fold (clean_user E) sids e) = sent e \<and>
   waiting (view (fold (clean_user E) sids e)) = waiting (view e) |` (- {sid \<in> set sids. view e (''session:'' @ sid) = None})"
proof (induction sids arbitrary: e)
  case Nil
  then show ?case by (simp add: restrict_map_def)
next
  case (Cons sid sids)
  note C = clean_user_tidy [OF Cons.prems, of sid]
  note IH = Cons.IH [OF C(1)]
  show ?case using IH C(2-4) by (auto simp: restrict_map_def fun_eq_iff)
qed

end

context reliable_match_world
begin

lemma processQueue_dismissed:
  assumes "tidy (view e)"
  shows "\<exists>us. dismissed us (view e) (sent e) (view (processQueue E ord e)) (sent (processQueue E ord e)) \<and>
    tidy (view (processQueue E ord e))"
proof -
  have "schema_ok (view e)" using assms by (simp add: tidy_def coherent_def)
  then obtain sids e1 where 1: "GetAllQueued (env_redis E) e = (Inr sids, e1)" "view e1 = view e"
    using rr.GetAllQueued_reliable by blast
  have "processQueue E ord e = fold (process_user E ord) sids e1" "sent e1 = sent e"
    using 1(1) sf.queue_frame(4) [OF 1(1)] by (simp_all add: processQueue_def)
  with fold_dismissed [of e1 sids] assms 1(2) show ?thesis by simp
qed

lemma handleMatch_chat:
  assumes "tidy (view e)" "SessionA m \<noteq> SessionB m" "env_uuid E e = (i, e1)" "view e (ChatPrefix @ i) = None"
  shows "tidy (view (handleMatch E m e)) \<and>
    waiting (view (handleMatch E m e)) = (waiting (view e))(SessionA m := None, SessionB m := None) \<and>
    (\<exists>cs. chat_at (view (handleMatch E m e)) i = Some cs \<and> UserA cs = SessionA m \<and> UserB cs = SessionB m \<and>
       Status cs = StatusPendingAccept \<and> \<not> AcceptedA cs \<and> \<not> AcceptedB cs) \<and>
    sent (handleMatch E m e) = sent e @ match_msgs i m"
proof (rule handleMatch_reliable [OF assms(1,2)])
  fix i' e1' e3
  assume H: "env_uuid E e = (i', e1')" "tidy (view (handleMatch E m e))"
    "waiting (view (handleMatch E m e)) = (waiting (view e))(SessionA m := None, SessionB m := None)"
    "sent (handleMatch E m e) = sent e @ match_msgs i' m"
    "view e (ChatPrefix @ i') = None \<Longrightarrow>
       view (handleMatch E m e) (ChatPrefix @ i') = Some (VHash (pending_hash (Unix E e3) (SessionA m) (SessionB m)), Some ChatTTLPending)"
  from H(1) assms(3) have "i' = i" by simp
  with H assms(4) pending_chat(2) [of "view (handleMatch E m e)" i] show ?thesis by auto
qed

lemma stale_reliable:
  assumes "tidy (view e)"
  shows "tidy (view (cleanStaleEntries E e)) \<and> sent (cleanStaleEntries E e) = sent e \<and>
    waiting (view (cleanStaleEntries E e)) = waiting (view e) |` {sid. view e (''session:'' @ sid) \<noteq> None}"
proof -
  have c: "coherent (view e)" "wf_keyspace (view e)" "schema_ok (view e)" using assms by (simp_all add: tidy_def coherent_def)
  obtain e1 where 1: "GetAllQueued (env_redis E) e = (Inr (zsorted (zset_at (view e) keyMatchQueue)), e1)" "view e1 = view e"
    using rr.GetAllQueued_reliable [OF c(3)] by blast
  have "set (zsorted (zset_at (view e) keyMatchQueue)) = dom (waiting (view e))"
    unfolding set_zsorted [OF finite_zset_at [OF c(2)]] by (simp add: dom_def coherentD(7) [OF c(1)])
  moreover have "waiting (view e) |` (- {sid \<in> dom (waiting (view e)). view e (''session:'' @ sid) = None}) =
      waiting (view e) |` {sid. view e (''session:'' @ sid) \<noteq> None}"
    by (auto simp: restrict_map_def fun_eq_iff)
  moreover have "cleanStaleEntries E e = fold (clean_user E) (zsorted (zset_at (view e) keyMatchQueue)) e1" "sent e1 = sent e"
    using 1(1) sf.queue_frame(4) [OF 1(1)] by (simp_all add: cleanStaleEntries_def)
  ultimately show ?thesis using fold_clean_user [of e1] assms 1(2) by simp
qed

end

section \<open>Properties\<close>

text \<open>
  C31.  A pass over the queue notifies exactly the users it removes: on services that answer and
  a queue whose indexes agree, each user who leaves the queue in the pass, matched or timed out, gets one
  message under the subject of that user, nobody gets two, everybody else keeps waiting unchanged, and the
  indexes agree afterwards; in particular nobody is matched twice in a pass.
\<close>

theorem processQueue_pass:
  assumes "reliable_match_world E view active sent ord" and "tidy (view e)"
  shows "\<exists>us. dismissed us (view e) (sent e) (view (processQueue E ord e)) (sent (processQueue E ord e)) \<and>
    tidy (view (processQueue E ord e))"
  by (rule reliable_match_world.processQueue_dismissed [OF assms])

text \<open>A world in which Ann and Bob wait and the clock shows 26 seconds after Ann joined.\<close>

definition waiting_room :: "bool ref_world" where
  "waiting_room = \<lparr>nw_active = [], nw_sent = [], wd_keys = two_users, wd_now = 26001 * Millisecond, wd_next = 7\<rparr>"

lemma tidy_room: "tidy (wd_keys waiting_room)"
  using two_users_ok(1,2) by (simp add: tidy_def waiting_room_def)

theorem processQueue_pass_witness:
  "\<exists>us. dismissed us two_users [] (wd_keys (processQueue env_ref (\<lambda>xs. xs) waiting_room))
     (nw_sent (processQueue env_ref (\<lambda>xs. xs) waiting_room)) \<and> set us \<subseteq> {''ann'', ''bob''}"
proof -
  obtain us where us: "dismissed us two_users [] (wd_keys (processQueue env_ref (\<lambda>xs. xs) waiting_room))
     (nw_sent (processQueue env_ref (\<lambda>xs. xs) waiting_room))"
    using processQueue_pass [OF wrefm.reliable_match_world_axioms tidy_room] by (auto simp: waiting_room_def)
  then have "set us \<subseteq> {''ann'', ''bob''}" by (auto simp: dismissed_def two_users_ok(3) split: if_splits)
  with us show ?thesis by blast
qed

text \<open>
  A match is carried out completely: when the new chat's identifier is unused, both users leave the queue and
  nobody else does, a chat between the two is pending and accepted by neither, and each is told the chat and the
  other, in this order.
\<close>

lemma handleMatch_spec:
  assumes "reliable_match_world E view active sent ord" and "tidy (view e)" and "SessionA m \<noteq> SessionB m"
    and "env_uuid E e = (i, e1)" and "view e (ChatPrefix @ i) = None"
  shows "tidy (view (handleMatch E m e)) \<and>
    waiting (view (handleMatch E m e)) = (waiting (view e))(SessionA m := None, SessionB m := None) \<and>
    (\<exists>cs. chat_at (view (handleMatch E m e)) i = Some cs \<and> UserA cs = SessionA m \<and> UserB cs = SessionB m \<and>
       Status cs = StatusPendingAccept \<and> \<not> AcceptedA cs \<and> \<not> AcceptedB cs) \<and>
    sent (handleMatch E m e) = sent e @ match_msgs i m"
  by (rule reliable_match_world.handleMatch_chat [OF assms])

lemma handleMatch_spec_witness:
  "let w = handleMatch env_ref \<lparr>SessionA = ''ann'', SessionB = ''bob'', SharedInterests = [''go'']\<rparr> waiting_room
   in waiting (wd_keys w) = Map.empty \<and> chat_at (wd_keys w) (show_nat 7) \<noteq> None \<and> length (nw_sent w) = 2"
proof -
  have i: "env_uuid env_ref waiting_room = (show_nat 7, waiting_room\<lparr>wd_next := 8\<rparr>)"
    by (simp add: env_ref_sel waiting_room_def)
  have "fold effect (enqueue_cmds n sid tags) ks (ChatPrefix @ c) = ks (ChatPrefix @ c)" for n sid tags ks c
    by (rule fold_effect_frame) (auto simp: enqueue_cmds_def Let_def key_defs ChatPrefix_def)
  then have "wd_keys waiting_room (ChatPrefix @ show_nat 7) = None" by (simp add: waiting_room_def two_users_def)
  from handleMatch_spec [OF wrefm.reliable_match_world_axioms tidy_room _ i this,
      of "\<lparr>SessionA = ''ann'', SessionB = ''bob'', SharedInterests = [''go'']\<rparr>"]
  show ?thesis by (auto simp: waiting_room_def two_users_ok(3) match_msgs_def)
qed

text \<open>
  C32.  A user is paired as soon as the time waited allows it: the tiers propose nobody only if no other
  waiting user has the same interest hash, nor, after ten seconds, an interest in common, nor, after twenty-five
  seconds, is there anybody else at all; and whoever they propose is waiting and allowed in this sense.  The times are \<open>tier1MaxWait\<close> and \<open>tier3MaxWait\<close> of
  \<open>service.go\<close>; the documents of the repository give others.
\<close>

theorem try_tiers_spec:
  assumes "reliable_match_world E view active sent ord" and "tidy (view e)" and "waiting (view e) sid = Some a"
    and "try_tiers E ord w sid e = (m, e')"
  shows "case m of
       None \<Rightarrow> \<forall>c b. c \<noteq> sid \<longrightarrow> waiting (view e) c = Some b \<longrightarrow> \<not> eligible w a b
     | Some x \<Rightarrow> SessionA x = sid \<and> SessionB x \<noteq> sid \<and> (\<exists>b. waiting (view e) (SessionB x) = Some b \<and> eligible w a b)"
  by (rule reliable_match_world.try_tiers_complete [OF assms])

theorem try_tiers_spec_witness:
  "\<exists>x w'. try_tiers env_ref (\<lambda>xs. xs) (12 * Second) ''ann'' waiting_room = (Some x, w') \<and> SessionB x = ''bob''"
proof -
  obtain m w' where t: "try_tiers env_ref (\<lambda>xs. xs) (12 * Second) ''ann'' waiting_room = (m, w')" by fastforce
  let ?a = "new_entry 1 ''ann'' [''go'', ''chess'']" and ?b = "new_entry 2 ''bob'' [''go'', ''tea'']"
  have w: "waiting (wd_keys waiting_room) = [''ann'' \<mapsto> ?a, ''bob'' \<mapsto> ?b]" by (simp add: waiting_room_def two_users_ok(3))
  have el: "eligible (12 * Second) ?a ?b" by (simp add: eligible_def new_entry_def)
  have a: "waiting (wd_keys waiting_room) ''ann'' = Some ?a" by (simp add: w)
  note T = try_tiers_spec [OF wrefm.reliable_match_world_axioms tidy_room a t]
  show ?thesis
  proof (cases m)
    case None
    with T have "\<forall>c b. c \<noteq> ''ann'' \<longrightarrow> waiting (wd_keys waiting_room) c = Some b \<longrightarrow> \<not> eligible (12 * Second) ?a b" by simp
    from this [rule_format, of "''bob''" ?b] el show ?thesis by (simp add: w)
  next
    case (Some x)
    with T t show ?thesis by (auto simp: w split: if_splits)
  qed
qed

text \<open>
  The cleanup removes from the queue exactly the users whose session is gone, and tells nobody.
\<close>

lemma cleanStaleEntries_spec:
  assumes "reliable_match_world E view active sent ord" and "tidy (view e)"
  shows "tidy (view (cleanStaleEntries E e)) \<and> sent (cleanStaleEntries E e) = sent e \<and>
    waiting (view (cleanStaleEntries E e)) = waiting (view e) |` {sid. view e (''session:'' @ sid) \<noteq> None}"
  by (rule reliable_match_world.stale_reliable [OF assms])

lemma cleanStaleEntries_spec_witness:
  "waiting (wd_keys (cleanStaleEntries env_ref waiting_room)) = Map.empty"
proof -
  have "fold effect (enqueue_cmds n sid tags) ks (''session:'' @ c) = ks (''session:'' @ c)" for n sid tags ks c
    by (rule fold_effect_frame) (auto simp: enqueue_cmds_def Let_def key_defs)
  then have "wd_keys waiting_room (''session:'' @ sid) = None" for sid by (simp add: waiting_room_def two_users_def)
  with cleanStaleEntries_spec [OF wrefm.reliable_match_world_axioms tidy_room] show ?thesis by simp
qed

text \<open>
  C33.  A proposed chat nobody completed in time goes away: the cleanup takes every chat whose deadline is
  not after the current second out of the set of pending ones; those of them that still wait for an acceptance are
  deleted and their users notified once each; chats that became active, and all others, are left alone.
\<close>

theorem cleanExpiredPendingChats_spec:
  assumes "reliable_match_world E view active sent ord" and "schema_ok (view e)" and "wf_keyspace (view e)"
  shows "swept (due (view e) (Unix E e)) (view e) (view (cleanExpiredPendingChats E e)) \<and>
    (\<exists>cs. distinct cs \<and> set cs = due (view e) (Unix E e) \<and>
      sent (cleanExpiredPendingChats E e) = sent e @ concat (map (notices (view e)) cs))"
  by (rule reliable_world.cleanup_reliable [OF reliable_match_world.axioms(1) [OF assms(1)] assms(2,3)])

text \<open>A minute after the match: the chat \<open>c\<close> between Ann and Bob is still pending.\<close>

definition overdue :: "bool ref_world" where
  "overdue = \<lparr>nw_active = [], nw_sent = [],
     wd_keys = [ChatPrefix @ ''c'' \<mapsto> (VHash (pending_hash 0 ''ann'' ''bob''), None), PendingKey \<mapsto> (VZSet [''c'' \<mapsto> 15], None)],
     wd_now = 60 * Second, wd_next = 0\<rparr>"

lemma overdue_ok: "schema_ok (wd_keys overdue)" "wf_keyspace (wd_keys overdue)" "due (wd_keys overdue) 60 = {''c''}"
proof -
  show "schema_ok (wd_keys overdue)"
    unfolding schema_ok_def
  proof (intro allI impI)
    fix k K assume k: "app_kind k = Some K"
    consider "k = ChatPrefix @ ''c''" | "k = PendingKey" | "k \<noteq> ChatPrefix @ ''c''" "k \<noteq> PendingKey" by blast
    then show "kind_ok (wd_keys overdue) k K"
      using k by cases (simp_all add: kind_ok_def overdue_def)
  qed
  show "wf_keyspace (wd_keys overdue)"
    unfolding overdue_def by (auto simp: wf_keyspace_def pending_hash_def split: if_splits)
  show "due (wd_keys overdue) 60 = {''c''}" by (auto simp: due_def overdue_def zset_at_def split: if_splits)
qed

theorem cleanExpiredPendingChats_spec_witness:
  "wd_keys (cleanExpiredPendingChats env_ref overdue) (ChatPrefix @ ''c'') = None \<and>
   map fst (nw_sent (cleanExpiredPendingChats env_ref overdue)) = [''match.notify.ann'', ''match.notify.bob'']"
proof -
  have now: "Unix env_ref overdue = 60" by (simp add: Unix_def env_ref_sel overdue_def)
  have h: "hash_at (wd_keys overdue) (ChatPrefix @ ''c'') = pending_hash 0 ''ann'' ''bob''" by (simp add: hash_at_def overdue_def)
  have f: "field (pending_hash 0 ''ann'' ''bob'') ''status'' = ''pending_accept''"
    "field (pending_hash 0 ''ann'' ''bob'') ''user_a'' = ''ann''" "field (pending_hash 0 ''ann'' ''bob'') ''user_b'' = ''bob''"
    by (simp_all add: pending_hash_def)
  note C = cleanExpiredPendingChats_spec [OF wrefm.reliable_match_world_axioms overdue_ok(1,2), unfolded now overdue_ok(3)]
  then obtain cs where cs: "distinct cs" "set cs = {''c''}"
      "nw_sent (cleanExpiredPendingChats env_ref overdue) = nw_sent overdue @ concat (map (notices (wd_keys overdue)) cs)" by blast
  have "cs = [''c'']" using cs(1,2) by (cases cs; cases "tl cs") auto
  with cs(3) C show ?thesis
    by (simp add: swept_def h f notices_def SubjectMatchNotify_def) (simp add: overdue_def)
qed

text \<open>
  C34.  Whatever arrives on the request subjects and whatever fails, the service never corrupts the layout
  of the keys: after any sequence of ticks and messages, every key of the application holds a value of its kind.
\<close>

theorem service_keeps_schema:
  assumes "match_world E view active sent ord" and "schema_ok (view e)"
  shows "schema_ok (view (fold (service_exec E ord) events e))"
  using assms(2)
  by (induction events arbitrary: e) (simp_all add: match_world.service_exec_schema [OF assms(1)])

theorem service_keeps_schema_witness:
  "schema_ok (wd_keys (fold (service_exec env_ref (\<lambda>xs. xs)) [Deliver HandleMatchRequest ''junk'', MatchTick, CleanupTick] waiting_room))"
proof (rule service_keeps_schema [OF wrefm.mw.match_world_axioms])
  show "schema_ok (wd_keys waiting_room)" using tidy_room by (simp add: tidy_def coherent_def)
qed

end
