(* ===== verification/Window_Counter.thy ===== *)
theory Window_Counter
  imports Redis
begin

text \<open>
  The pattern the ban store and the rate limiter share: a Redis counter that is incremented on
  every request and given a time to live on the first one (\<open>INCR\<close>, then \<open>EXPIRE\<close> when the
  count is 1).  The locale \<open>window_counter\<close> states what one request promises; its client
  lemmas say what a whole history of requests and pauses does.  Both packages interpret it.
\<close>

section \<open>Reading a counter\<close>

text \<open>The counter at a key: its count and the time it has left.\<close>

definition counter_at :: "keyspace \<Rightarrow> string \<Rightarrow> (int \<times> Duration option) option" where
  "counter_at ks k =
     (case ks k of
        Some (VStr v, t) \<Rightarrow> (case counter v of Some n \<Rightarrow> Some (n, t) | None \<Rightarrow> None)
      | _ \<Rightarrow> None)"

definition count_at :: "keyspace \<Rightarrow> string \<Rightarrow> int" where
  "count_at ks k = (case counter_at ks k of None \<Rightarrow> 0 | Some (n, _) \<Rightarrow> n)"

text \<open>The key holds a counter or nothing.\<close>

definition counter_typed :: "keyspace \<Rightarrow> string \<Rightarrow> bool" where
  "counter_typed ks k \<longleftrightarrow> ks k = None \<or> counter_at ks k \<noteq> None"

lemma counter_at_None [simp]: "ks k = None \<Longrightarrow> counter_at ks k = None"
  by (simp add: counter_at_def)

lemma counter_at_SomeD:
  "counter_at ks k = Some (n, t) \<Longrightarrow> ks k = Some (VStr (show_int n), t) \<and> n < 2 ^ 63 - 1"
  by (auto simp: counter_at_def counter_def split: option.splits rvalue.splits if_splits)

lemma counter_at_Some [simp]:
  "ks k = Some (VStr (show_int n), t) \<Longrightarrow> n < 2 ^ 63 - 1 \<Longrightarrow> counter_at ks k = Some (n, t)"
  by (simp add: counter_at_def)

lemma counter_at_cong: "ks k = ks' k \<Longrightarrow> counter_at ks k = counter_at ks' k"
  by (simp add: counter_at_def)

lemma counter_at_advance:
  assumes "counter_typed ks k"
  shows "counter_at (advance d ks) k =
    (case counter_at ks k of
       None \<Rightarrow> None
     | Some (n, None) \<Rightarrow> Some (n, None)
     | Some (n, Some t) \<Rightarrow> if t \<le> d then None else Some (n, Some (t - d)))"
  using assms
  by (auto simp: advance_def counter_at_def split: option.splits rvalue.splits)

lemma counter_typed_advance: "counter_typed ks k \<Longrightarrow> counter_typed (advance d ks) k"
  by (auto simp: counter_typed_def advance_def counter_at_def split: option.splits rvalue.splits if_splits)

context redis_server
begin

lemma incr_fresh:
  assumes "exec (INCR k) s = (RInt n, s')" "view s k = None"
  shows "n = 1" "view s' k = Some (VStr (show_int 1), None)"
  using answered [OF assms(1)] assms(2) by simp_all

lemma incr_live:
  assumes "exec (INCR k) s = (RInt n, s')" "view s k \<noteq> None"
  shows "\<exists>m t. counter_at (view s) k = Some (m, t) \<and> n = m + 1 \<and> view s' k = Some (VStr (show_int n), t)"
  using answered [OF assms(1)] assms(2)
  by (auto simp: counter_at_def wrongtype_def split: option.splits rvalue.splits)

lemma incr_count: "exec (INCR k) s = (RInt n, s') \<Longrightarrow> n = count_at (view s) k + 1"
  using answered [of "INCR k" s "RInt n" s']
  by (auto simp: count_at_def counter_at_def wrongtype_def split: option.splits rvalue.splits)

end

text \<open>
  An open window: a count from 1 on, with a time to live.  \<open>windowed\<close> is the invariant of the
  key while no \<open>EXPIRE\<close> is lost.
\<close>

definition window_at :: "keyspace \<Rightarrow> string \<Rightarrow> (int \<times> Duration) option" where
  "window_at ks k = (case counter_at ks k of Some (n, Some t) \<Rightarrow> Some (n, t) | _ \<Rightarrow> None)"

definition windowed :: "keyspace \<Rightarrow> string \<Rightarrow> bool" where
  "windowed ks k \<longleftrightarrow> ks k = None \<or> (\<exists>n t. counter_at ks k = Some (n, Some t) \<and> 1 \<le> n)"

lemma windowed_typed: "windowed ks k \<Longrightarrow> counter_typed ks k"
  by (auto simp: windowed_def counter_typed_def)

lemma window_at_None: "windowed ks k \<Longrightarrow> window_at ks k = None \<longleftrightarrow> ks k = None"
  by (auto simp: windowed_def window_at_def)

lemma window_at_Some: "window_at ks k = Some (n, t) \<longleftrightarrow> counter_at ks k = Some (n, Some t)"
  by (auto simp: window_at_def split: option.splits)

lemma window_at_advance:
  "windowed ks k \<Longrightarrow> window_at (advance d ks) k =
    (case window_at ks k of None \<Rightarrow> None | Some (n, t) \<Rightarrow> if t \<le> d then None else Some (n, t - d))"
  by (auto simp: window_at_def counter_at_advance [OF windowed_typed] windowed_def split: option.splits)

lemma windowed_advance: "windowed ks k \<Longrightarrow> windowed (advance d ks) k"
  by (auto simp: windowed_def advance_def counter_at_def counter_def
           split: option.splits rvalue.splits if_splits)

context redis_server
begin

text \<open>The two commands of a request, when both are answered.\<close>

lemma bump:
  assumes "exec (INCR k) s = (RInt n, s1)" "0 < W"
    and "(if n = 1 then (let (r2, s2) = exec (EXPIRE k W) s1 in (err_result r2, s2)) else (None, s1)) = (None, s2)"
  shows "n = count_at (view s) k + 1"
    and "view s2 = (view s)(k \<mapsto> (VStr (show_int n), if n = 1 then Some W else ttl_of (view s) k))"
proof -
  show "n = count_at (view s) k + 1" by (rule incr_count [OF assms(1)])
  have s1: "view s1 = (view s)(k \<mapsto> (VStr (show_int n), ttl_of (view s) k))"
    using answered [OF assms(1)]
    by (auto simp: ttl_of_def wrongtype_def split: option.splits rvalue.splits)
  show "view s2 = (view s)(k \<mapsto> (VStr (show_int n), if n = 1 then Some W else ttl_of (view s) k))"
  proof (cases "n = 1")
    case True
    then obtain r2 where "exec (EXPIRE k W) s1 = (r2, s2)" "err_result r2 = None"
      using assms(3) by (auto split: prod.splits)
    with answered(2) [OF _ err_result_NoneD, of "EXPIRE k W" s1 r2 s2] s1 assms(2) True
    show ?thesis by simp
  next
    case False
    with assms(3) s1 show ?thesis by simp
  qed
qed

end

context reliable_redis
begin

lemma incr_answered:
  assumes "counter_typed (view s) k"
  obtains n s1 where "exec (INCR k) s = (RInt n, s1)" "view s1 k \<noteq> None"
proof -
  have "\<not> is_err (answer (INCR k) (view s))"
    using assms by (auto simp: counter_typed_def counter_at_def split: option.splits rvalue.splits)
  then obtain r s1 where e: "exec (INCR k) s = (r, s1)" "reply_ok (INCR k) (view s) r"
      "view s1 = effect (INCR k) (view s)"
    by (rule answers)
  with assms obtain n where "r = RInt n"
    by (auto simp: counter_typed_def counter_at_def split: option.splits rvalue.splits)
  with e incr_reply(3) [of k s n s1] show thesis by (intro that [of n s1]) auto
qed

lemma expire_answered:
  obtains r s1 where "exec (EXPIRE k d) s = (r, s1)" "err_result r = None"
    "view s1 = effect (EXPIRE k d) (view s)"
proof (rule answers [of "EXPIRE k d" s])
  fix r s1
  assume "exec (EXPIRE k d) s = (r, s1)" "reply_ok (EXPIRE k d) (view s) r" "view s1 = effect (EXPIRE k d) (view s)"
  then show thesis by (intro that [of r s1]) simp_all
qed simp

end

section \<open>Histories of requests\<close>

datatype event = Hit | Wait Duration

fun run :: "('s \<Rightarrow> 'o \<times> 's) \<Rightarrow> (Duration \<Rightarrow> 's \<Rightarrow> 's) \<Rightarrow> event list \<Rightarrow> 's \<Rightarrow> 'o list \<times> 's" where
  "run hit wait [] s = ([], s)"
| "run hit wait (Hit # es) s =
     (let (x, s1) = hit s; (xs, s2) = run hit wait es s1 in (x # xs, s2))"
| "run hit wait (Wait d # es) s = run hit wait es (wait d s)"

fun hits :: "event list \<Rightarrow> nat" where
  "hits [] = 0"
| "hits (Hit # es) = Suc (hits es)"
| "hits (Wait d # es) = hits es"

fun elapsed :: "event list \<Rightarrow> Duration" where
  "elapsed [] = 0"
| "elapsed (Hit # es) = elapsed es"
| "elapsed (Wait d # es) = max 0 d + elapsed es"

fun forward :: "event list \<Rightarrow> bool" where
  "forward [] = True"
| "forward (Hit # es) = forward es"
| "forward (Wait d # es) = (0 \<le> d \<and> forward es)"

lemma elapsed_nonneg [simp]: "0 \<le> elapsed es"
  by (induction es rule: elapsed.induct) auto

lemma run_append: "run hit wait (es @ fs) s =
    (let (xs, s1) = run hit wait es s; (ys, s2) = run hit wait fs s1 in (xs @ ys, s2))"
proof (induction es arbitrary: s)
  case Nil
  then show ?case by (simp add: case_prod_beta)
next
  case (Cons e es)
  then show ?case by (cases e) (simp_all add: case_prod_beta Let_def)
qed

lemma events_simps [simp]:
  "hits (es @ fs) = hits es + hits fs" "elapsed (es @ fs) = elapsed es + elapsed fs" "forward (es @ fs) \<longleftrightarrow> forward es \<and> forward fs"
  "hits (replicate n Hit) = n" "elapsed (replicate n Hit) = 0" "forward (replicate n Hit)"
proof -
  show "hits (es @ fs) = hits es + hits fs" "elapsed (es @ fs) = elapsed es + elapsed fs" "forward (es @ fs) \<longleftrightarrow> forward es \<and> forward fs"
    by (induction es rule: hits.induct) auto
  show "hits (replicate n Hit) = n" "elapsed (replicate n Hit) = 0" "forward (replicate n Hit)"
    by (induction n) auto
qed

locale window_counter =
  fixes hit :: "'s \<Rightarrow> 'o \<times> 's"
    and wait :: "Duration \<Rightarrow> 's \<Rightarrow> 's"
    and win :: "'s \<Rightarrow> (int \<times> Duration) option"
    and inv :: "'s \<Rightarrow> bool"
    and window :: Duration
    and outcome :: "int \<Rightarrow> 'o"
  assumes hit_fresh: "inv s \<Longrightarrow> win s = None \<Longrightarrow> hit s = (x, s') \<Longrightarrow>
      x = outcome 1 \<and> win s' = Some (1, window) \<and> inv s'"
    and hit_live: "inv s \<Longrightarrow> win s = Some (n, t) \<Longrightarrow> n < 2 ^ 62 \<Longrightarrow> hit s = (x, s') \<Longrightarrow>
      x = outcome (n + 1) \<and> win s' = Some (n + 1, t) \<and> inv s'"
    and wait_inv: "inv s \<Longrightarrow> inv (wait d s)"
    and wait_win: "inv s \<Longrightarrow> win (wait d s) =
      (case win s of None \<Rightarrow> None | Some (n, t) \<Rightarrow> if t \<le> d then None else Some (n, t - d))"
begin

text \<open>While the window lasts, the requests are numbered consecutively.\<close>

lemma run_live:
  assumes "inv s" "win s = Some (n, t)" "forward es" "elapsed es < t" "n + int (hits es) < 2 ^ 62"
    and "run hit wait es s = (xs, s')"
  shows "xs = map (\<lambda>i. outcome (n + int i)) [1..<Suc (hits es)] \<and>
         win s' = Some (n + int (hits es), t - elapsed es) \<and> inv s'"
  using assms
proof (induction es arbitrary: s n t xs)
  case Nil
  then show ?case by simp
next
  case (Cons e es)
  show ?case
  proof (cases e)
    case Hit
    obtain x s1 where h: "hit s = (x, s1)" by fastforce
    obtain ys where ys: "run hit wait es s1 = (ys, s')" "xs = x # ys"
      using Cons.prems(6) Hit h by (auto split: prod.splits)
    have 1: "x = outcome (n + 1)" "win s1 = Some (n + 1, t)" "inv s1"
      using hit_live [OF Cons.prems(1,2) _ h] Cons.prems(5) Hit by auto
    have "[1..<Suc (Suc (hits es))] = 1 # map Suc [1..<Suc (hits es)]"
      by (subst map_Suc_upt) (simp add: upt_conv_Cons)
    moreover have "ys = map (\<lambda>i. outcome (n + 1 + int i)) [1..<Suc (hits es)] \<and>
        win s' = Some (n + 1 + int (hits es), t - elapsed es) \<and> inv s'"
      using Cons.IH [OF 1(3,2) _ _ _ ys(1)] Cons.prems(3-5) Hit by simp
    ultimately show ?thesis using Hit ys(2) 1(1) by (simp add: comp_def algebra_simps del: upt_Suc)
  next
    case (Wait d)
    have d: "0 \<le> d" "forward es" "elapsed es < t - d" using Cons.prems(3,4) Wait by auto
    have "d < t" using d(3) elapsed_nonneg [of es] by linarith
    then have "win (wait d s) = Some (n, t - d)"
      using wait_win [OF Cons.prems(1)] Cons.prems(2) by simp
    with Cons.IH [OF wait_inv [OF Cons.prems(1)] this d(2,3) _] Cons.prems(5,6) Wait d(1)
    show ?thesis by (auto simp: algebra_simps)
  qed
qed

text \<open>A window opened by its first request.\<close>

lemma run_window:
  assumes "inv s" "win s = None" "forward es" "elapsed es < window" "int (hits es) + 1 < 2 ^ 62"
    and "run hit wait (Hit # es) s = (xs, s')"
  shows "xs = map (\<lambda>i. outcome (int i)) [1..<hits es + 2]"
    and "win s' = Some (int (hits es) + 1, window - elapsed es)" and "inv s'"
proof -
  obtain x s1 where h: "hit s = (x, s1)" by fastforce
  obtain ys where ys: "run hit wait es s1 = (ys, s')" "xs = x # ys"
    using assms(6) h by (auto split: prod.splits)
  have 1: "x = outcome 1" "win s1 = Some (1, window)" "inv s1"
    using hit_fresh [OF assms(1,2) h] by auto
  have *: "ys = map (\<lambda>i. outcome (1 + int i)) [1..<Suc (hits es)] \<and>
      win s' = Some (1 + int (hits es), window - elapsed es) \<and> inv s'"
    using run_live [OF 1(3,2) assms(3,4) _ ys(1)] assms(5) by simp
  have "[1..<hits es + 2] = 1 # map Suc [1..<Suc (hits es)]"
    by (subst map_Suc_upt) (simp add: upt_conv_Cons)
  with * ys(2) 1(1) show "xs = map (\<lambda>i. outcome (int i)) [1..<hits es + 2]"
    by (simp add: comp_def del: upt_Suc)
  show "win s' = Some (int (hits es) + 1, window - elapsed es)" "inv s'"
    using * by (simp_all add: algebra_simps)
qed

text \<open>A window that has run out is forgotten.\<close>

lemma wait_expires: "inv s \<Longrightarrow> win s = Some (n, t) \<Longrightarrow> t \<le> d \<Longrightarrow> win (wait d s) = None"
  by (simp add: wait_win)

end

end
