(* ===== verification/Ban.thy ===== *)
theory Ban
  imports Window_Counter
begin

text \<open>
  \<open>internal/ban/store.go\<close>: fingerprint bans in Redis.  A ban is the string key
  \<open>ban:<fingerprint>\<close> holding the reason, with the ban's duration as its time to live; the report
  counter is \<open>reports:<fingerprint>\<close>.  Each method is a function of the Redis parameter, its
  arguments and the state; a Go result tuple with an \<open>error\<close> is an \<open>error + _\<close> (the other
  components are zero when the error is not nil).
\<close>

section \<open>The store\<close>

definition BanPrefix :: string where "BanPrefix = ''ban:''"
definition ReportsPrefix :: string where "ReportsPrefix = ''reports:''"
definition Ban15Min :: Duration where "Ban15Min = 15 * Minute"
definition Ban1Hour :: Duration where "Ban1Hour = 1 * Hour"
definition Ban24Hour :: Duration where "Ban24Hour = 24 * Hour"
definition ReportsTTL :: Duration where "ReportsTTL = 24 * Hour"
definition AutoBanThreshold :: int where "AutoBanThreshold = 3"

lemmas ban_consts = Ban15Min_def Ban1Hour_def Ban24Hour_def ReportsTTL_def AutoBanThreshold_def

definition IsBanned :: "'r redis \<Rightarrow> string \<Rightarrow> 'r \<Rightarrow> (bool \<times> int \<times> string) result \<times> 'r" where
  "IsBanned R fingerprint s =
     (let key = BanPrefix @ fingerprint;
          (r, s1) = R (GET key) s
      in case string_result r of
           Inl e \<Rightarrow> if e = ErrNil then (Inr (False, 0, []), s1) else (Inl e, s1)
         | Inr reason \<Rightarrow>
             (let (r2, s2) = R (TTL key) s1
              in case dur_result r2 of
                   Inl _ \<Rightarrow> (Inr (True, 0, reason), s2)
                 | Inr ttl \<Rightarrow>
                     (let remaining = (if ttl > 0 then whole_seconds ttl else 0)
                      in (Inr (True, remaining, reason), s2))))"

definition Ban :: "'r redis \<Rightarrow> string \<Rightarrow> Duration \<Rightarrow> string \<Rightarrow> 'r \<Rightarrow> error option \<times> 'r" where
  "Ban R fingerprint duration reason s =
     (let key = BanPrefix @ fingerprint;
          (r, s1) = R (SET key reason duration) s
      in (err_result r, s1))"

definition Unban :: "'r redis \<Rightarrow> string \<Rightarrow> 'r \<Rightarrow> error option \<times> 'r" where
  "Unban R fingerprint s =
     (let key = BanPrefix @ fingerprint;
          (r, s1) = R (DEL key) s
      in (err_result r, s1))"

definition escalationDuration :: "int \<Rightarrow> Duration" where
  "escalationDuration offenseCount =
     (if offenseCount \<le> 1 then Ban15Min
      else if offenseCount = 2 then Ban1Hour
      else Ban24Hour)"

definition GetOffenseCount :: "'r redis \<Rightarrow> string \<Rightarrow> 'r \<Rightarrow> int result \<times> 'r" where
  "GetOffenseCount R fingerprint s =
     (let key = ReportsPrefix @ fingerprint;
          (r, s1) = R (GET key) s
      in case atoi_result r of
           Inl e \<Rightarrow> if e = ErrNil then (Inr 0, s1) else (Inl e, s1)
         | Inr val \<Rightarrow> (Inr val, s1))"

definition Escalate :: "'r redis \<Rightarrow> string \<Rightarrow> string \<Rightarrow> 'r \<Rightarrow> Duration result \<times> 'r" where
  "Escalate R fingerprint reason s =
     (let key = ReportsPrefix @ fingerprint;
          (r, s1) = R (INCR key) s
      in case int_result r of
           Inl e \<Rightarrow> (Inl (ErrWrap ''ban: escalate incr'' e), s1)
         | Inr count \<Rightarrow>
             (let (e2, s2) =
                (if count = 1 then (let (r2, s2) = R (EXPIRE key ReportsTTL) s1 in (err_result r2, s2))
                 else (None, s1))
              in case e2 of
                   Some e \<Rightarrow> (Inl (ErrWrap ''ban: escalate expire'' e), s2)
                 | None \<Rightarrow>
                     (let duration = escalationDuration count;
                          (e3, s3) = Ban R fingerprint duration reason s2
                      in case e3 of
                           Some e \<Rightarrow> (Inl (ErrWrap ''ban: escalate ban'' e), s3)
                         | None \<Rightarrow> (Inr duration, s3))))"

definition ReportAndCheck :: "'r redis \<Rightarrow> string \<Rightarrow> string \<Rightarrow> 'r \<Rightarrow> (bool \<times> Duration) result \<times> 'r" where
  "ReportAndCheck R fingerprint reason s =
     (let key = ReportsPrefix @ fingerprint;
          (r, s1) = R (INCR key) s
      in case int_result r of
           Inl e \<Rightarrow> (Inl (ErrWrap ''ban: report incr'' e), s1)
         | Inr count \<Rightarrow>
             (let (e2, s2) =
                (if count = 1 then (let (r2, s2) = R (EXPIRE key ReportsTTL) s1 in (err_result r2, s2))
                 else (None, s1))
              in case e2 of
                   Some e \<Rightarrow> (Inl (ErrWrap ''ban: report expire'' e), s2)
                 | None \<Rightarrow>
                     (if count \<ge> AutoBanThreshold then
                        (let duration = escalationDuration count;
                             (e3, s3) = Ban R fingerprint duration ''multiple_reports'' s2
                         in case e3 of
                              Some e \<Rightarrow> (Inl (ErrWrap ''ban: report ban'' e), s3)
                            | None \<Rightarrow> (Inr (True, duration), s3))
                      else (Inr (False, 0), s2))))"

section \<open>What the keys mean\<close>

text \<open>The abstract state of the store: the report count and the ban of a fingerprint.\<close>

definition reports :: "keyspace \<Rightarrow> string \<Rightarrow> int" where
  "reports ks fp = count_at ks (ReportsPrefix @ fp)"

definition ban_of :: "keyspace \<Rightarrow> string \<Rightarrow> (string \<times> Duration option) option" where
  "ban_of ks fp =
     (case ks (BanPrefix @ fp) of Some (VStr reason, t) \<Rightarrow> Some (reason, t) | _ \<Rightarrow> None)"

lemma ban_keys_distinct [simp]:
  "BanPrefix @ a \<noteq> ReportsPrefix @ b" "ReportsPrefix @ b \<noteq> BanPrefix @ a"
  "BanPrefix \<noteq> ReportsPrefix" "ReportsPrefix \<noteq> BanPrefix"
  by (simp_all add: BanPrefix_def ReportsPrefix_def)

lemma escalation_pos [simp]: "0 < escalationDuration n"
  by (simp add: escalationDuration_def ban_consts)

context redis_server
begin

lemma Ban_ok:
  assumes "Ban exec fp d reason s = (None, s')"
  shows "view s' = effect (SET (BanPrefix @ fp) reason d) (view s)"
proof -
  obtain r where "exec (SET (BanPrefix @ fp) reason d) s = (r, s')" "err_result r = None"
    using assms by (auto simp: Ban_def Let_def split: prod.splits)
  then show ?thesis by (simp add: answered(2) err_result_NoneD del: effect.simps)
qed

lemma Ban_frame: "Ban exec fp d reason s = (e, s') \<Longrightarrow> k \<noteq> BanPrefix @ fp \<Longrightarrow> view s' k = view s k"
  by (auto simp: Ban_def Let_def frame split: prod.splits)

end

section \<open>Reports and escalation\<close>

context redis_server
begin

lemma ReportAndCheck_Inr:
  assumes "ReportAndCheck exec fp reason s = (Inr (b, d), s')"
  defines "n \<equiv> reports (view s) fp + 1"
  shows "b \<longleftrightarrow> 3 \<le> n" and "d = (if b then Ban24Hour else 0)"
    and "view s' =
      (let ks = (view s)(ReportsPrefix @ fp \<mapsto>
         (VStr (show_int n), if n = 1 then Some ReportsTTL else ttl_of (view s) (ReportsPrefix @ fp)))
       in if b then ks(BanPrefix @ fp \<mapsto> (VStr ''multiple_reports'', Some Ban24Hour)) else ks)"
proof -
  let ?k = "ReportsPrefix @ fp"
  obtain m s1 where 1: "exec (INCR ?k) s = (RInt m, s1)"
    using assms(1) by (auto simp: ReportAndCheck_def Let_def split: prod.splits sum.splits)
  obtain s2 where 2: "(if m = 1 then (let (r2, s2) = exec (EXPIRE ?k ReportsTTL) s1 in (err_result r2, s2))
      else (None, s1)) = (None, s2)"
    and 3: "if 3 \<le> m then Ban exec fp (escalationDuration m) ''multiple_reports'' s2 = (None, s') \<and>
                           b \<and> d = escalationDuration m
            else s' = s2 \<and> \<not> b \<and> d = 0"
    using assms(1) 1
    by (auto simp: ReportAndCheck_def Let_def AutoBanThreshold_def split: prod.splits sum.splits option.splits if_splits)
  have "0 < ReportsTTL" by (simp add: ban_consts)
  note B = bump [OF 1 this 2]
  have mn: "m = n" using B(1) by (simp add: n_def reports_def)
  have esc: "3 \<le> m \<Longrightarrow> escalationDuration m = Ban24Hour" by (simp add: escalationDuration_def)
  show "b \<longleftrightarrow> 3 \<le> n" "d = (if b then Ban24Hour else 0)"
    using 3 esc mn by (auto split: if_splits)
  show "view s' =
      (let ks = (view s)(?k \<mapsto> (VStr (show_int n), if n = 1 then Some ReportsTTL else ttl_of (view s) ?k))
       in if b then ks(BanPrefix @ fp \<mapsto> (VStr ''multiple_reports'', Some Ban24Hour)) else ks)"
    using 3 esc mn B(2) by (auto simp: Let_def Ban24Hour_def dest: Ban_ok split: if_splits)
qed

lemma Escalate_Inr:
  assumes "Escalate exec fp reason s = (Inr d, s')"
  defines "n \<equiv> reports (view s) fp + 1"
  shows "d = escalationDuration n"
    and "view s' = (view s)
      (ReportsPrefix @ fp \<mapsto> (VStr (show_int n), if n = 1 then Some ReportsTTL else ttl_of (view s) (ReportsPrefix @ fp)),
       BanPrefix @ fp \<mapsto> (VStr reason, Some d))"
proof -
  let ?k = "ReportsPrefix @ fp"
  obtain m s1 where 1: "exec (INCR ?k) s = (RInt m, s1)"
    using assms(1) by (auto simp: Escalate_def Let_def split: prod.splits sum.splits)
  obtain s2 where 2: "(if m = 1 then (let (r2, s2) = exec (EXPIRE ?k ReportsTTL) s1 in (err_result r2, s2))
      else (None, s1)) = (None, s2)"
    and 3: "Ban exec fp d reason s2 = (None, s')" "d = escalationDuration m"
    using assms(1) 1
    by (auto simp: Escalate_def Let_def split: prod.splits sum.splits option.splits if_splits)
  have "0 < ReportsTTL" by (simp add: ban_consts)
  note B = bump [OF 1 this 2]
  have mn: "m = n" using B(1) by (simp add: n_def reports_def)
  show "d = escalationDuration n" using 3(2) mn by simp
  show "view s' = (view s)
      (?k \<mapsto> (VStr (show_int n), if n = 1 then Some ReportsTTL else ttl_of (view s) ?k),
       BanPrefix @ fp \<mapsto> (VStr reason, Some d))"
    using Ban_ok [OF 3(1)] B(2) mn 3(2) by simp
qed

end

text \<open>
  C15.  What \<open>ReportAndCheck\<close> does when it returns no error: the report counter of the fingerprint
  goes up by one (with a 24 hour time to live when it was the first report, its time to live
  untouched otherwise); the fingerprint is banned exactly when this is at least the third report,
  so with every further report of the window again, and then for 24 hours (the architecture document says 1 hour) with the reason \<open>multiple_reports\<close>,
  whatever reason the reporter gave; and nothing else in Redis changes.
\<close>

theorem ReportAndCheck_spec:
  assumes "redis_server R view" and "ReportAndCheck R fp reason s = (Inr (b, d), s')"
    and "n = reports (view s) fp + 1"
  shows "(b \<longleftrightarrow> 3 \<le> n) \<and> d = (if b then Ban24Hour else 0) \<and>
    view s' =
      (let ks = (view s)(ReportsPrefix @ fp \<mapsto>
         (VStr (show_int n), if n = 1 then Some ReportsTTL else ttl_of (view s) (ReportsPrefix @ fp)))
       in if b then ks(BanPrefix @ fp \<mapsto> (VStr ''multiple_reports'', Some Ban24Hour)) else ks)"
  using redis_server.ReportAndCheck_Inr [OF assms(1,2)] unfolding assms(3) by blast

text \<open>The third report within a window, evaluated on the documented semantics.\<close>

definition two_reports :: keyspace where
  "two_reports = [ReportsPrefix @ ''f'' \<mapsto> (VStr (show_int 2), Some Hour)]"

lemma third_report:
  "ReportAndCheck rcall ''f'' ''spam'' two_reports =
     (Inr (True, Ban24Hour),
      two_reports(ReportsPrefix @ ''f'' \<mapsto> (VStr (show_int 3), Some Hour),
        BanPrefix @ ''f'' \<mapsto> (VStr ''multiple_reports'', Some Ban24Hour)))"
  by (simp add: ReportAndCheck_def Ban_def rcall_def two_reports_def ban_consts escalationDuration_def)

theorem ReportAndCheck_spec_witness:
  "\<exists>s'. ReportAndCheck rcall ''f'' ''spam'' two_reports = (Inr (True, Ban24Hour), s') \<and>
     reports two_reports ''f'' + 1 = 3 \<and> ban_of s' ''f'' = Some (''multiple_reports'', Some Ban24Hour)"
proof -
  have n: "reports two_reports ''f'' = 2"
    by (simp add: reports_def count_at_def two_reports_def counter_at_def)
  from ReportAndCheck_spec [OF rref.redis_server_axioms third_report refl] n third_report
  show ?thesis by (auto simp: ban_of_def Let_def)
qed

section \<open>A history of reports\<close>

context reliable_redis
begin

lemma Ban_answered: obtains s' where "Ban exec fp d reason s = (None, s')"
proof -
  obtain r s' where "exec (SET (BanPrefix @ fp) reason d) s = (r, s')" "reply_ok (SET (BanPrefix @ fp) reason d) (view s) r"
    by (rule answers [of "SET (BanPrefix @ fp) reason d" s]) auto
  then show thesis by (intro that [of s']) (simp add: Ban_def)
qed

lemma ReportAndCheck_answered:
  assumes "counter_typed (view s) (ReportsPrefix @ fp)"
  shows "\<exists>b d s'. ReportAndCheck exec fp reason s = (Inr (b, d), s')"
proof -
  let ?k = "ReportsPrefix @ fp"
  obtain n s1 where 1: "exec (INCR ?k) s = (RInt n, s1)" by (rule incr_answered [OF assms])
  obtain r2 t2 where 2: "exec (EXPIRE ?k ReportsTTL) s1 = (r2, t2)" "err_result r2 = None"
    by (rule expire_answered)
  define s2 where "s2 = (if n = 1 then t2 else s1)"
  obtain s3 where "Ban exec fp (escalationDuration n) ''multiple_reports'' s2 = (None, s3)"
    by (rule Ban_answered)
  with 1 2 show ?thesis by (auto simp: ReportAndCheck_def s2_def Let_def split: if_splits)
qed

lemma report_bump:
  assumes "windowed (view s) (ReportsPrefix @ fp)" "ReportAndCheck exec fp reason s = (x, s')"
    and "reports (view s) fp < 2 ^ 62"
  defines "n \<equiv> reports (view s) fp + 1"
  shows "x = Inr (3 \<le> n, if 3 \<le> n then Ban24Hour else 0)"
    and "counter_at (view s') (ReportsPrefix @ fp) =
      Some (n, if n = 1 then Some ReportsTTL else ttl_of (view s) (ReportsPrefix @ fp))"
proof -
  obtain b d t where x: "ReportAndCheck exec fp reason s = (Inr (b, d), t)"
    using ReportAndCheck_answered [OF windowed_typed [OF assms(1)]] by blast
  note R = ReportAndCheck_Inr [OF x, folded n_def]
  from R(1,2) x assms(2) show "x = Inr (3 \<le> n, if 3 \<le> n then Ban24Hour else 0)" by simp
  from R(3) x assms(2) have "view s' (ReportsPrefix @ fp) = Some (VStr (show_int n),
      if n = 1 then Some ReportsTTL else ttl_of (view s) (ReportsPrefix @ fp))"
    by (simp add: Let_def)
  then show "counter_at (view s') (ReportsPrefix @ fp) =
      Some (n, if n = 1 then Some ReportsTTL else ttl_of (view s) (ReportsPrefix @ fp))"
    using assms(3) by (intro counter_at_Some) (auto simp: n_def)
qed

end

sublocale reliable_redis_clock \<subseteq> report_window:
  window_counter "ReportAndCheck exec fp reason" wait "\<lambda>s. window_at (view s) (ReportsPrefix @ fp)"
    "\<lambda>s. windowed (view s) (ReportsPrefix @ fp)" ReportsTTL
    "\<lambda>n. Inr (3 \<le> n, if 3 \<le> n then Ban24Hour else 0)" for fp reason
proof (unfold_locales, goal_cases)
  case (1 s x s')
  then have "view s (ReportsPrefix @ fp) = None" by (simp add: window_at_None)
  then have "reports (view s) fp = 0" by (simp add: reports_def count_at_def)
  with report_bump [OF 1(1,3)] show ?case by (auto simp: windowed_def window_at_def)
next
  case (2 s n t x s')
  then have c: "counter_at (view s) (ReportsPrefix @ fp) = Some (n, Some t)" "1 \<le> n"
    by (auto simp: window_at_Some windowed_def)
  then have "reports (view s) fp = n" "ttl_of (view s) (ReportsPrefix @ fp) = Some t"
    by (auto simp: reports_def count_at_def ttl_of_def dest: counter_at_SomeD)
  with report_bump [OF 2(1,4)] c 2(3) show ?case by (auto simp: windowed_def window_at_def)
qed (auto simp: wait_view window_at_advance windowed_advance)

context reliable_redis_clock
begin

lemmas report_run = report_window.run_window

end

text \<open>
  The automatic ban over a whole history: when the first report against a fingerprint opens
  the 24 hour window, then of the reports that follow before it closes, however they are spaced,
  the first two (this one included) do not ban and every later one does.
\<close>

lemma reports_in_window:
  assumes "reliable_redis_clock R view wait" and "view s (ReportsPrefix @ fp) = None"
    and "forward es" and "elapsed es < ReportsTTL" and "int (hits es) + 1 < 2 ^ 62"
    and "run (ReportAndCheck R fp reason) wait (Hit # es) s = (outcomes, s')"
  shows "outcomes = map (\<lambda>i. Inr (3 \<le> i, if 3 \<le> i then Ban24Hour else 0)) [1..<hits es + 2] \<and>
    reports (view s') fp = int (hits es) + 1"
proof -
  let ?k = "ReportsPrefix @ fp"
  have w: "windowed (view s) ?k" "window_at (view s) ?k = None"
    using assms(2) by (auto simp: windowed_def window_at_def)
  note run = reliable_redis_clock.report_run [OF assms(1) w assms(3-6)]
  show ?thesis
    using run(1) window_at_Some [THEN iffD1, OF run(2)]
    by (auto simp: reports_def count_at_def intro!: map_cong)
qed

lemma reports_in_window_witness:
  "fst (run (ReportAndCheck rcall ''f'' ''spam'') advance [Hit, Wait Hour, Hit, Hit] Map.empty) =
     [Inr (False, 0), Inr (False, 0), Inr (True, Ban24Hour)]"
proof -
  let ?h = "run (ReportAndCheck rcall ''f'' ''spam'') advance [Hit, Wait Hour, Hit, Hit] Map.empty"
  have "elapsed [Wait Hour, Hit, Hit] < ReportsTTL" "forward [Wait Hour, Hit, Hit]"
    "int (hits [Wait Hour, Hit, Hit]) + 1 < 2 ^ 62"
    by (simp_all add: ReportsTTL_def)
  from reports_in_window [OF rclk.reliable_redis_clock_axioms _ this(2,1,3), where s = Map.empty and fp = "''f''"
      and reason = "''spam''" and outcomes = "fst ?h" and s' = "snd ?h"]
  show ?thesis by (simp add: upt_conv_Cons del: run.simps)
qed

section \<open>Bans and the escalation ladder\<close>

context redis_server
begin

lemma IsBanned_absent:
  assumes "view s (BanPrefix @ fp) = None" "IsBanned exec fp s = (Inr x, s')"
  shows "x = (False, 0, [])"
proof -
  obtain r s1 where g: "exec (GET (BanPrefix @ fp)) s = (r, s1)" by fastforce
  have "is_err r \<or> r = RNil" using answered(1) [OF g] assms(1) by auto
  with g assms(2) show ?thesis by (cases r) (auto simp: IsBanned_def)
qed

end

context reliable_redis
begin

lemma IsBanned_answered:
  assumes "view s (BanPrefix @ fp) = Some (VStr reason, Some t)" "0 < t" "IsBanned exec fp s = (x, s')"
  shows "\<exists>rem. x = Inr (True, rem, reason) \<and> \<bar>rem * Second - t\<bar> < Second"
proof -
  let ?k = "BanPrefix @ fp"
  obtain s1 where g: "exec (GET ?k) s = (RBulk reason, s1)" "view s1 = view s"
    by (rule answers [of "GET ?k" s]) (use assms(1) in auto)
  obtain d s2 where d: "exec (TTL ?k) s1 = (RDur d, s2)" "0 \<le> d" "Second dvd d" "\<bar>d - t\<bar> < Second"
    by (rule answers [of "TTL ?k" s1])
       (use assms(1,2) g(2) in \<open>auto simp: ttl_of_def split: reply.splits\<close>)
  obtain q where q: "d = q * Second" using d(3) by (auto simp: dvd_def)
  have "x = Inr (True, q, reason)"
    using assms(3) g(1) d(1,2) q by (auto simp: IsBanned_def whole_seconds_def)
  with d(4) q show ?thesis by simp
qed

lemma IsBanned_free:
  assumes "view s (BanPrefix @ fp) = None" "IsBanned exec fp s = (x, s')"
  shows "x = Inr (False, 0, [])"
proof -
  obtain s1 where g: "exec (GET (BanPrefix @ fp)) s = (RNil, s1)"
    by (rule answers [of "GET (BanPrefix @ fp)" s]) (use assms(1) in auto)
  with assms(2) show ?thesis by (auto simp: IsBanned_def)
qed

end

text \<open>
  C16.  A ban holds for its duration and no longer: after \<open>Ban\<close> with a positive duration,
  \<open>IsBanned\<close> asked \<open>e\<close> later says banned, with the reason given and the remaining time right to
  within a second, as long as \<open>e\<close> is less than the duration, and not banned from then on.
\<close>

theorem ban_lasts_its_duration:
  assumes "reliable_redis_clock R view wait" and "Ban R fp d reason s = (None, s1)" and "0 < d"
    and "0 \<le> e" and "IsBanned R fp (wait e s1) = (x, s2)"
  shows "if e < d then \<exists>rem. x = Inr (True, rem, reason) \<and> \<bar>rem * Second - (d - e)\<bar> < Second
         else x = Inr (False, 0, [])"
proof -
  from assms(1) have rs: "redis_server R view" "reliable_redis R view" "redis_clock R view wait"
    by (simp_all add: reliable_redis_clock_def reliable_redis_def redis_clock_def)
  have b: "view s1 (BanPrefix @ fp) = Some (VStr reason, Some d)"
    using redis_server.Ban_ok [OF rs(1) assms(2)] assms(3) by simp
  show ?thesis
  proof (cases "e < d")
    case True
    with b have "view (wait e s1) (BanPrefix @ fp) = Some (VStr reason, Some (d - e))"
      by (simp add: redis_clock.wait_view [OF rs(3)] advance_alive)
    with reliable_redis.IsBanned_answered [OF rs(2) this _ assms(5)] True show ?thesis by simp
  next
    case False
    with b have "view (wait e s1) (BanPrefix @ fp) = None"
      by (simp add: redis_clock.wait_view [OF rs(3)] advance_expired)
    with reliable_redis.IsBanned_free [OF rs(2) this assms(5)] False show ?thesis by simp
  qed
qed

theorem ban_lasts_its_duration_witness:
  "fst (IsBanned rcall ''f'' (advance Hour (snd (Ban rcall ''f'' Ban15Min ''spam'' Map.empty)))) =
     Inr (False, 0, [])"
proof -
  have "Ban rcall ''f'' Ban15Min ''spam'' Map.empty =
      (None, snd (Ban rcall ''f'' Ban15Min ''spam'' Map.empty))"
    by (simp add: Ban_def rcall_def Let_def)
  from ban_lasts_its_duration [OF rclk.reliable_redis_clock_axioms this _ _ prod.collapse [symmetric], of Hour]
  show ?thesis by (simp add: Ban15Min_def)
qed

text \<open>
  C17.  The escalation ladder: \<open>Escalate\<close> counts the offense and replaces whatever ban the
  fingerprint had by one of 15 minutes for the first offense of a window, an hour for the second
  and 24 hours from the third on, with the reason it is given, and changes nothing else.  The new ban
  can be shorter than the one it replaces.
\<close>

theorem Escalate_spec:
  assumes "redis_server R view" and "Escalate R fp reason s = (Inr d, s')"
    and "n = reports (view s) fp + 1"
  shows "d = (if n \<le> 1 then 15 * Minute else if n = 2 then Hour else 24 * Hour) \<and>
    view s' = (view s)
      (ReportsPrefix @ fp \<mapsto> (VStr (show_int n), if n = 1 then Some (24 * Hour) else ttl_of (view s) (ReportsPrefix @ fp)),
       BanPrefix @ fp \<mapsto> (VStr reason, Some d))"
  using redis_server.Escalate_Inr [OF assms(1,2)] unfolding assms(3)
  by (simp add: escalationDuration_def ban_consts)

theorem Escalate_spec_witness:
  "\<exists>s'. Escalate rcall ''f'' ''multiple_reports'' [BanPrefix @ ''f'' \<mapsto> (VStr ''multiple_reports'', Some (23 * Hour))]
      = (Inr (15 * Minute), s') \<and> ban_of s' ''f'' = Some (''multiple_reports'', Some (15 * Minute))"
proof -
  let ?ks = "[BanPrefix @ ''f'' \<mapsto> (VStr ''multiple_reports'', Some (23 * Hour))] :: keyspace"
  let ?e = "Escalate rcall ''f'' ''multiple_reports'' ?ks"
  have e: "?e = (Inr (15 * Minute), snd ?e)"
    by (simp add: Escalate_def Ban_def rcall_def ban_consts escalationDuration_def)
  from Escalate_spec [OF rref.redis_server_axioms e refl] e show ?thesis
    by (auto simp: ban_of_def)
qed

end
