(* ===== verification/RateLimit.thy ===== *)
theory RateLimit
  imports Window_Counter
begin

text \<open>
  \<open>internal/ratelimit/limiter.go\<close>: the Redis counter behind every throttled action.  \<open>Allow\<close>
  returns the pair of Go's results; it fails open, so an error comes with \<^const>\<open>True\<close>.
\<close>

section \<open>The limiter\<close>

record Rule =
  Key :: string
  Limit :: int
  Window :: Duration

definition RuleMessage :: Rule where
  "RuleMessage = \<lparr>Key = ''rl:msg:'', Limit = 5, Window = 10 * Second\<rparr>"

definition RuleMatch :: Rule where
  "RuleMatch = \<lparr>Key = ''rl:match:'', Limit = 10, Window = 1 * Minute\<rparr>"

definition RuleConnect :: Rule where
  "RuleConnect = \<lparr>Key = ''rl:conn:'', Limit = 5, Window = 1 * Minute\<rparr>"

definition Allow :: "'r redis \<Rightarrow> string \<Rightarrow> Rule \<Rightarrow> 'r \<Rightarrow> (bool \<times> error option) \<times> 'r" where
  "Allow R identifier rule s =
     (let key = Key rule @ identifier;
          (r, s1) = R (INCR key) s
      in case int_result r of
           Inl e \<Rightarrow> ((True, Some e), s1)
         | Inr count \<Rightarrow>
             (let (e2, s2) =
                (if count = 1 then (let (r2, s2) = R (EXPIRE key (Window rule)) s1 in (err_result r2, s2))
                 else (None, s1))
              in case e2 of
                   Some e \<Rightarrow> (let (r3, s3) = R (DEL key) s2 in ((True, Some e), s3))
                 | None \<Rightarrow> (if count > Limit rule then ((False, None), s2) else ((True, None), s2))))"

definition Remaining :: "'r redis \<Rightarrow> string \<Rightarrow> Rule \<Rightarrow> 'r \<Rightarrow> (int \<times> error option) \<times> 'r" where
  "Remaining R identifier rule s =
     (let key = Key rule @ identifier;
          (r, s1) = R (GET key) s
      in case atoi_result r of
           Inl e \<Rightarrow> if e = ErrNil then ((Limit rule, None), s1) else ((Limit rule, Some e), s1)
         | Inr count \<Rightarrow>
             (let remaining = Limit rule - count;
                  remaining = (if remaining < 0 then 0 else remaining)
              in ((remaining, None), s1)))"

section \<open>One request\<close>

context redis_server
begin

lemma Allow_answered:
  assumes "Allow exec i rule s = ((b, None), s')" "0 < Window rule"
  defines "n \<equiv> count_at (view s) (Key rule @ i) + 1"
  shows "b \<longleftrightarrow> n \<le> Limit rule"
    and "view s' = (view s)(Key rule @ i \<mapsto>
      (VStr (show_int n), if n = 1 then Some (Window rule) else ttl_of (view s) (Key rule @ i)))"
proof -
  let ?k = "Key rule @ i"
  obtain m s1 where 1: "exec (INCR ?k) s = (RInt m, s1)"
    using assms(1) by (auto simp: Allow_def Let_def split: prod.splits sum.splits)
  have 2: "(if m = 1 then (let (r2, s2) = exec (EXPIRE ?k (Window rule)) s1 in (err_result r2, s2))
      else (None, s1)) = (None, s')" and b: "b \<longleftrightarrow> m \<le> Limit rule"
    using assms(1) 1 by (auto simp: Allow_def Let_def split: prod.splits sum.splits option.splits if_splits)
  note B = bump [OF 1 assms(2) 2]
  show "b \<longleftrightarrow> n \<le> Limit rule"
    and "view s' = (view s)(?k \<mapsto> (VStr (show_int n), if n = 1 then Some (Window rule) else ttl_of (view s) ?k))"
    using b B by (simp_all add: n_def)
qed

lemma Allow_frame: "Allow exec i rule s = (x, s') \<Longrightarrow> k \<noteq> Key rule @ i \<Longrightarrow> view s' k = view s k"
  by (auto simp: Allow_def Let_def frame split: prod.splits sum.splits option.splits if_splits)

end

context reliable_redis
begin

lemma Allow_reliable:
  assumes "counter_typed (view s) (Key rule @ i)"
  shows "\<exists>b s'. Allow exec i rule s = ((b, None), s')"
proof -
  let ?k = "Key rule @ i"
  obtain n s1 where 1: "exec (INCR ?k) s = (RInt n, s1)" by (rule incr_answered [OF assms])
  obtain r2 t2 where 2: "exec (EXPIRE ?k (Window rule)) s1 = (r2, t2)" "err_result r2 = None"
    by (rule expire_answered)
  from 1 2 show ?thesis by (auto simp: Allow_def Let_def)
qed

lemma allow_bump:
  assumes "windowed (view s) (Key rule @ i)" "Allow exec i rule s = (x, s')" "0 < Window rule"
    and "count_at (view s) (Key rule @ i) < 2 ^ 62"
  defines "n \<equiv> count_at (view s) (Key rule @ i) + 1"
  shows "x = (n \<le> Limit rule, None)"
    and "counter_at (view s') (Key rule @ i) =
      Some (n, if n = 1 then Some (Window rule) else ttl_of (view s) (Key rule @ i))"
proof -
  obtain b t where x: "Allow exec i rule s = ((b, None), t)"
    using Allow_reliable [OF windowed_typed [OF assms(1)]] by blast
  note R = Allow_answered [OF x assms(3), folded n_def]
  from R(1) x assms(2) show "x = (n \<le> Limit rule, None)" by simp
  from R(2) x assms(2,4) show "counter_at (view s') (Key rule @ i) =
      Some (n, if n = 1 then Some (Window rule) else ttl_of (view s) (Key rule @ i))"
    by (intro counter_at_Some) (auto simp: n_def)
qed

end

section \<open>A history of requests\<close>

text \<open>A client of the limiter: an identifier and a rule with a positive window.\<close>

locale limited = reliable_redis_clock +
  fixes ident :: string and rule :: Rule
  assumes window_pos: "0 < Window rule"

sublocale limited \<subseteq> allow_window:
  window_counter "Allow exec ident rule" wait "\<lambda>s. window_at (view s) (Key rule @ ident)"
    "\<lambda>s. windowed (view s) (Key rule @ ident)" "Window rule" "\<lambda>n. (n \<le> Limit rule, None)"
proof (unfold_locales, goal_cases)
  case (1 s x s')
  then have "view s (Key rule @ ident) = None" by (simp add: window_at_None)
  then have "count_at (view s) (Key rule @ ident) = 0" by (simp add: count_at_def)
  with allow_bump [OF 1(1,3) window_pos] show ?case by (auto simp: windowed_def window_at_def)
next
  case (2 s n t x s')
  then have c: "counter_at (view s) (Key rule @ ident) = Some (n, Some t)" "1 \<le> n"
    by (auto simp: window_at_Some windowed_def)
  then have "count_at (view s) (Key rule @ ident) = n" "ttl_of (view s) (Key rule @ ident) = Some t"
    by (auto simp: count_at_def ttl_of_def dest: counter_at_SomeD)
  with allow_bump [OF 2(1,4) window_pos] c 2(3) show ?case by (auto simp: windowed_def window_at_def)
qed (auto simp: wait_view window_at_advance windowed_advance)

interpretation lim: limited rcall "\<lambda>ks. ks" advance "''x''" RuleMessage
  by unfold_locales (simp add: RuleMessage_def)

context limited
begin

lemmas allow_run = allow_window.run_window
lemmas allow_expires = allow_window.wait_expires

end

lemma map_allowed: "map (\<lambda>i. (int i \<le> l, None)) [1..<m] =
    replicate (min (nat l) (m - 1)) (True, None) @ replicate (m - 1 - nat l) (False, None)"
proof (rule nth_equalityI)
  fix i
  assume "i < length (map (\<lambda>i. (int i \<le> l, None)) [1..<m])"
  then show "map (\<lambda>i. (int i \<le> l, None)) [1..<m] ! i =
    (replicate (min (nat l) (m - 1)) (True, None) @ replicate (m - 1 - nat l) (False, None)) ! i"
    by (auto simp: nth_append)
qed auto

text \<open>
  C18.  Within one window the limiter lets exactly the first \<open>Limit\<close> requests through and
  rejects all later ones, however the requests are spaced: in the run that starts with the request
  opening the window and ends before the window has passed, the outcomes are \<open>Limit\<close> acceptances
  (or as many as there were requests) followed only by rejections, none of them an error.
\<close>

theorem Allow_window:
  assumes "reliable_redis_clock R view wait" and "0 < Window rule" and "view s (Key rule @ i) = None"
    and "forward es" and "elapsed es < Window rule" and "int (hits es) + 1 < 2 ^ 62"
    and "run (Allow R i rule) wait (Hit # es) s = (outcomes, s')"
  shows "outcomes =
    replicate (min (nat (Limit rule)) (hits es + 1)) (True, None) @
    replicate (hits es + 1 - nat (Limit rule)) (False, None)"
proof -
  have w: "windowed (view s) (Key rule @ i)" "window_at (view s) (Key rule @ i) = None"
    using assms(3) by (auto simp: windowed_def window_at_def)
  have "limited R view wait rule" using assms(1,2) by (simp add: limited_def limited_axioms_def)
  from limited.allow_run(1) [OF this w assms(4-7)] show ?thesis
    by (simp only: map_allowed) simp
qed

theorem Allow_window_witness:
  "map fst (fst (run (Allow rcall ''x'' RuleMessage) advance [Hit, Hit, Hit, Wait Second, Hit, Hit, Hit, Hit] Map.empty)) =
     [True, True, True, True, True, False, False]"
proof -
  let ?es = "[Hit, Hit, Wait Second, Hit, Hit, Hit, Hit]"
  let ?h = "run (Allow rcall ''x'' RuleMessage) advance (Hit # ?es) Map.empty"
  from Allow_window [OF rclk.reliable_redis_clock_axioms, where i = "''x''" and rule = RuleMessage and s = Map.empty and es = ?es and outcomes = "fst ?h" and s' = "snd ?h"]
  show ?thesis by (simp add: RuleMessage_def numeral_eq_Suc del: run.simps)
qed

context redis_server
begin

lemma Remaining_count:
  assumes "Remaining exec i rule s = ((m, None), s1)" "counter_typed (view s) (Key rule @ i)"
  shows "m = max 0 (Limit rule - count_at (view s) (Key rule @ i)) \<or>
         view s (Key rule @ i) = None \<and> m = Limit rule"
    and "view s1 = view s"
proof -
  let ?k = "Key rule @ i"
  obtain r where g: "exec (GET ?k) s = (r, s1)"
    using assms(1) by (auto simp: Remaining_def Let_def split: prod.splits sum.splits if_splits)
  show "view s1 = view s" using read_only [OF _ g] by simp
  have "\<not> is_err r"
    using assms(1) g by (cases r) (auto simp: Remaining_def atoi_result_def)
  from answered(1) [OF g this] assms(1,2) g
  show "m = max 0 (Limit rule - count_at (view s) ?k) \<or> view s ?k = None \<and> m = Limit rule"
    by (auto simp: Remaining_def atoi_result_def counter_typed_def count_at_def counter_at_def counter_def
             split: option.splits rvalue.splits if_splits)
qed

end

text \<open>
  \<open>Remaining\<close> predicts \<open>Allow\<close>: on a key the limiter uses, when both are answered, the next
  request is allowed exactly when the number reported as remaining is positive.
\<close>

lemma Remaining_predicts_Allow:
  assumes "redis_server R view" and "0 < Window rule" and "0 \<le> Limit rule"
    and "counter_typed (view s) (Key rule @ i)"
    and "Remaining R i rule s = ((m, None), s1)" and "Allow R i rule s1 = ((b, None), s2)"
  shows "b \<longleftrightarrow> 0 < m"
proof -
  note rem = redis_server.Remaining_count [OF assms(1,5,4)]
  note all = redis_server.Allow_answered(1) [OF assms(1,6,2)]
  have "view s (Key rule @ i) = None \<Longrightarrow> count_at (view s) (Key rule @ i) = 0"
    by (simp add: count_at_def)
  with rem all show ?thesis by auto
qed

lemma Remaining_predicts_Allow_witness:
  "let ks = [''rl:msg:x'' \<mapsto> (VStr (show_int 5), Some Second)] in
   fst (Remaining rcall ''x'' RuleMessage ks) = (0, None) \<and> fst (Allow rcall ''x'' RuleMessage ks) = (False, None)"
proof -
  let ?ks = "[''rl:msg:x'' \<mapsto> (VStr (show_int 5), Some Second)] :: keyspace"
  have r: "Remaining rcall ''x'' RuleMessage ?ks = ((0, None), ?ks)"
    by (simp add: Remaining_def rcall_def RuleMessage_def atoi_result_def)
  obtain s2 where a: "Allow rcall ''x'' RuleMessage ?ks = ((False, None), s2)"
    by (simp add: Allow_def rcall_def RuleMessage_def)
  have "counter_typed ?ks (Key RuleMessage @ ''x'')"
    by (simp add: counter_typed_def counter_at_def RuleMessage_def)
  from Remaining_predicts_Allow [OF rref.redis_server_axioms _ _ this r a] a r
  show ?thesis by simp
qed

context limited
begin

abbreviation window_of :: "'a \<Rightarrow> (int \<times> Duration) option" where
  "window_of s \<equiv> window_at (view s) (Key rule @ ident)"

abbreviation allowed_in :: "event list \<Rightarrow> 'a \<Rightarrow> nat" where
  "allowed_in es s \<equiv> length (filter fst (fst (run (Allow exec ident rule) wait es s)))"

lemma allowed_fresh:
  assumes "windowed (view s) (Key rule @ ident)" "window_of s = None" "forward es" "elapsed es < Window rule" "int (hits es) < 2 ^ 62"
  shows "allowed_in es s \<le> nat (Limit rule)"
  using assms
proof (induction es arbitrary: s)
  case Nil
  then show ?case by simp
next
  case (Cons e es)
  show ?case
  proof (cases e)
    case Hit
    have "fst (run (Allow exec ident rule) wait (Hit # es) s) = map (\<lambda>i. (int i \<le> Limit rule, None)) [1..<hits es + 2]"
      using allow_run(1) [OF Cons.prems(1,2) _ _ _ surjective_pairing, of es] Cons.prems(3-5) Hit by simp
    then show ?thesis using Hit by (simp only: map_allowed) simp
  next
    case (Wait d)
    have "window_of (wait d s) = None" using allow_window.wait_win [OF Cons.prems(1), of d] Cons.prems(2) by simp
    moreover have "elapsed es < Window rule" using Cons.prems(4) Wait by simp
    ultimately show ?thesis
      using Cons.IH [OF allow_window.wait_inv [OF Cons.prems(1)], of d] Cons.prems(3,5) Wait by simp
  qed
qed

lemma allowed_live:
  assumes "windowed (view s) (Key rule @ ident)" "window_of s = Some (n, t)" "forward es" "elapsed es < Window rule" "n + int (hits es) < 2 ^ 62"
  shows "allowed_in es s \<le> nat (Limit rule - n) + nat (Limit rule)"
  using assms
proof (induction es arbitrary: s n t)
  case Nil
  then show ?case by simp
next
  case (Cons e es)
  have n: "1 \<le> n" using Cons.prems(1,2) by (auto simp: windowed_def window_at_def)
  show ?case
  proof (cases e)
    case Hit
    obtain x s1 where h: "Allow exec ident rule s = (x, s1)" by fastforce
    have 1: "x = (n + 1 \<le> Limit rule, None)" "window_of s1 = Some (n + 1, t)" "windowed (view s1) (Key rule @ ident)"
      using allow_window.hit_live [OF Cons.prems(1,2) _ h] Cons.prems(5) Hit by auto
    have "allowed_in es s1 \<le> nat (Limit rule - (n + 1)) + nat (Limit rule)"
      using Cons.IH [OF 1(3,2)] Cons.prems(3-5) Hit by simp
    moreover have "allowed_in (Hit # es) s = (if n + 1 \<le> Limit rule then Suc (allowed_in es s1) else allowed_in es s1)"
      using h 1(1) by (simp add: case_prod_beta)
    ultimately show ?thesis unfolding Hit by (cases "n + 1 \<le> Limit rule") (simp_all add: nat_diff_distrib)
  next
    case (Wait d)
    have w: "windowed (view (wait d s)) (Key rule @ ident)" by (rule allow_window.wait_inv [OF Cons.prems(1)])
    have e: "forward es" "elapsed es < Window rule" using Cons.prems(3,4) Wait by auto
    show ?thesis
    proof (cases "t \<le> d")
      case True
      then have "window_of (wait d s) = None" by (rule allow_expires [OF Cons.prems(1,2)])
      from allowed_fresh [OF w this e] Cons.prems(5) n Wait show ?thesis by simp
    next
      case False
      then have "window_of (wait d s) = Some (n, t - d)" using allow_window.wait_win [OF Cons.prems(1), of d] Cons.prems(2) by simp
      from Cons.IH [OF w this e] Cons.prems(5) Wait show ?thesis by simp
    qed
  qed
qed

text \<open>A window that is opened early and used at its very end, and the next one.\<close>

lemma burst_allowed:
  assumes "view s (Key rule @ ident) = None" "0 < d" "d < Window rule" "1 \<le> Limit rule" "Limit rule < 2 ^ 61"
    and "run (Allow exec ident rule) wait [Hit, Wait (Window rule - d)] s = (xs, s1)"
  shows "fst (run (Allow exec ident rule) wait (replicate (nat (Limit rule - 1)) Hit @ Wait d # replicate (nat (Limit rule)) Hit) s1) =
      replicate (nat (2 * Limit rule - 1)) (True, None) \<and> windowed (view s1) (Key rule @ ident)"
proof -
  let ?run = "run (Allow exec ident rule) wait" and ?l = "nat (Limit rule)"
  have s: "windowed (view s) (Key rule @ ident)" "window_of s = None" using assms(1) by (auto simp: windowed_def window_at_def)
  note A = allow_run [OF s, where es = "[Wait (Window rule - d)]", OF _ _ _ assms(6)]
  have 1: "window_of s1 = Some (1, d)" "windowed (view s1) (Key rule @ ident)" using A(2,3) assms(2,3) by simp_all
  obtain ys s2 where y: "?run (replicate (nat (Limit rule - 1)) Hit) s1 = (ys, s2)" by fastforce
  have 2: "ys = map (\<lambda>i. (1 + int i \<le> Limit rule, None)) [1..<Suc (nat (Limit rule - 1))]" "window_of s2 = Some (1 + int (nat (Limit rule - 1)), d)"
      "windowed (view s2) (Key rule @ ident)"
    using allow_window.run_live [OF 1(2,1) _ _ _ y] assms(2,5) by auto
  have ys: "ys = replicate (nat (Limit rule - 1)) (True, None)" unfolding 2(1) by (rule nth_equalityI) (auto simp del: upt_Suc)
  have w: "windowed (view (wait d s2)) (Key rule @ ident)" "window_of (wait d s2) = None"
    using allow_window.wait_inv [OF 2(3)] allow_expires [OF 2(3,2)] by simp_all
  obtain k where k: "?l = Suc k" using assms(4) by (cases ?l) auto
  have "fst (?run (Hit # replicate k Hit) (wait d s2)) = map (\<lambda>i. (int i \<le> Limit rule, None)) [1..<k + 2]"
    using allow_run(1) [OF w _ _ _ surjective_pairing, of "replicate k Hit"] k assms(5) window_pos by simp
  also have "\<dots> = replicate ?l (True, None)" unfolding map_allowed using k by simp
  finally have z: "fst (?run (replicate ?l Hit) (wait d s2)) = replicate ?l (True, None)" by (simp add: k)
  have "nat (2 * Limit rule - 1) = nat (Limit rule - 1) + ?l" using assms(4) by simp
  with y ys z 1(2) show ?thesis by (simp add: run_append case_prod_beta replicate_add)
qed

end

text \<open>
  C19.  The window is fixed, not sliding, and this costs at most a factor of two.  However the requests are spaced, in a time shorter than the
  window of the rule fewer than twice as many requests are allowed as the rule says; and one less than twice as many can be allowed within
  any time, however short: all but the first request of one window at its very end and those of the next one at its beginning.
\<close>

theorem Allow_double_burst:
  assumes "reliable_redis_clock R view wait" and "0 < Window rule" and "1 \<le> Limit rule" and "Limit rule < 2 ^ 61"
  shows "(windowed (view s) (Key rule @ i) \<longrightarrow> forward es \<longrightarrow> elapsed es < Window rule \<longrightarrow> count_at (view s) (Key rule @ i) + int (hits es) < 2 ^ 62 \<longrightarrow>
       int (length (filter fst (fst (run (Allow R i rule) wait es s)))) \<le> 2 * Limit rule - 1) \<and>
    (view s (Key rule @ i) = None \<longrightarrow> 0 < d \<longrightarrow> d < Window rule \<longrightarrow>
       (\<exists>es s1. s1 = snd (run (Allow R i rule) wait [Hit, Wait (Window rule - d)] s) \<and> windowed (view s1) (Key rule @ i) \<and> forward es \<and> elapsed es = d \<and>
          fst (run (Allow R i rule) wait es s1) = replicate (nat (2 * Limit rule - 1)) (True, None)))"
proof (intro conjI impI)
  have L: "limited R view wait rule" using assms(1,2) by (simp add: limited_def limited_axioms_def)
  let ?k = "Key rule @ i"
  show "int (length (filter fst (fst (run (Allow R i rule) wait es s)))) \<le> 2 * Limit rule - 1"
    if w: "windowed (view s) ?k" and f: "forward es" "elapsed es < Window rule" and b: "count_at (view s) ?k + int (hits es) < 2 ^ 62"
  proof (cases "window_at (view s) ?k")
    case None
    then have "view s ?k = None" using window_at_None [OF w] by simp
    then have "count_at (view s) ?k = 0" by (simp add: count_at_def)
    with limited.allowed_fresh [OF L w None f] b assms(3) show ?thesis by simp
  next
    case (Some nt)
    then obtain n t where n: "window_at (view s) ?k = Some (n, t)" by (cases nt) auto
    then have "1 \<le> n" "count_at (view s) ?k = n" using w by (auto simp: windowed_def window_at_def count_at_def)
    with limited.allowed_live [OF L w n f] b assms(3) show ?thesis by simp
  qed
  show "\<exists>es s1. s1 = snd (run (Allow R i rule) wait [Hit, Wait (Window rule - d)] s) \<and> windowed (view s1) ?k \<and> forward es \<and> elapsed es = d \<and>
      fst (run (Allow R i rule) wait es s1) = replicate (nat (2 * Limit rule - 1)) (True, None)"
    if s: "view s ?k = None" "0 < d" "d < Window rule"
    using limited.burst_allowed [OF L s assms(3,4) surjective_pairing] s(2)
    by (intro exI [of _ "replicate (nat (Limit rule - 1)) Hit @ Wait d # replicate (nat (Limit rule)) Hit"] exI conjI) auto
qed

theorem Allow_double_burst_witness:
  "(\<exists>es s1. elapsed es = Second \<and> fst (run (Allow rcall ''x'' RuleMessage) advance es s1) = replicate 9 (True, None)) \<and>
   length (filter fst (fst (run (Allow rcall ''x'' RuleMessage) advance (replicate 50 Hit) Map.empty))) \<le> 9"
proof -
  have r: "0 < Window RuleMessage" "1 \<le> Limit RuleMessage" "Limit RuleMessage < 2 ^ 61" "Second < Window RuleMessage" "nat (2 * Limit RuleMessage - 1) = 9"
    by (simp_all add: RuleMessage_def)
  note B = Allow_double_burst [OF rclk.reliable_redis_clock_axioms r(1-3), where s = Map.empty and i = "''x''" and d = Second]
  have "int (length (filter fst (fst (run (Allow rcall ''x'' RuleMessage) advance (replicate 50 Hit) Map.empty)))) \<le> 2 * Limit RuleMessage - 1"
    using B [THEN conjunct1, of "replicate 50 Hit"] r(1) by (simp only: events_simps) (simp add: windowed_def count_at_def)
  with B [THEN conjunct2] r(4,5) show ?thesis by (auto simp: RuleMessage_def)
qed

end
