(* ===== verification/ChatBuffer.thy ===== *)
theory ChatBuffer
  imports Prelude
begin

text \<open>
  \<open>internal/chat/buffer.go\<close>: the last messages of every chat, kept for reports.  The Go map of
  ring buffers is a map; a slice access out of range panics, so \<open>Add\<close> and \<open>Get\<close> return an
  \<open>option\<close> with \<^const>\<open>None\<close> for the panic.  The locale \<open>bounded_log\<close> is what the report handler
  relies on: per key, the last entries in the order they were added.
\<close>

section \<open>The ring buffers\<close>

definition MaxBufferMessages :: int where "MaxBufferMessages = 5"

record BufferedMessage =
  bm_From :: string
  bm_Text :: string
  bm_Ts :: int

record ringBuffer =
  items :: "BufferedMessage list"
  pos :: int
  count :: int

type_synonym MessageBuffer = "string \<rightharpoonup> ringBuffer"

definition zeroMessage :: BufferedMessage where
  "zeroMessage = \<lparr>bm_From = [], bm_Text = [], bm_Ts = 0\<rparr>"

definition NewMessageBuffer :: MessageBuffer where
  "NewMessageBuffer = Map.empty"

definition in_range :: "int \<Rightarrow> 'a list \<Rightarrow> bool" where
  "in_range i xs \<longleftrightarrow> 0 \<le> i \<and> i < int (length xs)"

definition Add :: "MessageBuffer \<Rightarrow> string \<Rightarrow> BufferedMessage \<Rightarrow> MessageBuffer option" where
  "Add mb chatID msg =
     (let rb = (case mb chatID of
                  None \<Rightarrow> \<lparr>items = replicate (nat MaxBufferMessages) zeroMessage, pos = 0, count = 0\<rparr>
                | Some rb \<Rightarrow> rb)
      in if \<not> in_range (pos rb) (items rb) then None
         else Some (mb(chatID \<mapsto> rb\<lparr>
                items := (items rb)[nat (pos rb) := msg],
                pos := go_rem (pos rb + 1) MaxBufferMessages,
                count := (if count rb < MaxBufferMessages then count rb + 1 else count rb)\<rparr>)))"

definition Get :: "MessageBuffer \<Rightarrow> string \<Rightarrow> BufferedMessage list option" where
  "Get mb chatID =
     (case mb chatID of
        None \<Rightarrow> Some []
      | Some rb \<Rightarrow>
          if count rb < 0 then None
          else (let start = go_rem (pos rb - count rb + MaxBufferMessages) MaxBufferMessages
                in those (map (\<lambda>i. let j = go_rem (start + int i) MaxBufferMessages
                                    in if in_range j (items rb) then Some (items rb ! nat j) else None)
                              [0..<nat (count rb)])))"

definition Remove :: "MessageBuffer \<Rightarrow> string \<Rightarrow> MessageBuffer" where
  "Remove mb chatID = mb(chatID := None)"

section \<open>Invariant and contents\<close>

definition rb_inv :: "ringBuffer \<Rightarrow> bool" where
  "rb_inv rb \<longleftrightarrow> length (items rb) = 5 \<and> 0 \<le> pos rb \<and> pos rb < 5 \<and> 0 \<le> count rb \<and> count rb \<le> 5 \<and>
     (count rb < 5 \<longrightarrow> pos rb = count rb)"

definition mb_inv :: "MessageBuffer \<Rightarrow> bool" where
  "mb_inv mb \<longleftrightarrow> (\<forall>c rb. mb c = Some rb \<longrightarrow> rb_inv rb)"

definition contents :: "ringBuffer \<Rightarrow> BufferedMessage list" where
  "contents rb =
     (if count rb < 5 then take (nat (count rb)) (items rb)
      else drop (nat (pos rb)) (items rb) @ take (nat (pos rb)) (items rb))"

definition log_of :: "MessageBuffer \<Rightarrow> string \<Rightarrow> BufferedMessage list" where
  "log_of mb c = (case mb c of None \<Rightarrow> [] | Some rb \<Rightarrow> contents rb)"

lemma list5: "length xs = 5 \<Longrightarrow> \<exists>a b c d e. xs = [a, b, c, d, e]"
  by (auto simp: numeral_eq_Suc length_Suc_conv)

text \<open>Every state of a ring buffer that the invariant allows, listed.\<close>

lemma rb_cases:
  assumes "rb_inv rb"
  obtains a b c d e where "items rb = [a, b, c, d, e]" "count rb < 5" "pos rb = count rb"
      "pos rb = 0 \<or> pos rb = 1 \<or> pos rb = 2 \<or> pos rb = 3 \<or> pos rb = 4"
    | a b c d e where "items rb = [a, b, c, d, e]" "count rb = 5"
      "pos rb = 0 \<or> pos rb = 1 \<or> pos rb = 2 \<or> pos rb = 3 \<or> pos rb = 4"
proof -
  obtain a b c d e where i: "items rb = [a, b, c, d, e]"
    using list5 [of "items rb"] assms by (auto simp: rb_inv_def)
  have p: "pos rb = 0 \<or> pos rb = 1 \<or> pos rb = 2 \<or> pos rb = 3 \<or> pos rb = 4"
    using assms by (auto simp: rb_inv_def)
  show thesis
  proof (cases "count rb < 5")
    case True
    with that(1) [OF i True _ p] assms show thesis by (simp add: rb_inv_def)
  next
    case False
    with assms have "count rb = 5" by (simp add: rb_inv_def)
    with that(2) [OF i _ p] show thesis by simp
  qed
qed

lemmas rb_defs = MaxBufferMessages_def go_rem_def in_range_def numeral_eq_Suc

lemma those_map_Some: "(\<And>i. i \<in> set is \<Longrightarrow> f i = Some (g i)) \<Longrightarrow> those (map f is) = Some (map g is)"
  by (induction "is") auto

lemma mod5: "0 \<le> (p :: int) \<Longrightarrow> p < 5 \<Longrightarrow> 0 \<le> i \<Longrightarrow> i < 5 \<Longrightarrow> (p + i) mod 5 = (if p + i < 5 then p + i else p + i - 5)"
  by presburger

lemma contents_nth:
  assumes "rb_inv rb" "i < nat (count rb)"
  shows "contents rb ! i = items rb ! nat ((pos rb - count rb + 5 + int i) mod 5)"
proof (cases "count rb < 5")
  case True
  with assms have "(pos rb - count rb + 5 + int i) mod 5 = int i" by (auto simp: rb_inv_def)
  with True assms show ?thesis by (simp add: contents_def)
next
  case False
  with assms have c: "count rb = 5" "length (items rb) = 5" "0 \<le> pos rb" "pos rb < 5" "i < 5"
    by (auto simp: rb_inv_def)
  with mod5 [of "pos rb" "int i"] show ?thesis
    by (auto simp: contents_def nth_append nat_add_distrib nat_diff_distrib intro!: arg_cong [of _ _ "(!) (items rb)"])
qed

lemma length_contents: "rb_inv rb \<Longrightarrow> length (contents rb) = nat (count rb)"
  by (auto simp: contents_def rb_inv_def)

lemma Get_contents:
  assumes "mb_inv mb"
  shows "Get mb c = Some (log_of mb c)"
proof (cases "mb c")
  case None
  then show ?thesis by (simp add: Get_def log_of_def)
next
  case (Some rb)
  with assms have inv: "rb_inv rb" by (simp add: mb_inv_def)
  let ?g = "\<lambda>i. items rb ! nat ((pos rb - count rb + 5 + int i) mod 5)"
  have st: "0 \<le> pos rb - count rb + 5" "length (items rb) = 5" using inv by (auto simp: rb_inv_def)
  have "map ?g [0..<nat (count rb)] = contents rb"
    by (rule nth_equalityI) (simp_all add: length_contents [OF inv] contents_nth [OF inv])
  moreover have "Get mb c = Some (map ?g [0..<nat (count rb)])"
    unfolding Get_def Let_def using Some inv st
    by (auto simp: rb_inv_def MaxBufferMessages_def go_rem_def in_range_def mod_add_left_eq intro!: those_map_Some)
  ultimately show ?thesis using Some by (simp add: log_of_def)
qed

definition push :: "ringBuffer \<Rightarrow> BufferedMessage \<Rightarrow> ringBuffer" where
  "push rb msg = rb\<lparr>
     items := (items rb)[nat (pos rb) := msg],
     pos := go_rem (pos rb + 1) MaxBufferMessages,
     count := (if count rb < MaxBufferMessages then count rb + 1 else count rb)\<rparr>"

lemma push_inv: "rb_inv rb \<Longrightarrow> rb_inv (push rb msg)"
  by (auto simp: rb_inv_def push_def MaxBufferMessages_def go_rem_def)

lemma push_contents: "rb_inv rb \<Longrightarrow> contents (push rb msg) = lastn 5 (contents rb @ [msg])"
  by (erule rb_cases) (auto simp: contents_def push_def lastn_def rb_defs)

definition fresh_rb :: ringBuffer where
  "fresh_rb = \<lparr>items = replicate (nat MaxBufferMessages) zeroMessage, pos = 0, count = 0\<rparr>"

lemma fresh_rb_props: "rb_inv fresh_rb" "contents fresh_rb = []"
  by (simp_all add: rb_inv_def contents_def fresh_rb_def MaxBufferMessages_def)

lemma Add_push:
  assumes "mb_inv mb"
  shows "Add mb c msg = Some (mb(c \<mapsto> push (case mb c of None \<Rightarrow> fresh_rb | Some rb \<Rightarrow> rb) msg))"
proof -
  let ?rb = "case mb c of None \<Rightarrow> fresh_rb | Some rb \<Rightarrow> rb"
  have "rb_inv ?rb" using assms fresh_rb_props by (auto simp: mb_inv_def split: option.splits)
  then have "in_range (pos ?rb) (items ?rb)" by (auto simp: rb_inv_def in_range_def)
  then show ?thesis unfolding Add_def push_def fresh_rb_def Let_def by simp
qed

section \<open>The contract of the buffer\<close>

datatype ('k, 'm) log_op = AddOp 'k 'm | RemoveOp 'k

fun run_log :: "('b \<Rightarrow> 'k \<Rightarrow> 'm \<Rightarrow> 'b option) \<Rightarrow> ('b \<Rightarrow> 'k \<Rightarrow> 'b) \<Rightarrow> ('k, 'm) log_op list \<Rightarrow> 'b \<Rightarrow> 'b option" where
  "run_log add rem [] b = Some b"
| "run_log add rem (AddOp k m # ops) b = Option.bind (add b k m) (run_log add rem ops)"
| "run_log add rem (RemoveOp k # ops) b = run_log add rem ops (rem b k)"

text \<open>What was added to a key since it was last removed, after what was there before.\<close>

fun since_removed :: "'k \<Rightarrow> ('k, 'm) log_op list \<Rightarrow> 'm list \<Rightarrow> 'm list" where
  "since_removed k [] ms = ms"
| "since_removed k (AddOp k' m # ops) ms = since_removed k ops (if k' = k then ms @ [m] else ms)"
| "since_removed k (RemoveOp k' # ops) ms = since_removed k ops (if k' = k then [] else ms)"

lemma since_removed_cong:
  "lastn n ms = lastn n ms' \<Longrightarrow> lastn n (since_removed k ops ms) = lastn n (since_removed k ops ms')"
proof (induction ops arbitrary: ms ms')
  case Nil
  then show ?case by simp
next
  case (Cons op ops)
  have step: "lastn n (ms @ [m]) = lastn n (ms' @ [m])" for m
    using Cons.prems lastn_snoc_lastn [of n ms m] lastn_snoc_lastn [of n ms' m] by simp
  show ?case
    by (cases op) (simp_all add: Cons.IH [OF Cons.prems] Cons.IH [OF step])
qed

lemma since_removed_lastn:
  "lastn n (since_removed k ops (lastn n ms)) = lastn n (since_removed k ops ms)"
  by (rule since_removed_cong) (simp add: lastn_idem length_lastn)

locale bounded_log =
  fixes add :: "'b \<Rightarrow> 'k \<Rightarrow> 'm \<Rightarrow> 'b option" and get :: "'b \<Rightarrow> 'k \<Rightarrow> 'm list option"
    and rem :: "'b \<Rightarrow> 'k \<Rightarrow> 'b" and log :: "'b \<Rightarrow> 'k \<Rightarrow> 'm list" and inv :: "'b \<Rightarrow> bool" and cap :: nat
  assumes add_log: "inv b \<Longrightarrow> \<exists>b'. add b k m = Some b' \<and> inv b' \<and> log b' = (log b)(k := lastn cap (log b k @ [m]))"
    and get_log: "inv b \<Longrightarrow> get b k = Some (log b k)"
    and rem_log: "inv b \<Longrightarrow> inv (rem b k) \<and> log (rem b k) = (log b)(k := [])"
    and log_cap: "inv b \<Longrightarrow> length (log b k) \<le> cap"
begin

lemma run_log_total:
  "inv b \<Longrightarrow> \<exists>b'. run_log add rem ops b = Some b' \<and> inv b' \<and>
     get b' k = Some (lastn cap (since_removed k ops (log b k)))"
proof (induction ops arbitrary: b)
  case Nil
  then show ?case by (simp add: get_log lastn_idem log_cap)
next
  case (Cons op ops)
  show ?case
  proof (cases op)
    case (AddOp k' m)
    obtain b1 where b1: "add b k' m = Some b1" "inv b1" "log b1 = (log b)(k' := lastn cap (log b k' @ [m]))"
      using add_log [OF Cons.prems] by blast
    from Cons.IH [OF b1(2)] b1(1,3) AddOp show ?thesis
      by (auto simp: since_removed_lastn)
  next
    case (RemoveOp k')
    with rem_log [OF Cons.prems, of k'] Cons.IH [of "rem b k'"] show ?thesis by auto
  qed
qed

end

interpretation mb: bounded_log Add Get Remove log_of mb_inv 5
proof (unfold_locales, goal_cases)
  case (1 b k m)
  let ?rb = "case b k of None \<Rightarrow> fresh_rb | Some rb \<Rightarrow> rb"
  have rb: "rb_inv ?rb" "contents ?rb = log_of b k"
    using 1 fresh_rb_props by (auto simp: mb_inv_def log_of_def split: option.splits)
  have "mb_inv (b(k \<mapsto> push ?rb m))"
    using 1 push_inv [OF rb(1)] by (simp add: mb_inv_def)
  moreover have "log_of (b(k \<mapsto> push ?rb m)) = (log_of b)(k := lastn 5 (log_of b k @ [m]))"
    using push_contents [OF rb(1), of m] rb(2) by (simp add: log_of_def fun_eq_iff)
  ultimately show ?case using Add_push [OF 1] by blast
next
  case (2 b k)
  then show ?case by (rule Get_contents)
next
  case (3 b k)
  then show ?case by (auto simp: mb_inv_def log_of_def Remove_def fun_eq_iff)
next
  case (4 b k)
  show ?case
  proof (cases "b k")
    case (Some rb)
    with 4 have inv: "rb_inv rb" by (simp add: mb_inv_def)
    then have "count rb \<le> 5" by (simp add: rb_inv_def)
    with Some show ?thesis by (simp add: log_of_def length_contents [OF inv])
  qed (simp add: log_of_def)
qed

text \<open>
  C20.  The buffer keeps the conversation a report shows: after any sequence of additions and
  removals over any chats, starting empty, no access is out of range (no panic), and \<open>Get\<close> returns,
  for every chat, the last five messages added since its last removal, oldest first.
\<close>

theorem buffer_keeps_last:
  "\<exists>mb. run_log Add Remove ops NewMessageBuffer = Some mb \<and>
     Get mb c = Some (lastn 5 (since_removed c ops []))"
proof -
  have "mb_inv NewMessageBuffer" "log_of NewMessageBuffer c = []"
    by (simp_all add: mb_inv_def NewMessageBuffer_def log_of_def)
  with mb.run_log_total [of NewMessageBuffer ops c] show ?thesis by auto
qed

end
