(* ===== verification/Validator.thy ===== *)
theory Validator
  imports Utf8
begin

text \<open>\<open>internal/chat/validator.go\<close>: the checks a chat message passes before it is relayed.\<close>

definition MaxMessageBytes :: int where "MaxMessageBytes = 4096"
definition MaxTextChars :: int where "MaxTextChars = 2000"

definition ValidateMessage :: "string \<Rightarrow> error option" where
  "ValidateMessage text0 =
     (if int (length text0) = 0 then Some (ErrText ''message text is empty'')
      else if int (length text0) > MaxMessageBytes then
        Some (ErrText (''message exceeds '' @ show_int MaxMessageBytes @ '' byte limit''))
      else if RuneCountInString text0 > MaxTextChars then
        Some (ErrText (''message exceeds '' @ show_int MaxTextChars @ '' character limit''))
      else if \<not> ValidString text0 then Some (ErrText ''message contains invalid UTF-8'')
      else None)"

text \<open>
  C24.  The messages that pass are exactly the UTF-8 encodings of one to 2000 Unicode scalar values
  that take at most 4096 bytes.
\<close>

theorem ValidateMessage_iff:
  "ValidateMessage m = None \<longleftrightarrow>
   (\<exists>rs. m = encode rs \<and> list_all is_scalar rs \<and> rs \<noteq> [] \<and> length rs \<le> 2000 \<and> length m \<le> 4096)"
proof
  assume "ValidateMessage m = None"
  then have m: "m \<noteq> []" "length m \<le> 4096" "length (runes m) \<le> 2000" "ValidString m"
    by (auto simp: ValidateMessage_def MaxMessageBytes_def MaxTextChars_def RuneCountInString_def split: if_splits)
  from encode_runes [OF m(4)] m show "\<exists>rs. m = encode rs \<and> list_all is_scalar rs \<and> rs \<noteq> [] \<and> length rs \<le> 2000 \<and> length m \<le> 4096"
    by (intro exI [of _ "runes m"]) (auto simp: encode_def)
next
  assume "\<exists>rs. m = encode rs \<and> list_all is_scalar rs \<and> rs \<noteq> [] \<and> length rs \<le> 2000 \<and> length m \<le> 4096"
  then obtain rs where rs: "m = encode rs" "list_all is_scalar rs" "rs \<noteq> []" "length rs \<le> 2000" "length m \<le> 4096"
    by blast
  have "runes m = rs" using runes_encode [OF rs(2), of "[]"] rs(1) by (simp add: runes.simps [of "[]"])
  moreover have "m \<noteq> []" using rs(1,3) by (cases rs) (auto simp: encode_def)
  ultimately show "ValidateMessage m = None"
    using rs Valid_encode [OF rs(2)]
    by (simp add: ValidateMessage_def MaxMessageBytes_def MaxTextChars_def RuneCountInString_def)
qed

end
