(* ===== verification/Regex.thy ===== *)
theory Regex
  imports Utf8
begin

text \<open>
  The part of Go's \<open>regexp\<close> the spam patterns use: classes of runes, bounded and unbounded repetition of a class,
  sequence, alternative, option and the anchors of the text.  \<open>re_ends\<close> computes where a match that starts
  at a position can end; \<open>re_match\<close> is the meaning of an expression as a relation between positions, and the
  two agree.
\<close>

datatype regex =
    Many "rune \<Rightarrow> bool" nat "nat option"
  | Seq regex regex
  | Alt regex regex
  | Opt regex
  | Bos
  | Eos

abbreviation Cls :: "(rune \<Rightarrow> bool) \<Rightarrow> regex" where
  "Cls p \<equiv> Many p 1 (Some 1)"

text \<open>How many of the runes from position \<open>i\<close> on are in the class.\<close>

definition run_length :: "(rune \<Rightarrow> bool) \<Rightarrow> rune list \<Rightarrow> nat \<Rightarrow> nat" where
  "run_length p t i = length (takeWhile p (drop i t))"

fun re_ends :: "rune list \<Rightarrow> regex \<Rightarrow> nat \<Rightarrow> nat list" where
  "re_ends t (Many p lo hi) i =
     map ((+) i) [lo..<Suc (case hi of None \<Rightarrow> run_length p t i | Some h \<Rightarrow> min h (run_length p t i))]"
| "re_ends t (Seq a b) i = concat (map (re_ends t b) (re_ends t a i))"
| "re_ends t (Alt a b) i = re_ends t a i @ re_ends t b i"
| "re_ends t (Opt a) i = i # re_ends t a i"
| "re_ends t Bos i = (if i = 0 then [i] else [])"
| "re_ends t Eos i = (if i = length t then [i] else [])"

definition MatchString :: "regex \<Rightarrow> string \<Rightarrow> bool" where
  "MatchString r s = (let t = runes s in list_ex (\<lambda>i. re_ends t r i \<noteq> []) [0..<Suc (length t)])"

inductive re_match :: "rune list \<Rightarrow> regex \<Rightarrow> nat \<Rightarrow> nat \<Rightarrow> bool" for t where
  many: "i \<le> j \<Longrightarrow> j \<le> length t \<Longrightarrow> \<forall>k. i \<le> k \<longrightarrow> k < j \<longrightarrow> p (t ! k) \<Longrightarrow> lo \<le> j - i \<Longrightarrow>
    (\<forall>h. hi = Some h \<longrightarrow> j - i \<le> h) \<Longrightarrow> re_match t (Many p lo hi) i j"
| seq: "re_match t a i k \<Longrightarrow> re_match t b k j \<Longrightarrow> re_match t (Seq a b) i j"
| alt1: "re_match t a i j \<Longrightarrow> re_match t (Alt a b) i j"
| alt2: "re_match t b i j \<Longrightarrow> re_match t (Alt a b) i j"
| opt0: "i \<le> length t \<Longrightarrow> re_match t (Opt a) i i"
| opt1: "re_match t a i j \<Longrightarrow> re_match t (Opt a) i j"
| bos: "re_match t Bos 0 0"
| eos: "re_match t Eos (length t) (length t)"

inductive_simps re_match_simps:
  "re_match t (Many p lo hi) i j" "re_match t (Seq a b) i j" "re_match t (Alt a b) i j"
  "re_match t (Opt a) i j" "re_match t Bos i j" "re_match t Eos i j"

lemma takeWhile_run: "n \<le> length (takeWhile p xs) \<longleftrightarrow> n \<le> length xs \<and> (\<forall>k < n. p (xs ! k))"
proof
  show "n \<le> length xs \<and> (\<forall>k < n. p (xs ! k))" if n: "n \<le> length (takeWhile p xs)"
  proof (intro conjI allI impI)
    show "n \<le> length xs" using n length_takeWhile_le [of p xs] by linarith
    show "p (xs ! k)" if "k < n" for k
      using nth_mem [of k "takeWhile p xs"] set_takeWhileD takeWhile_nth [of k p xs] n that by (metis order_less_le_trans)
  qed
  show "n \<le> length (takeWhile p xs)" if n: "n \<le> length xs \<and> (\<forall>k < n. p (xs ! k))"
    using n nth_length_takeWhile [of p xs] by (metis not_le order_less_le_trans)
qed

lemma shift_all: "(\<forall>k < n. Q (i + k)) \<longleftrightarrow> (\<forall>k. i \<le> k \<longrightarrow> k < i + n \<longrightarrow> Q (k :: nat))"
  by (metis add_less_cancel_left le_Suc_ex le_add1)

lemma run_length_iff:
  assumes "i \<le> length t"
  shows "n \<le> run_length p t i \<longleftrightarrow> i + n \<le> length t \<and> (\<forall>k. i \<le> k \<longrightarrow> k < i + n \<longrightarrow> p (t ! k))"
proof -
  have "n \<le> run_length p t i \<longleftrightarrow> n \<le> length t - i \<and> (\<forall>k < n. p (t ! (i + k)))"
    using assms unfolding run_length_def takeWhile_run by simp
  also have "\<dots> \<longleftrightarrow> i + n \<le> length t \<and> (\<forall>k. i \<le> k \<longrightarrow> k < i + n \<longrightarrow> p (t ! k))"
    unfolding shift_all [of n "\<lambda>k. p (t ! k)" i] using assms by (simp add: le_diff_conv2 add.commute)
  finally show ?thesis .
qed

lemma re_ends_bound: "i \<le> length t \<Longrightarrow> j \<in> set (re_ends t r i) \<Longrightarrow> i \<le> j \<and> j \<le> length t"
proof (induction r arbitrary: i j)
  case (Many p lo hi)
  then have "j - i \<le> run_length p t i" "i \<le> j" by (auto split: option.splits)
  with Many.prems(1) show ?case by (auto simp: run_length_iff)
next
  case (Seq a b)
  from Seq.prems(2) obtain k where k: "k \<in> set (re_ends t a i)" "j \<in> set (re_ends t b k)" by auto
  from Seq.IH(1) [OF Seq.prems(1) k(1)] Seq.IH(2) [OF _ k(2)] show ?case by linarith
next
  case (Alt a b)
  from Alt.prems(2) consider "j \<in> set (re_ends t a i)" | "j \<in> set (re_ends t b i)" by auto
  then show ?case using Alt.IH [OF Alt.prems(1), of j] by cases
next
  case (Opt a)
  from Opt.prems(2) consider "j = i" | "j \<in> set (re_ends t a i)" by auto
  then show ?case using Opt.IH [OF Opt.prems(1), of j] Opt.prems(1) by cases simp_all
qed (simp_all split: if_splits)

lemma interval_image: "j \<in> (+) i ` {lo..<Suc m} \<longleftrightarrow> i \<le> j \<and> lo \<le> j - i \<and> j - i \<le> (m :: nat)"
proof
  assume "i \<le> j \<and> lo \<le> j - i \<and> j - i \<le> m"
  then show "j \<in> (+) i ` {lo..<Suc m}" by (intro image_eqI [of _ _ "j - i"]) auto
qed auto

lemma many_ends:
  "j \<in> set (re_ends t (Many p lo hi) i) \<longleftrightarrow>
     i \<le> j \<and> lo \<le> j - i \<and> j - i \<le> run_length p t i \<and> (\<forall>h. hi = Some h \<longrightarrow> j - i \<le> h)"
  by (cases hi) (auto simp only: re_ends.simps set_map set_upt interval_image option.case min.bounded_iff option.distinct option.inject)

lemma re_ends_correct: "i \<le> length t \<Longrightarrow> j \<in> set (re_ends t r i) \<longleftrightarrow> re_match t r i j"
proof (induction r arbitrary: i j)
  case (Many p lo hi)
  have "re_match t (Many p lo hi) i j \<longleftrightarrow> i \<le> j \<and> j \<le> length t \<and> (\<forall>k. i \<le> k \<longrightarrow> k < j \<longrightarrow> p (t ! k)) \<and> lo \<le> j - i \<and>
      (\<forall>h. hi = Some h \<longrightarrow> j - i \<le> h)"
    by (simp add: re_match_simps)
  moreover have "i \<le> j \<Longrightarrow> j - i \<le> run_length p t i \<longleftrightarrow> j \<le> length t \<and> (\<forall>k. i \<le> k \<longrightarrow> k < j \<longrightarrow> p (t ! k))"
    using run_length_iff [OF Many.prems, of "j - i" p] by simp
  ultimately show ?case unfolding many_ends by blast
next
  case (Seq a b)
  have "j \<in> set (re_ends t (Seq a b) i) \<longleftrightarrow> (\<exists>k \<in> set (re_ends t a i). j \<in> set (re_ends t b k))" by simp
  also have "\<dots> \<longleftrightarrow> (\<exists>k. re_match t a i k \<and> re_match t b k j)"
    using Seq.IH(1) [OF Seq.prems] Seq.IH(2) re_ends_bound [OF Seq.prems, of _ a] by blast
  finally show ?case by (simp add: re_match_simps)
next
  case (Alt a b)
  show ?case using Alt.IH [OF Alt.prems] by (simp add: re_match_simps)
next
  case (Opt a)
  show ?case using Opt.IH [OF Opt.prems] Opt.prems by (auto simp: re_match_simps)
qed (auto simp: re_match_simps split: if_splits)

lemma re_match_start: "re_match t r i j \<Longrightarrow> i \<le> length t"
  by (induction rule: re_match.induct) auto

lemma MatchString_iff: "MatchString r s \<longleftrightarrow> (\<exists>i j. re_match (runes s) r i j)"
proof -
  have "MatchString r s \<longleftrightarrow> (\<exists>i \<le> length (runes s). re_ends (runes s) r i \<noteq> [])"
    by (auto simp: MatchString_def Let_def list_ex_iff less_Suc_eq_le simp del: upt_Suc)
  also have "\<dots> \<longleftrightarrow> (\<exists>i \<le> length (runes s). \<exists>j. re_match (runes s) r i j)"
    using re_ends_correct by (metis empty_iff empty_set last_in_set)
  finally show ?thesis using re_match_start by blast
qed

end
