(* ===== verification/Moderation.thy ===== *)
theory Moderation
  imports Regex Json Messaging
begin

text \<open>
  \<open>internal/moderation\<close> and the handler of \<open>cmd/moderator\<close>: the filter every message and every interest
  passes.  The Unicode tables of the runes beyond ASCII (letters, digits, lower case) are a parameter; the
  blocked terms are an argument, as they are of \<open>NewFilterWithTerms\<close>.
\<close>

section \<open>Strings\<close>

record unicode =
  uni_letter :: "rune \<Rightarrow> bool"
  uni_digit :: "rune \<Rightarrow> bool"
  uni_lower :: "rune \<Rightarrow> rune"

definition IsLetter :: "unicode \<Rightarrow> rune \<Rightarrow> bool" where
  "IsLetter U r = (if r < 128 then 65 \<le> r \<and> r \<le> 90 \<or> 97 \<le> r \<and> r \<le> 122 else uni_letter U r)"

definition IsDigit :: "unicode \<Rightarrow> rune \<Rightarrow> bool" where
  "IsDigit U r = (if r < 128 then 48 \<le> r \<and> r \<le> 57 else uni_digit U r)"

definition lower_rune :: "unicode \<Rightarrow> rune \<Rightarrow> rune" where
  "lower_rune U r = (if r < 128 then if 65 \<le> r \<and> r \<le> 90 then r + 32 else r else uni_lower U r)"

definition IsSpace :: "rune \<Rightarrow> bool" where
  "IsSpace r \<longleftrightarrow> 9 \<le> r \<and> r \<le> 13 \<or> 8192 \<le> r \<and> r \<le> 8202 \<or>
     r \<in> {32, 133, 160, 5760, 8232, 8233, 8239, 8287, 12288}"

text \<open>\<open>strings.ToLower\<close>: a byte that is no part of a rune becomes U+FFFD.\<close>

definition ToLower :: "unicode \<Rightarrow> string \<Rightarrow> string" where
  "ToLower U s = encode (map (lower_rune U) (runes s))"

text \<open>The runes of a string with the bytes they take.\<close>

function parts :: "string \<Rightarrow> (rune \<times> string) list" where
  "parts s = (if s = [] then [] else (case DecodeRune s of (r, w) \<Rightarrow> (r, take w s) # parts (drop w s)))"
  by auto
termination
  by (relation "measure length") (auto dest: DecodeRune_pos)

declare parts.simps [simp del]

definition TrimSpace :: "string \<Rightarrow> string" where
  "TrimSpace s =
     (let sp = (\<lambda>x. IsSpace (fst x))
      in concat (map snd (rev (dropWhile sp (rev (dropWhile sp (parts s)))))))"

fun fields_from :: "(rune \<Rightarrow> bool) \<Rightarrow> string option \<Rightarrow> (rune \<times> string) list \<Rightarrow> string list" where
  "fields_from f None [] = []"
| "fields_from f (Some w) [] = [w]"
| "fields_from f cur ((r, b) # ps) =
     (if f r then (case cur of None \<Rightarrow> [] | Some w \<Rightarrow> [w]) @ fields_from f None ps
      else fields_from f (Some ((case cur of None \<Rightarrow> [] | Some w \<Rightarrow> w) @ b)) ps)"

definition FieldsFunc :: "string \<Rightarrow> (rune \<Rightarrow> bool) \<Rightarrow> string list" where
  "FieldsFunc s f = fields_from f None (parts s)"

fun Contains :: "string \<Rightarrow> string \<Rightarrow> bool" where
  "Contains [] p = (p = [])"
| "Contains (c # s) p = (take (length p) (c # s) = p \<or> Contains s p)"

section \<open>The filter\<close>

record FilterResult =
  Blocked :: bool
  Reason :: string
  Term :: string

definition passed :: FilterResult where
  "passed = \<lparr>Blocked = False, Reason = [], Term = []\<rparr>"

record Filter =
  words :: "string set"
  phrases :: "string list"

fun load_terms :: "unicode \<Rightarrow> string list \<Rightarrow> Filter \<Rightarrow> Filter" where
  "load_terms U [] f = f"
| "load_terms U (term # terms) f =
     (let normalized = ToLower U (TrimSpace term)
      in if normalized = [] then load_terms U terms f
         else if CHR '' '' \<in> set normalized then load_terms U terms (f\<lparr>phrases := phrases f @ [normalized]\<rparr>)
         else load_terms U terms (f\<lparr>words := insert normalized (words f)\<rparr>))"

definition NewFilterWithTerms :: "unicode \<Rightarrow> string list \<Rightarrow> Filter" where
  "NewFilterWithTerms U terms = load_terms U terms \<lparr>words = {}, phrases = []\<rparr>"

definition checkTokens :: "Filter \<Rightarrow> string list \<Rightarrow> FilterResult" where
  "checkTokens f tokens =
     (case find (\<lambda>w. w \<in> words f) tokens of
        Some w \<Rightarrow> \<lparr>Blocked = True, Reason = ''blocked_keyword'', Term = w\<rparr>
      | None \<Rightarrow>
          (let joined = join '' '' tokens
           in case find (Contains joined) (phrases f) of
                Some phrase \<Rightarrow> \<lparr>Blocked = True, Reason = ''blocked_keyword'', Term = phrase\<rparr>
              | None \<Rightarrow> passed))"

definition leet_rune :: "rune \<Rightarrow> rune" where
  "leet_rune r =
     (if r = 48 then 111 else if r = 49 then 105 else if r = 51 then 101 else if r = 64 then 97
      else if r = 36 then 115 else if r = 33 then 105 else r)"

definition normalizeLeet :: "string \<Rightarrow> string" where
  "normalizeLeet s = encode (map leet_rune (runes s))"

definition tokenizePlain :: "unicode \<Rightarrow> string \<Rightarrow> string list" where
  "tokenizePlain U s = FieldsFunc s (\<lambda>r. \<not> IsLetter U r \<and> \<not> IsDigit U r)"

definition leetChars :: "rune set" where
  "leetChars = {64, 36, 33}"

definition tokenizeLeet :: "unicode \<Rightarrow> string \<Rightarrow> string list" where
  "tokenizeLeet U s = FieldsFunc s (\<lambda>r. \<not> IsLetter U r \<and> \<not> IsDigit U r \<and> r \<notin> leetChars)"

section \<open>Spam\<close>

text \<open>Rune classes of the patterns; \<open>(?i)\<close> compares up to simple case folding.\<close>

definition re_space :: "rune \<Rightarrow> bool" where "re_space r \<longleftrightarrow> r \<in> {9, 10, 12, 13, 32}"
definition re_digit :: "rune \<Rightarrow> bool" where "re_digit r \<longleftrightarrow> 48 \<le> r \<and> r \<le> 57"

fun ci_text :: "string \<Rightarrow> regex" where
  "ci_text [] = Many (\<lambda>_. True) 0 (Some 0)"
| "ci_text (c # s) = Seq (Cls (\<lambda>r. fold_rune r = fold_rune (byte c))) (ci_text s)"

fun re_alts :: "regex list \<Rightarrow> regex" where
  "re_alts [] = Many (\<lambda>_. False) 1 None"
| "re_alts [a] = a"
| "re_alts (a # b # as) = Alt a (re_alts (b # as))"

definition urlPattern :: regex where
  "urlPattern =
     (let nonspace = (\<lambda>r. \<not> re_space r)
      in re_alts
        [Seq (ci_text ''http'') (Seq (Opt (ci_text ''s'')) (Seq (ci_text ''://'') (Many nonspace 1 None))),
         Seq (ci_text ''www.'') (Many nonspace 1 None),
         Seq (Many nonspace 1 None) (Seq (ci_text ''.'')
           (Seq (re_alts (map ci_text [''com'', ''net'', ''org'', ''io'', ''co'', ''xyz'', ''info'', ''biz'', ''ru'', ''cn'',
                                        ''tk'', ''ml'', ''ga'', ''cf'']))
             (Seq (ci_text ''/'') (Many nonspace 0 None))))])"

definition phonePattern :: regex where
  "phonePattern =
     (let sep = Opt (Cls (\<lambda>r. r = 45 \<or> r = 46 \<or> re_space r));
          digits = (\<lambda>lo hi. Many re_digit lo (Some hi))
      in Seq (Alt Bos (Cls re_space))
        (Seq (Opt (Seq (Opt (Cls (\<lambda>r. r = 43))) (Seq (digits 1 3) sep)))
        (Seq (Opt (Cls (\<lambda>r. r = 40)))
        (Seq (digits 2 4)
        (Seq (Opt (Cls (\<lambda>r. r = 41)))
        (Seq sep
        (Seq (digits 3 4)
        (Seq sep
        (Seq (digits 3 4) (Alt (Cls re_space) Eos))))))))))"

text \<open>
  The loop of both flood checks: true as soon as the current element has been seen \<open>threshold\<close> times in
  a row.
\<close>

fun flood_scan :: "nat \<Rightarrow> 'a \<Rightarrow> nat \<Rightarrow> 'a list \<Rightarrow> bool" where
  "flood_scan threshold prev count [] = False"
| "flood_scan threshold prev count (x # xs) =
     (if x = prev then
        (if threshold \<le> count + 1 then True else flood_scan threshold prev (count + 1) xs)
      else flood_scan threshold x 1 xs)"

definition hasCharFlood :: "string \<Rightarrow> bool" where
  "hasCharFlood s = flood_scan 5 (-1) 1 (map int (runes s))"

definition hasWordFlood :: "unicode \<Rightarrow> string \<Rightarrow> bool" where
  "hasWordFlood U s =
     (let ws = FieldsFunc s IsSpace
      in if length ws < 3 then False else flood_scan 3 [] 1 (map (ToLower U) ws))"

definition spamChecks :: "unicode \<Rightarrow> (string \<times> (string \<Rightarrow> bool)) list" where
  "spamChecks U =
     [(''url'', MatchString urlPattern), (''phone'', MatchString phonePattern),
      (''char_flood'', hasCharFlood), (''word_flood'', hasWordFlood U)]"

definition checkSpamPatterns :: "unicode \<Rightarrow> string \<Rightarrow> FilterResult" where
  "checkSpamPatterns U s =
     (case find (\<lambda>(name, m). m s) (spamChecks U) of
        Some (name, _) \<Rightarrow> \<lparr>Blocked = True, Reason = ''spam_pattern'', Term = name\<rparr>
      | None \<Rightarrow> passed)"

definition Check :: "unicode \<Rightarrow> Filter \<Rightarrow> string \<Rightarrow> FilterResult" where
  "Check U f s =
     (let lower = ToLower U s;
          result1 = checkTokens f (tokenizePlain U lower);
          result2 = checkTokens f (map normalizeLeet (tokenizeLeet U lower));
          result3 = checkSpamPatterns U s
      in if Blocked result1 then result1
         else if Blocked result2 then result2
         else if Blocked result3 then result3
         else passed)"

definition CheckInterests :: "unicode \<Rightarrow> Filter \<Rightarrow> string list \<Rightarrow> string list" where
  "CheckInterests U f interests = filter (\<lambda>i. \<not> Blocked (Check U f i)) interests"

section \<open>The moderation service\<close>

record ModerationRequest =
  modreq_SessionID :: string
  modreq_ChatID :: string
  modreq_Text :: string
  modreq_Ts :: int

definition marshal_ModerationRequest :: "ModerationRequest \<Rightarrow> string" where
  "marshal_ModerationRequest r = json_text (JObj
     [(''session_id'', JStr (modreq_SessionID r)), (''chat_id'', JStr (modreq_ChatID r)),
      (''text'', JStr (modreq_Text r)), (''ts'', JInt (modreq_Ts r))])"

definition unmarshal_ModerationRequest :: "string \<Rightarrow> ModerationRequest result" where
  "unmarshal_ModerationRequest data =
     (case Unmarshal [(''session_id'', FStr []), (''chat_id'', FStr []), (''text'', FStr []), (''ts'', FInt 0)] data of
        Inl err \<Rightarrow> Inl err
      | Inr fs \<Rightarrow> Inr \<lparr>modreq_SessionID = str_field fs ''session_id'', modreq_ChatID = str_field fs ''chat_id'',
          modreq_Text = str_field fs ''text'', modreq_Ts = int_field fs ''ts''\<rparr>)"

record ModerationResult =
  modres_SessionID :: string
  modres_ChatID :: string
  modres_Blocked :: bool
  modres_Reason :: string
  modres_Term :: string

definition marshal_ModerationResult :: "ModerationResult \<Rightarrow> string" where
  "marshal_ModerationResult r = json_text (JObj
     [(''session_id'', JStr (modres_SessionID r)), (''chat_id'', JStr (modres_ChatID r)),
      (''blocked'', JBool (modres_Blocked r)), (''reason'', JStr (modres_Reason r)), (''term'', JStr (modres_Term r))])"

definition unmarshal_ModerationResult :: "string \<Rightarrow> ModerationResult result" where
  "unmarshal_ModerationResult data =
     (case Unmarshal [(''session_id'', FStr []), (''chat_id'', FStr []), (''blocked'', FBool False),
             (''reason'', FStr []), (''term'', FStr [])] data of
        Inl err \<Rightarrow> Inl err
      | Inr fs \<Rightarrow> Inr \<lparr>modres_SessionID = str_field fs ''session_id'', modres_ChatID = str_field fs ''chat_id'',
          modres_Blocked = bool_field fs ''blocked'', modres_Reason = str_field fs ''reason'',
          modres_Term = str_field fs ''term''\<rparr>)"

text \<open>The handler of the subject \<open>moderation.check\<close>.\<close>

definition handleModerationCheck :: "('e, 'h, 'z) nats_scheme \<Rightarrow> unicode \<Rightarrow> Filter \<Rightarrow> string \<Rightarrow> 'e \<Rightarrow> 'e" where
  "handleModerationCheck N U f data e =
     (case unmarshal_ModerationRequest data of
        Inl err \<Rightarrow> e
      | Inr req \<Rightarrow>
          (let result = Check U f (modreq_Text req)
           in if Blocked result then
                snd (PublishModerationResult N (modreq_SessionID req)
                  (marshal_ModerationResult
                    \<lparr>modres_SessionID = modreq_SessionID req, modres_ChatID = modreq_ChatID req,
                     modres_Blocked = True, modres_Reason = Reason result, modres_Term = Term result\<rparr>) e)
              else e))"

section \<open>Flooding\<close>

text \<open>A list has a run: \<open>k\<close> equal elements one after the other.\<close>

definition has_run :: "nat \<Rightarrow> 'a list \<Rightarrow> bool" where
  "has_run k xs \<longleftrightarrow> (\<exists>i. i + k \<le> length xs \<and> (\<forall>j < k. xs ! (i + j) = xs ! i))"

lemma has_run_skip:
  assumes "c < k" "x \<noteq> p"
  shows "has_run k (replicate c p @ x # xs) \<longleftrightarrow> has_run k (x # xs)"
proof
  assume "has_run k (replicate c p @ x # xs)"
  then obtain i where i: "i + k \<le> c + length (x # xs)"
      "\<forall>j < k. (replicate c p @ x # xs) ! (i + j) = (replicate c p @ x # xs) ! i"
    by (auto simp: has_run_def)
  have "c \<le> i"
  proof (rule ccontr)
    assume "\<not> c \<le> i"
    then have "i < c" "c - i < k" using assms(1) by simp_all
    with i(2) [rule_format, of "c - i"] assms(2) show False by (simp add: nth_append)
  qed
  then have "(x # xs) ! (i - c + j) = (replicate c p @ x # xs) ! (i + j)" for j by (simp add: nth_append)
  from this this [of 0] i \<open>c \<le> i\<close> show "has_run k (x # xs)"
    unfolding has_run_def by (intro exI [of _ "i - c"]) auto
next
  assume "has_run k (x # xs)"
  then obtain i where i: "i + k \<le> length (x # xs)" "\<forall>j < k. (x # xs) ! (i + j) = (x # xs) ! i" by (auto simp: has_run_def)
  have "(replicate c p @ x # xs) ! (c + i + j) = (x # xs) ! (i + j)" for j by (simp add: nth_append add.assoc)
  from this this [of 0] i show "has_run k (replicate c p @ x # xs)"
    unfolding has_run_def by (intro exI [of _ "c + i"]) auto
qed

lemma has_run_full: "k \<le> c \<Longrightarrow> has_run k (replicate c p @ xs)"
  unfolding has_run_def by (intro exI [of _ 0]) (auto simp: nth_append)

lemma has_run_short: "length xs < k \<Longrightarrow> \<not> has_run k xs"
  by (auto simp: has_run_def)

lemma flood_scan_run: "0 < c \<Longrightarrow> c < k \<Longrightarrow> flood_scan k p c xs \<longleftrightarrow> has_run k (replicate c p @ xs)"
proof (induction xs arbitrary: p c)
  case Nil
  then show ?case by (simp add: has_run_short)
next
  case (Cons x xs)
  show ?case
  proof (cases "x = p")
    case True
    have r: "replicate c p @ x # xs = replicate (Suc c) p @ xs" by (simp add: True replicate_app_Cons_same)
    show ?thesis
    proof (cases "k \<le> Suc c")
      case True
      have "has_run k (replicate c p @ x # xs)" unfolding r by (rule has_run_full [OF True])
      with True \<open>x = p\<close> show ?thesis by simp
    next
      case False
      then have "flood_scan k p (Suc c) xs \<longleftrightarrow> has_run k (replicate c p @ x # xs)" unfolding r by (intro Cons.IH) simp_all
      with False \<open>x = p\<close> show ?thesis by simp
    qed
  next
    case False
    with has_run_skip [OF Cons.prems(2) False] Cons.IH [of 1 x] Cons.prems show ?thesis by simp
  qed
qed

lemma has_run_map: "inj f \<Longrightarrow> has_run k (map f xs) \<longleftrightarrow> has_run k xs"
proof -
  assume "inj f"
  then have "(\<forall>j < k. map f xs ! (i + j) = map f xs ! i) \<longleftrightarrow> (\<forall>j < k. xs ! (i + j) = xs ! i)" if "i + k \<le> length xs" for i
    using that by (auto simp: inj_eq)
  then show ?thesis by (auto simp: has_run_def)
qed

lemma flood_scan_fresh: "1 < k \<Longrightarrow> p \<notin> set xs \<Longrightarrow> flood_scan k p 1 xs \<longleftrightarrow> has_run k xs"
proof (cases xs)
  case Nil
  then show "1 < k \<Longrightarrow> p \<notin> set xs \<Longrightarrow> flood_scan k p 1 xs \<longleftrightarrow> has_run k xs" by (simp add: has_run_short)
next
  case (Cons x ys)
  assume k: "1 < k" and "p \<notin> set xs"
  with Cons have "x \<noteq> p" by auto
  have "flood_scan k p 1 xs \<longleftrightarrow> has_run k (replicate 1 p @ x # ys)" unfolding Cons by (rule flood_scan_run) (use k in simp_all)
  with has_run_skip [OF k \<open>x \<noteq> p\<close>, of ys] Cons show "flood_scan k p 1 xs \<longleftrightarrow> has_run k xs" by simp
qed

lemma fields_nonempty:
  "\<forall>(r, b) \<in> set ps. b \<noteq> [] \<Longrightarrow> cur \<noteq> Some [] \<Longrightarrow> [] \<notin> set (fields_from f cur ps)"
  by (induction f cur ps rule: fields_from.induct) (auto split: option.splits)

lemma parts_nonempty: "\<forall>(r, b) \<in> set (parts s). b \<noteq> []"
proof (induction s rule: parts.induct)
  case (1 s)
  show ?case
  proof (cases "s = []")
    case False
    obtain r w where d: "DecodeRune s = (r, w)" by fastforce
    with DecodeRune_width [OF False] have "0 < w" by simp
    with 1 [OF False d [symmetric]] False d show ?thesis by (subst parts.simps) simp
  qed (simp add: parts.simps)
qed

lemma ToLower_nonempty: "s \<noteq> [] \<Longrightarrow> ToLower U s \<noteq> []"
  by (subst ToLower_def, subst runes.simps) (simp add: encode_def case_prod_beta)

text \<open>
  C35.  The flood checks find what they are meant to: \<open>hasCharFlood\<close> is true exactly when the text has five equal
  runes in a row, \<open>hasWordFlood\<close> exactly when three words in a row are equal up to case.
\<close>

theorem floods_iff:
  "(hasCharFlood s \<longleftrightarrow> has_run 5 (runes s)) \<and>
   (hasWordFlood U s \<longleftrightarrow> has_run 3 (map (ToLower U) (FieldsFunc s IsSpace)))"
proof
  have "flood_scan 5 (- 1) 1 (map int (runes s)) \<longleftrightarrow> has_run 5 (map int (runes s))"
    by (rule flood_scan_fresh) auto
  then show "hasCharFlood s \<longleftrightarrow> has_run 5 (runes s)" by (simp add: hasCharFlood_def has_run_map)
  let ?ws = "map (ToLower U) (FieldsFunc s IsSpace)"
  have "[] \<notin> set (FieldsFunc s IsSpace)"
    unfolding FieldsFunc_def by (rule fields_nonempty [OF parts_nonempty]) simp
  then have "[] \<notin> set ?ws" using ToLower_nonempty [of _ U] by (metis (no_types, lifting) imageE list.set_map)
  then have "flood_scan 3 [] 1 ?ws \<longleftrightarrow> has_run 3 ?ws" by (intro flood_scan_fresh) simp_all
  then show "hasWordFlood U s \<longleftrightarrow> has_run 3 ?ws" by (auto simp: hasWordFlood_def Let_def has_run_short)
qed

section \<open>Keywords\<close>

text \<open>A byte below 128 ends whatever came before it.\<close>

lemma DecodeRune_ascii_end:
  assumes "xs \<noteq> []" "byte c < 128"
  shows "DecodeRune (xs @ c # ys) = DecodeRune xs"
proof -
  have "\<not> accepts a c" for a
    using assms(2) by (auto simp: accepts_def accept_range_def split: if_splits)
  moreover have "\<not> is_cont c" using assms(2) by (simp add: is_cont_def)
  ultimately show ?thesis
    using assms(1) by (auto simp: DecodeRune_def Let_def Cons_eq_append_conv split: list.splits)
qed

lemma runes_ascii_split: "byte c < 128 \<Longrightarrow> runes (xs @ c # ys) = runes xs @ byte c # runes ys"
proof (induction xs rule: runes.induct)
  case (1 xs)
  show ?case
  proof (cases "xs = []")
    case True
    with 1(2) show ?thesis by (simp add: runes.simps [of "c # ys"] runes.simps [of "[]"] Decode_bytes(1))
  next
    case False
    obtain r w where d: "DecodeRune xs = (r, w)" by fastforce
    have w: "w \<le> length xs" using DecodeRune_width [OF False] d by simp
    from 1(1) [OF False d [symmetric] 1(2)] DecodeRune_ascii_end [OF False 1(2)] d w False show ?thesis
      by (subst (1 2) runes.simps) simp
  qed
qed

lemma runes_ascii_prefix: "list_all (\<lambda>c. byte c < 128) v \<Longrightarrow> runes (v @ s) = map byte v @ runes s"
  using runes_ascii_split [of _ "[]"] by (induction v) (simp_all add: runes.simps [of "[]"])

lemma runes_scalar: "list_all is_scalar (runes s)"
proof (induction s rule: runes.induct)
  case (1 s)
  show ?case
  proof (cases "s = []")
    case True
    then show ?thesis by (simp add: runes.simps [of "[]"])
  next
    case False
    obtain r w where d: "DecodeRune s = (r, w)" by fastforce
    have "is_scalar r"
      using Encode_Decode [OF d False] by (cases "r = RuneError \<and> w = 1") (auto simp: is_scalar_def RuneError_def)
    with 1 [OF False d [symmetric]] d False show ?thesis by (subst runes.simps) simp
  qed
qed

lemma parts_encode: "list_all is_scalar rs \<Longrightarrow> parts (encode rs) = map (\<lambda>r. (r, EncodeRune r)) rs"
proof (induction rs)
  case Nil
  then show ?case by (simp add: encode_def parts.simps)
next
  case (Cons r rs)
  have e: "encode (r # rs) = EncodeRune r @ encode rs" by (simp add: encode_def)
  from Cons show ?case unfolding e by (subst parts.simps) (simp add: Decode_Encode)
qed

lemma fields_sep: "f a \<Longrightarrow> fields_from f cur (xs @ (a, b) # ys) = fields_from f cur xs @ fields_from f None ys"
  by (induction f cur xs rule: fields_from.induct) (auto split: option.splits)

lemma fields_word:
  "\<forall>(r, b) \<in> set ws. \<not> f r \<Longrightarrow> fields_from f (Some w) ws = [w @ concat (map snd ws)]"
  by (induction ws arbitrary: w) auto

lemma fields_word_None:
  assumes "\<forall>(r, b) \<in> set ws. \<not> f r" "ws \<noteq> []"
  shows "fields_from f None ws = [concat (map snd ws)]"
  using assms fields_word [of "tl ws" f] by (cases ws) auto

lemma fields_token:
  assumes "\<forall>(r, b) \<in> set ws. \<not> f r" "ws \<noteq> []" "xs = [] \<or> f (fst (last xs))" "ys = [] \<or> f (fst (hd ys))"
  shows "concat (map snd ws) \<in> set (fields_from f None (xs @ ws @ ys))"
proof -
  have 1: "concat (map snd ws) \<in> set (fields_from f None (ws @ ys))"
  proof (cases ys)
    case Nil
    then show ?thesis using fields_word_None [OF assms(1,2)] by simp
  next
    case (Cons y ys')
    then have "fields_from f None (ws @ ys) = fields_from f None ws @ fields_from f None ys'"
      using assms(4) fields_sep [of f "fst y" None ws "snd y" ys'] by simp
    then show ?thesis using fields_word_None [OF assms(1,2)] by simp
  qed
  show ?thesis
  proof (cases xs rule: rev_cases)
    case (snoc xs' x)
    then have "fields_from f None (xs @ ws @ ys) = fields_from f None xs' @ fields_from f None (ws @ ys)"
      using assms(3) fields_sep [of f "fst x" None xs' "snd x" "ws @ ys"] by simp
    with 1 show ?thesis by simp
  qed (use 1 in simp)
qed

text \<open>Lower case keeps runes runes, as it does in the tables of Unicode.\<close>

definition unicode_ok :: "unicode \<Rightarrow> bool" where
  "unicode_ok U \<longleftrightarrow> (\<forall>r. is_scalar r \<longrightarrow> is_scalar (uni_lower U r))"

lemma lower_scalar: "unicode_ok U \<Longrightarrow> is_scalar r \<Longrightarrow> is_scalar (lower_rune U r)"
  by (auto simp: unicode_ok_def lower_rune_def is_scalar_def)

lemma EncodeRune_ascii: "is_scalar r \<Longrightarrow> c \<in> set (EncodeRune r) \<Longrightarrow> byte c < 128 \<Longrightarrow> byte c = r"
proof -
  have h: "\<not> byte (char_of (128 + x)) < 128" if "x < 128" for x :: nat using that by (simp add: byte_def)
  assume a: "is_scalar r" "c \<in> set (EncodeRune r)" "byte c < 128"
  have "r < 1114112" using a(1) by (auto simp: is_scalar_def)
  then have d: "r < 2048 \<Longrightarrow> 64 + r div 64 < 128" "r < 65536 \<Longrightarrow> 96 + r div 4096 < 128" "112 + r div 262144 < 128" by simp_all
  consider "r < 128" | "128 \<le> r" "r < 2048" | "2048 \<le> r" "r < 65536" | "65536 \<le> r" by linarith
  then show ?thesis
  proof cases
    case 1
    with a show ?thesis by (auto simp: EncodeRune_def byte_def)
  next
    case 2
    with a h [of "64 + r div 64"] h [of "r mod 64"] d(1) show ?thesis by (auto simp: EncodeRune_def)
  next
    case 3
    with a h [of "96 + r div 4096"] h [of "r div 64 mod 64"] h [of "r mod 64"] d(2) show ?thesis by (auto simp: EncodeRune_def)
  next
    case 4
    with a h [of "112 + r div 262144"] h [of "r div 4096 mod 64"] h [of "r div 64 mod 64"] h [of "r mod 64"] d(3)
    show ?thesis by (auto simp: EncodeRune_def)
  qed
qed

lemma parts_ascii: "list_all (\<lambda>c. byte c < 128) s \<Longrightarrow> parts s = map (\<lambda>c. (byte c, [c])) s"
proof (induction s)
  case Nil
  then show ?case by (simp add: parts.simps)
next
  case (Cons c s)
  then show ?case by (subst parts.simps) (simp add: Decode_bytes(1))
qed

abbreviation word_rune :: "unicode \<Rightarrow> rune \<Rightarrow> bool" where
  "word_rune U r \<equiv> IsLetter U r \<or> IsDigit U r"

lemma lower_runes_scalar: "unicode_ok U \<Longrightarrow> list_all is_scalar rs \<Longrightarrow> list_all is_scalar (map (lower_rune U) rs)"
  using lower_scalar [of U] by (auto simp: list_all_iff)

lemma word_token:
  assumes "unicode_ok U" "runes s = pre @ w @ post" "w \<noteq> []" "\<forall>r \<in> set w. word_rune U (lower_rune U r)"
    and "pre = [] \<or> \<not> word_rune U (lower_rune U (last pre))" "post = [] \<or> \<not> word_rune U (lower_rune U (hd post))"
  shows "encode (map (lower_rune U) w) \<in> set (tokenizePlain U (ToLower U s))"
proof -
  let ?h = "\<lambda>r. (lower_rune U r, EncodeRune (lower_rune U r))"
  have "parts (ToLower U s) = map ?h pre @ map ?h w @ map ?h post"
    using parts_encode [OF lower_runes_scalar [OF assms(1) runes_scalar [of s]]] by (simp add: ToLower_def assms(2) comp_def)
  moreover have "concat (map snd (map ?h w)) \<in> set (fields_from (\<lambda>r. \<not> IsLetter U r \<and> \<not> IsDigit U r) None (map ?h pre @ map ?h w @ map ?h post))"
    by (rule fields_token) (use assms(3-6) in \<open>auto simp: last_map hd_map\<close>)
  ultimately show ?thesis by (simp add: tokenizePlain_def FieldsFunc_def encode_def comp_def)
qed

lemma load_terms_mono: "words f \<subseteq> words (load_terms U terms f)"
  by (induction U terms f rule: load_terms.induct) (auto simp: Let_def split: if_splits)

lemma load_terms_words:
  assumes "t \<in> set terms" "ToLower U (TrimSpace t) \<noteq> []" "CHR '' '' \<notin> set (ToLower U (TrimSpace t))"
  shows "ToLower U (TrimSpace t) \<in> words (load_terms U terms f)"
  using assms
proof (induction terms arbitrary: f)
  case (Cons t' terms)
  have "x \<in> words (load_terms U terms (f\<lparr>words := insert x (words f)\<rparr>))" for x
    using load_terms_mono [of "f\<lparr>words := insert x (words f)\<rparr>" U terms] by auto
  with Cons show ?case by (cases "t' = t") (auto simp: Let_def)
qed simp

lemma checkTokens_word: "t \<in> set tokens \<Longrightarrow> t \<in> words f \<Longrightarrow> Blocked (checkTokens f tokens)"
  by (cases "find (\<lambda>w. w \<in> words f) tokens") (auto simp: checkTokens_def find_None_iff)

text \<open>
  C36.  A blocked word does not get through: a filter made from a list of terms blocks every text in which one of them occurs as a word of its own, in any mixture of upper
  and lower case, whatever stands before and after it, well-formed or not.  The terms are normalised when the filter is made, by trimming and lower case.  A word of its
  own consists of runes which are letters or digits in lower case, and the runes next to it, if any, are neither.  This is so for all of Unicode, whatever its tables say, as long
  as lower case keeps runes runes.
\<close>

theorem keyword_blocked:
  assumes "unicode_ok U" and "t \<in> set terms" and "runes s = pre @ w @ post" and "w \<noteq> []"
    and "map (lower_rune U) w = map (lower_rune U) (runes (TrimSpace t))" and "\<forall>r \<in> set w. word_rune U (lower_rune U r)"
    and "pre = [] \<or> \<not> word_rune U (lower_rune U (last pre))" and "post = [] \<or> \<not> word_rune U (lower_rune U (hd post))"
  shows "Blocked (Check U (NewFilterWithTerms U terms) s)"
proof -
  have n: "ToLower U (TrimSpace t) = encode (map (lower_rune U) w)" by (simp add: ToLower_def assms(5))
  have "list_all is_scalar (map (lower_rune U) w)"
    unfolding assms(5) by (rule lower_runes_scalar [OF assms(1) runes_scalar])
  moreover have "32 \<notin> lower_rune U ` set w" using assms(6) by (auto simp: IsLetter_def IsDigit_def)
  moreover have "byte (CHR '' '') = 32" by (simp add: byte_def)
  ultimately have "CHR '' '' \<notin> set (encode (map (lower_rune U) w))"
    using EncodeRune_ascii [of _ "CHR '' ''"] by (force simp: encode_def list_all_iff)
  moreover have "encode (map (lower_rune U) w) \<noteq> []" using assms(4) by (cases w) (simp_all add: encode_def)
  ultimately have "encode (map (lower_rune U) w) \<in> words (NewFilterWithTerms U terms)"
    using load_terms_words [OF assms(2), of U] by (simp add: NewFilterWithTerms_def n)
  from checkTokens_word [OF word_token [OF assms(1,3,4,6-8)] this] show ?thesis by (simp add: Check_def Let_def)
qed

definition ascii_unicode :: unicode where
  "ascii_unicode = \<lparr>uni_letter = (\<lambda>_. False), uni_digit = (\<lambda>_. False), uni_lower = (\<lambda>r. r)\<rparr>"

theorem keyword_blocked_witness:
  "Blocked (Check ascii_unicode (NewFilterWithTerms ascii_unicode [''tea'', '' Spam '']) ''No SPaM!'')"
proof -
  have r: "runes ''No SPaM!'' = map byte ''No '' @ map byte ''SPaM'' @ map byte ''!''" "runes (TrimSpace '' Spam '') = map byte ''Spam''" 
    by (simp_all add: runes_ascii TrimSpace_def parts_ascii byte_def IsSpace_def)
  show ?thesis
    by (rule keyword_blocked [OF _ _ r(1), where t = "'' Spam ''"])
       (simp_all add: r(2) unicode_ok_def ascii_unicode_def byte_def lower_rune_def IsLetter_def IsDigit_def)
qed

end
