(* ===== verification/ReportStore.thy ===== *)
theory ReportStore
  imports Json ChatBuffer
begin

text \<open>
  \<open>internal/report/store.go\<close>: abuse reports in PostgreSQL.  The database is a parameter: one function inserts a
  row, one counts the rows for a fingerprint in a window.
\<close>

definition validReasons :: "string set" where
  "validReasons = {''harassment'', ''spam'', ''explicit'', ''other''}"

record MessageEntry =
  msg_From :: string
  msg_Text :: string
  msg_Ts :: int

record Report =
  ReporterFingerprint :: string
  ReportedFingerprint :: string
  rep_ChatID :: string
  rep_Reason :: string
  Messages :: "MessageEntry list"

text \<open>The values of an \<open>INSERT\<close>: the two fingerprints, the chat, the reason, the messages or null.\<close>

type_synonym report_row = "string \<times> string \<times> string \<times> string \<times> string option"

record 'e database =
  db_insert :: "report_row \<Rightarrow> 'e \<Rightarrow> error option \<times> 'e"
  db_count :: "string \<Rightarrow> Duration \<Rightarrow> 'e \<Rightarrow> int result \<times> 'e"

definition marshal_messages :: "MessageEntry list \<Rightarrow> string" where
  "marshal_messages ms = json_text (JArr (map (\<lambda>m.
     JObj [(''from'', JStr (msg_From m)), (''text'', JStr (msg_Text m)), (''ts'', JInt (msg_Ts m))]) ms))"

text \<open>The error for an invalid reason is only logged; its text shows the reason without the quoting of \<open>%q\<close>.\<close>

definition Create :: "('e, 'z) database_scheme \<Rightarrow> Report \<Rightarrow> 'e \<Rightarrow> error option \<times> 'e" where
  "Create db r e =
     (if rep_Reason r \<notin> validReasons then (Some (ErrText (''report: invalid reason '' @ rep_Reason r)), e)
      else
        (let messagesJSON = (if Messages r = [] then None else Some (marshal_messages (Messages r)))
         in case db_insert db (ReporterFingerprint r, ReportedFingerprint r, rep_ChatID r, rep_Reason r, messagesJSON) e of
              (Some err, e1) \<Rightarrow> (Some (ErrWrap ''report: insert'' err), e1)
            | (None, e1) \<Rightarrow> (None, e1)))"

definition CountRecent :: "('e, 'z) database_scheme \<Rightarrow> string \<Rightarrow> Duration \<Rightarrow> 'e \<Rightarrow> int result \<times> 'e" where
  "CountRecent db reportedFingerprint window e =
     (case db_count db reportedFingerprint window e of
        (Inl err, e1) \<Rightarrow> (Inl (ErrWrap ''report: count recent'' err), e1)
      | (Inr n, e1) \<Rightarrow> (Inr n, e1))"

text \<open>The messages of a chat as a report carries them.\<close>

definition report_messages :: "BufferedMessage list \<Rightarrow> MessageEntry list" where
  "report_messages buffered = map (\<lambda>bm. \<lparr>msg_From = bm_From bm, msg_Text = bm_Text bm, msg_Ts = bm_Ts bm\<rparr>) buffered"

end
