(* ===== verification/Handlers.thy ===== *)
theory Handlers
  imports WsServer MatchService Ban RateLimit ChatBuffer Validator Moderation ReportStore
begin

text \<open>
  The application of \<open>cmd/wsserver/main.go\<close>: a handler per message type, the handlers of what arrives over NATS, and
  the clean-up after a lost connection.  A closure given to \<open>natsClient.Subscribe...\<close> is a value of the type
  \<open>ws_handler\<close>, which names the closure and what it captures; \<open>deliver\<close> runs it.  A panic of the message buffer
  sets the flag \<open>panicked\<close>.  Log lines and metrics are left out.
\<close>

section \<open>State and services\<close>

datatype ws_handler =
    HChat string string
  | HMatchFound string
  | HMatchNotify string
  | HModeration string

record 'e app = "'e server" +
  app_subs :: subs
  msgBuffer :: MessageBuffer
  panicked :: bool

record 'e appenv = "('e, ws_handler) wsenv" +
  app_db :: "'e database"
  app_unicode :: unicode
  contentFilter :: Filter

definition with_subs :: "(subs \<Rightarrow> 'e \<Rightarrow> error option \<times> subs \<times> 'e) \<Rightarrow> 'e app \<Rightarrow> 'e app" where
  "with_subs f p = (let (_, subs, e) = f (app_subs p) (world p) in p\<lparr>app_subs := subs, world := e\<rparr>)"

text \<open>\<open>resp, _ := protocol.NewServerMessage(...)\<close>: nil on an error.\<close>

definition resp :: "string \<Rightarrow> server_msg \<Rightarrow> string" where
  "resp ty m = (case NewServerMessage ty m of Inl err \<Rightarrow> [] | Inr data \<Rightarrow> data)"

definition send :: "'e appenv \<Rightarrow> string \<Rightarrow> string \<Rightarrow> server_msg \<Rightarrow> 'e app \<Rightarrow> 'e app" where
  "send E sid ty m p = snd (SendMessage E sid (resp ty m) p)"

definition respond :: "'e appenv \<Rightarrow> conn \<Rightarrow> string \<Rightarrow> server_msg \<Rightarrow> 'e app \<Rightarrow> 'e app" where
  "respond E c ty m p = snd (WriteMessage E c (resp ty m) p)"

text \<open>\<open>err.Error()\<close>\<close>

fun error_text :: "error \<Rightarrow> string" where
  "error_text ErrNil = ''redis: nil''"
| "error_text (ErrReply t) = t"
| "error_text (ErrText t) = t"
| "error_text (ErrWrap t err) = t @ '': '' @ error_text err"

record ChatEvent =
  ev_Type :: string
  ev_From :: string
  ev_Text :: string
  ev_IsTyping :: bool
  ev_Ts :: int

definition marshal_ChatEvent :: "ChatEvent \<Rightarrow> string" where
  "marshal_ChatEvent ev = json_text (JObj (
     [(''type'', JStr (ev_Type ev)), (''from'', JStr (ev_From ev))] @
     (if ev_Text ev \<noteq> [] then [(''text'', JStr (ev_Text ev))] else []) @
     (if ev_IsTyping ev then [(''is_typing'', JBool True)] else []) @
     (if ev_Ts ev \<noteq> 0 then [(''ts'', JInt (ev_Ts ev))] else [])))"

definition chat_event_fields :: fields where
  "chat_event_fields = [(''type'', FStr []), (''from'', FStr []), (''text'', FStr []), (''is_typing'', FBool False), (''ts'', FInt 0)]"

definition unmarshal_ChatEvent :: "string \<Rightarrow> ChatEvent result" where
  "unmarshal_ChatEvent data =
     (case Unmarshal chat_event_fields data of
        Inl err \<Rightarrow> Inl err
      | Inr fs \<Rightarrow> Inr \<lparr>ev_Type = str_field fs ''type'', ev_From = str_field fs ''from'', ev_Text = str_field fs ''text'',
          ev_IsTyping = bool_field fs ''is_typing'', ev_Ts = int_field fs ''ts''\<rparr>)"

definition left_event :: "string \<Rightarrow> ChatEvent" where
  "left_event sid = \<lparr>ev_Type = ''partner_left'', ev_From = sid, ev_Text = [], ev_IsTyping = False, ev_Ts = 0\<rparr>"

section \<open>What arrives over NATS\<close>

definition subscribeToChatNATS :: "'e appenv \<Rightarrow> string \<Rightarrow> string \<Rightarrow> 'e app \<Rightarrow> 'e app" where
  "subscribeToChatNATS E localSID chatID p = with_subs (SubscribeToChat E chatID localSID (HChat localSID chatID)) p"

definition on_chat_event :: "'e appenv \<Rightarrow> string \<Rightarrow> string \<Rightarrow> 'e app \<Rightarrow> 'e app" where
  "on_chat_event E localSID data p =
     (case unmarshal_ChatEvent data of
        Inl err \<Rightarrow> p
      | Inr event \<Rightarrow>
          if ev_From event = localSID then p
          else if ev_Type event = ''message'' then
            send E localSID TypeMessage (ServerChatMsg ''partner'' (ev_Text event) (ev_Ts event)) p
          else if ev_Type event = ''typing'' then
            send E localSID TypeTyping (ServerTypingMsg (ev_IsTyping event)) p
          else if ev_Type event = ''partner_left'' then
            (let p1 = send E localSID TypePartnerLeft PartnerLeftMsg p;
                 p2 = with_subs (UnsubscribeFromChat E localSID) p1
             in outside0 (ClearChatID (env_redis E) (Unix E (world p2)) localSID) p2)
          else p)"

definition on_moderation_result :: "'e appenv \<Rightarrow> string \<Rightarrow> string \<Rightarrow> 'e app \<Rightarrow> 'e app" where
  "on_moderation_result E sid data p =
     (case unmarshal_ModerationResult data of
        Inl err \<Rightarrow> p
      | Inr modResult \<Rightarrow>
          if \<not> modres_Blocked modResult then p
          else send E sid TypeError (ErrorMsg ''content_warning'' ''Your message was flagged by our moderation system'') p)"

definition set_status :: "'e appenv \<Rightarrow> string \<Rightarrow> string \<Rightarrow> 'e app \<Rightarrow> 'e app" where
  "set_status E sid status p = outside0 (UpdateStatus (env_redis E) (Unix E (world p)) sid status) p"

definition on_match_notify :: "'e appenv \<Rightarrow> string \<Rightarrow> string \<Rightarrow> 'e app \<Rightarrow> 'e app" where
  "on_match_notify E sid data p =
     (case unmarshal_MatchNotification data of
        Inl err \<Rightarrow> p
      | Inr notif \<Rightarrow>
          (let p' =
             (if not_Type notif = ''accepted'' then
                (let p1 = subscribeToChatNATS E sid (not_ChatID notif) p;
                     p2 = outside0 (SetChatID (env_redis E) (Unix E (world p1)) sid (not_ChatID notif)) p1;
                     p3 = with_subs (SubscribeModerationResult E sid (HModeration sid)) p2
                 in send E sid TypeMatchAccepted (MatchAcceptedMsg (not_ChatID notif)) p3)
              else if not_Type notif = ''declined'' then
                set_status E sid StatusIdle (send E sid TypeMatchDeclined MatchDeclinedMsg p)
              else if not_Type notif = ''timed_out'' then
                set_status E sid StatusIdle (send E sid TypeMatchDeclined MatchDeclinedMsg p)
              else p)
           in with_subs (UnsubscribeMatchNotify E sid) p'))"

definition on_match_found :: "'e appenv \<Rightarrow> string \<Rightarrow> string \<Rightarrow> 'e app \<Rightarrow> 'e app" where
  "on_match_found E sid data p =
     (case unmarshal_MatchResult data of
        Inl err \<Rightarrow> p
      | Inr result \<Rightarrow>
          (let p' =
             (if res_Timeout result then
                set_status E sid StatusIdle (send E sid TypeMatchTimeout MatchTimeoutMsg p)
              else
                (let p1 = send E sid TypeMatchFound
                       (MatchFoundMsg (res_ChatID result) (res_SharedInterests result) (res_AcceptDeadline result)) p;
                     p2 = with_subs (UnsubscribeMatchNotify E sid) p1
                 in with_subs (SubscribeMatchNotify E sid (HMatchNotify sid)) p2))
           in with_subs (UnsubscribeMatchFound E sid) p'))"

fun deliver :: "'e appenv \<Rightarrow> ws_handler \<Rightarrow> string \<Rightarrow> 'e app \<Rightarrow> 'e app" where
  "deliver E (HChat localSID chatID) data p = on_chat_event E localSID data p"
| "deliver E (HMatchFound sid) data p = on_match_found E sid data p"
| "deliver E (HMatchNotify sid) data p = on_match_notify E sid data p"
| "deliver E (HModeration sid) data p = on_moderation_result E sid data p"

section \<open>A lost connection\<close>

text \<open>The chat, or nil when there is none or it cannot be read.\<close>

definition get_chat :: "'e appenv \<Rightarrow> string \<Rightarrow> 'e app \<Rightarrow> ChatSession option \<times> 'e app" where
  "get_chat E chatID p =
     (case outside (ChatStore.Get (env_redis E) chatID) p of
        (Inl err, p1) \<Rightarrow> (None, p1)
      | (Inr cs, p1) \<Rightarrow> (cs, p1))"

definition get_session :: "'e appenv \<Rightarrow> string \<Rightarrow> 'e app \<Rightarrow> Session option \<times> 'e app" where
  "get_session E sid p =
     (case outside (Session.Get (env_redis E) sid) p of
        (Inl err, p1) \<Rightarrow> (None, p1)
      | (Inr sess, p1) \<Rightarrow> (sess, p1))"

definition onDisconnect :: "'e appenv \<Rightarrow> 'e app disconnect" where
  "onDisconnect E connID p =
     (case get_session E connID p of
        (None, p1) \<Rightarrow> p1
      | (Some sess, p1) \<Rightarrow>
          (let p2 =
             (if sess_Status sess = StatusMatching then
                (let q1 = outside0 (PublishMatchCancel E (marshal_CancelRequest connID)) p1;
                     q2 = with_subs (UnsubscribeMatchFound E connID) q1
                 in with_subs (UnsubscribeMatchNotify E connID) q2)
              else p1)
           in if sess_ChatID sess \<noteq> [] then
                (let (cs, p3) = get_chat E (sess_ChatID sess) p2;
                     p4 = (case cs of
                         None \<Rightarrow> p3
                       | Some cs \<Rightarrow>
                           if \<not> IsParticipant cs connID then p3
                           else
                             (let r1 = outside0 (PublishChatMessage E (sess_ChatID sess) (marshal_ChatEvent (left_event connID))) p3;
                                  r2 = with_subs (UnsubscribeFromChat E connID) r1;
                                  r3 = with_subs (UnsubscribeModerationResult E connID) r2
                              in outside0 (ChatStore.Delete (env_redis E) (sess_ChatID sess)) r3))
                 in p4\<lparr>msgBuffer := ChatBuffer.Remove (msgBuffer p4) (sess_ChatID sess)\<rparr>)
              else p2))"

section \<open>The message handlers\<close>

definition on_set_fingerprint :: "'e appenv \<Rightarrow> conn \<Rightarrow> string \<Rightarrow> 'e app \<Rightarrow> 'e app" where
  "on_set_fingerprint E c fingerprint p =
     (let sid = conn_ID (heap p c)
      in if fingerprint = [] then p
         else
           (case outside (SetFingerprint (env_redis E) sid fingerprint) p of
              (Some err, p1) \<Rightarrow> p1
            | (None, p1) \<Rightarrow>
                (case outside (IsBanned (env_redis E) fingerprint) p1 of
                   (Inl err, p2) \<Rightarrow> p2
                 | (Inr (banned, remaining, reason), p2) \<Rightarrow>
                     if banned then
                       RemoveConnection E (onDisconnect E) c (respond E c TypeBanned (BannedMsg remaining reason) p2)
                     else p2)))"

definition on_find_match :: "'e appenv \<Rightarrow> conn \<Rightarrow> string list option \<Rightarrow> 'e app \<Rightarrow> 'e app" where
  "on_find_match E c interests p =
     (let sid = conn_ID (heap p c);
          ((allowed, _), p1) = outside (Allow (env_redis E) sid RuleMatch) p
      in if \<not> allowed then
           respond E c TypeRateLimited (RateLimitedMsg (whole_seconds (Window RuleMatch))) p1
         else
           (let clean = CheckInterests (app_unicode E) (contentFilter E) (case interests of None \<Rightarrow> [] | Some ts \<Rightarrow> ts);
                p2 = outside0 (SetInterests (env_redis E) (Unix E (world p1)) sid (join '','' clean)) p1;
                p3 = set_status E sid StatusMatching p2;
                p4 = outside0 (PublishMatchRequest E (marshal_MatchRequest \<lparr>req_SessionID = sid, req_Interests = Some clean\<rparr>)) p3;
                p5 = with_subs (UnsubscribeMatchFound E sid) p4;
                p6 = with_subs (SubscribeMatchFound E sid (HMatchFound sid)) p5
            in respond E c TypeMatchingStarted (MatchingStartedMsg 30) p6))"

definition on_cancel_match :: "'e appenv \<Rightarrow> conn \<Rightarrow> 'e app \<Rightarrow> 'e app" where
  "on_cancel_match E c p =
     (let sid = conn_ID (heap p c);
          p1 = outside0 (PublishMatchCancel E (marshal_CancelRequest sid)) p;
          p2 = with_subs (UnsubscribeMatchFound E sid) p1;
          p3 = with_subs (UnsubscribeMatchNotify E sid) p2
      in set_status E sid StatusIdle p3)"

definition notify :: "string \<Rightarrow> string \<Rightarrow> string" where
  "notify ty chatID = marshal_MatchNotification \<lparr>not_Type = ty, not_ChatID = chatID\<rparr>"

definition on_accept_match :: "'e appenv \<Rightarrow> conn \<Rightarrow> string \<Rightarrow> 'e app \<Rightarrow> 'e app" where
  "on_accept_match E c chatID p =
     (let sid = conn_ID (heap p c)
      in case outside (AcceptMatch (env_redis E) chatID sid) p of
           (Inl err, p1) \<Rightarrow> p1
         | (Inr result, p1) \<Rightarrow>
             if result = 1 then
               (let p2 = subscribeToChatNATS E sid chatID p1;
                    p3 = outside0 (SetChatID (env_redis E) (Unix E (world p2)) sid chatID) p2;
                    p4 = with_subs (SubscribeModerationResult E sid (HModeration sid)) p3;
                    p5 = send E sid TypeMatchAccepted (MatchAcceptedMsg chatID) p4;
                    (cs, p6) = get_chat E chatID p5;
                    p7 = (case cs of
                        None \<Rightarrow> p6
                      | Some cs \<Rightarrow> outside0 (PublishMatchNotify E (GetPartner cs sid) (notify ''accepted'' chatID)) p6)
                in with_subs (UnsubscribeMatchNotify E sid) p7)
             else p1)"

definition on_decline_match :: "'e appenv \<Rightarrow> conn \<Rightarrow> string \<Rightarrow> 'e app \<Rightarrow> 'e app" where
  "on_decline_match E c chatID p =
     (let sid = conn_ID (heap p c)
      in case get_chat E chatID p of
           (None, p1) \<Rightarrow> p1
         | (Some cs, p1) \<Rightarrow>
             (let partnerID = GetPartner cs sid;
                  p2 = outside0 (ChatStore.Delete (env_redis E) chatID) p1;
                  p3 = outside0 (PublishMatchNotify E partnerID (notify ''declined'' chatID)) p2;
                  p4 = with_subs (UnsubscribeMatchNotify E sid) p3
              in set_status E sid StatusIdle p4))"

definition on_message :: "'e appenv \<Rightarrow> conn \<Rightarrow> string \<Rightarrow> string \<Rightarrow> 'e app \<Rightarrow> 'e app" where
  "on_message E c chatID txt p =
     (let sid = conn_ID (heap p c);
          ((allowed, _), p1) = outside (Allow (env_redis E) sid RuleMessage) p
      in if \<not> allowed then
           respond E c TypeRateLimited (RateLimitedMsg (whole_seconds (Window RuleMessage))) p1
         else
           (case ValidateMessage txt of
              Some err \<Rightarrow> respond E c TypeError (ErrorMsg ''invalid_message'' (error_text err)) p1
            | None \<Rightarrow>
                if Blocked (Check (app_unicode E) (contentFilter E) txt) then
                  respond E c TypeError (ErrorMsg ''message_blocked'' ''Message contains prohibited content'') p1
                else
                  (case get_chat E chatID p1 of
                     (cs, p2) \<Rightarrow>
                       if (case cs of None \<Rightarrow> True | Some cs \<Rightarrow> \<not> IsParticipant cs sid \<or> Status cs \<noteq> StatusActive) then
                         respond E c TypeError (ErrorMsg ''invalid_chat'' ''not in an active chat'') p2
                       else
                         (let now = Unix E (world p2);
                              event = \<lparr>ev_Type = ''message'', ev_From = sid, ev_Text = txt, ev_IsTyping = False, ev_Ts = now\<rparr>;
                              p3 = outside0 (PublishChatMessage E chatID (marshal_ChatEvent event)) p2;
                              p4 = (case ChatBuffer.Add (msgBuffer p3) chatID \<lparr>bm_From = sid, bm_Text = txt, bm_Ts = now\<rparr> of
                                  None \<Rightarrow> p3\<lparr>panicked := True\<rparr>
                                | Some buf \<Rightarrow> p3\<lparr>msgBuffer := buf\<rparr>)
                          in if panicked p4 then p4
                             else outside0 (PublishModerationRequest E (marshal_ModerationRequest
                               \<lparr>modreq_SessionID = sid, modreq_ChatID = chatID, modreq_Text = txt, modreq_Ts = now\<rparr>)) p4))))"

definition on_typing :: "'e appenv \<Rightarrow> conn \<Rightarrow> string \<Rightarrow> bool \<Rightarrow> 'e app \<Rightarrow> 'e app" where
  "on_typing E c chatID is_typing p =
     (let sid = conn_ID (heap p c);
          event = \<lparr>ev_Type = ''typing'', ev_From = sid, ev_Text = [], ev_IsTyping = is_typing, ev_Ts = 0\<rparr>
      in outside0 (PublishChatMessage E chatID (marshal_ChatEvent event)) p)"

definition on_end_chat :: "'e appenv \<Rightarrow> conn \<Rightarrow> string \<Rightarrow> 'e app \<Rightarrow> 'e app" where
  "on_end_chat E c chatID p =
     (let sid = conn_ID (heap p c)
      in case get_chat E chatID p of
           (None, p1) \<Rightarrow> p1
         | (Some cs, p1) \<Rightarrow>
             if \<not> IsParticipant cs sid then p1
             else
               (let p2 = outside0 (PublishChatMessage E chatID (marshal_ChatEvent (left_event sid))) p1;
                    p3 = with_subs (UnsubscribeFromChat E sid) p2;
                    p4 = with_subs (UnsubscribeModerationResult E sid) p3;
                    p5 = outside0 (ChatStore.Delete (env_redis E) chatID) p4;
                    p6 = outside0 (ClearChatID (env_redis E) (Unix E (world p5)) sid) p5
                in p6\<lparr>msgBuffer := ChatBuffer.Remove (msgBuffer p6) chatID\<rparr>))"

text \<open>Telling a banned user and closing the connection, if the user is connected to this server.\<close>

definition eject :: "'e appenv \<Rightarrow> string \<Rightarrow> Duration \<Rightarrow> 'e app \<Rightarrow> 'e app" where
  "eject E partnerID duration p =
     (let p1 = send E partnerID TypeBanned (BannedMsg (whole_seconds duration) ''multiple_reports'') p
      in case Connections.Get partnerID p1 of
           None \<Rightarrow> p1
         | Some c \<Rightarrow> RemoveConnection E (onDisconnect E) c p1)"

definition store_report :: "'e appenv \<Rightarrow> string \<Rightarrow> string \<Rightarrow> string \<Rightarrow> string \<Rightarrow> 'e app \<Rightarrow> 'e app" where
  "store_report E reporterFP reportedFP chatID reason p =
     (case ChatBuffer.Get (msgBuffer p) chatID of
        None \<Rightarrow> p\<lparr>panicked := True\<rparr>
      | Some buffered \<Rightarrow>
          if reporterFP = [] then p
          else outside0 (ReportStore.Create (app_db E)
            \<lparr>ReporterFingerprint = reporterFP, ReportedFingerprint = reportedFP, rep_ChatID = chatID, rep_Reason = reason,
             Messages = report_messages buffered\<rparr>) p)"

definition check_ban :: "'e appenv \<Rightarrow> string \<Rightarrow> string \<Rightarrow> string \<Rightarrow> 'e app \<Rightarrow> 'e app" where
  "check_ban E partnerID fp reason p =
     (case outside (ReportAndCheck (env_redis E) fp reason) p of
        (Inl err, p1) \<Rightarrow> p1
      | (Inr (banned, duration), p1) \<Rightarrow>
          if banned then eject E partnerID duration p1
          else
            (case outside (CountRecent (app_db E) fp (24 * Hour)) p1 of
               (Inl err, p2) \<Rightarrow> p2
             | (Inr pgCount, p2) \<Rightarrow>
                 if AutoBanThreshold \<le> pgCount then
                   (case outside (Escalate (env_redis E) fp ''multiple_reports'') p2 of
                      (Inl err, p3) \<Rightarrow> p3
                    | (Inr pgDuration, p3) \<Rightarrow> eject E partnerID pgDuration p3)
                 else p2))"

definition on_report :: "'e appenv \<Rightarrow> conn \<Rightarrow> string \<Rightarrow> string \<Rightarrow> 'e app \<Rightarrow> 'e app" where
  "on_report E c chatID reason p =
     (let sid = conn_ID (heap p c)
      in case get_chat E chatID p of
           (None, p1) \<Rightarrow> p1
         | (Some cs, p1) \<Rightarrow>
             if \<not> IsParticipant cs sid then p1
             else
               (let partnerID = GetPartner cs sid
                in if partnerID = [] then p1
                   else
                     (case get_session E partnerID p1 of
                        (None, p2) \<Rightarrow> p2
                      | (Some partner, p2) \<Rightarrow>
                          if sess_Fingerprint partner = [] then p2
                          else
                            (let (reporter, p3) = get_session E sid p2;
                                 reporterFP = (case reporter of None \<Rightarrow> [] | Some s \<Rightarrow> sess_Fingerprint s);
                                 p4 = store_report E reporterFP (sess_Fingerprint partner) chatID reason p3
                             in if panicked p4 then p4
                                else check_ban E partnerID (sess_Fingerprint partner) reason p4))))"

section \<open>The program\<close>

text \<open>A handler gets only messages of its own type, so that its type assertion succeeds.\<close>

definition handle_msg :: "'e appenv \<Rightarrow> conn \<Rightarrow> client_msg \<Rightarrow> 'e app \<Rightarrow> 'e app" where
  "handle_msg E c msg =
     (case msg of
        SetFingerprintMsg fp \<Rightarrow> on_set_fingerprint E c fp
      | FindMatchMsg interests \<Rightarrow> on_find_match E c interests
      | CancelMatchMsg \<Rightarrow> on_cancel_match E c
      | AcceptMatchMsg chatID \<Rightarrow> on_accept_match E c chatID
      | DeclineMatchMsg chatID \<Rightarrow> on_decline_match E c chatID
      | ChatMsg chatID txt \<Rightarrow> on_message E c chatID txt
      | TypingMsg chatID is_typing \<Rightarrow> on_typing E c chatID is_typing
      | EndChatMsg chatID \<Rightarrow> on_end_chat E c chatID
      | ReportMsg chatID reason \<Rightarrow> on_report E c chatID reason
      | PingMsg \<Rightarrow> (\<lambda>p. p))"

definition app_handlers :: "'e appenv \<Rightarrow> 'e app handlers" where
  "app_handlers E ty =
     (if ty \<in> {TypeSetFingerprint, TypeFindMatch, TypeCancelMatch, TypeAcceptMatch, TypeDeclineMatch, TypeMessage, TypeTyping,
               TypeEndChat, TypeReport}
      then Some (handle_msg E) else None)"

definition onMessage :: "'e appenv \<Rightarrow> 'e app receive" where
  "onMessage E = Dispatch E (app_handlers E)"

end
