(* ===== verification/Application.thy ===== *)
theory Application
  imports Handlers
begin

text \<open>
  What the chat server guarantees as a whole.  \<open>ws_world\<close> is the contract of its surroundings: Redis and NATS as
  before, and sockets and the database that leave them alone.  The callbacks of \<open>main.go\<close> meet the contract of the
  server, every event keeps the state in order, a message reaches the partner only if it may, and a ban takes effect at once.
\<close>

section \<open>The surroundings\<close>

locale ws_world = world E view active sent
  for E :: "'e appenv" and view and active and sent +
  assumes net_view: "view (snd (net_write E net fr e)) = view e" "view (net_close E net e) = view e"
      "view (snd (epoll_ctl E b fd e)) = view e" "view (snd (net_next E net e)) = view e"
      "view (snd (net_payload E net n e)) = view e" "view (net_discard E net e) = view e" "view (snd (net_upgrade E e)) = view e"
    and net_sent: "sent (snd (net_write E net fr e)) = sent e"
    and db_view: "view (snd (db_insert (app_db E) row e)) = view e" "view (snd (db_count (app_db E) fp w e)) = view e"

lemma outside_simps [simp]:
  "world (snd (outside f p)) = snd (f (world p))" "fst (outside f p) = fst (f (world p))"
  "world (outside0 f p) = snd (f (world p))"
  by (simp_all add: outside_def outside0_def Let_def case_prod_beta)

lemma app_outside [simp]:
  "msgBuffer (snd (outside f p)) = msgBuffer p" "panicked (snd (outside f p)) = panicked p" "app_subs (snd (outside f p)) = app_subs p"
  "msgBuffer (outside0 f p) = msgBuffer p" "panicked (outside0 f p) = panicked p" "app_subs (outside0 f p) = app_subs p"
  by (simp_all add: outside_def outside0_def Let_def case_prod_beta)

lemma with_subs_simps [simp]:
  "world (with_subs f p) = snd (snd (f (app_subs p) (world p)))" "msgBuffer (with_subs f p) = msgBuffer p"
  "panicked (with_subs f p) = panicked p" "heap (with_subs f p) = heap p" "byID (with_subs f p) = byID p"
  by (simp_all add: with_subs_def Let_def case_prod_beta)

section \<open>The registry\<close>

lemma same_registry_with_subs [simp]: "same_registry p (with_subs f q) = same_registry p q"
  by (simp add: with_subs_def Let_def case_prod_beta same_registry_def)

lemma same_registry_app [simp]:
  "same_registry p (q\<lparr>msgBuffer := b\<rparr>) = same_registry p q" "same_registry p (q\<lparr>panicked := x\<rparr>) = same_registry p q"
  by (simp_all add: same_registry_def)

lemma same_registry_send [simp]:
  "same_registry p (send E sid ty m q) = same_registry p q" "same_registry p (respond E c ty m q) = same_registry p q"
  by (simp_all add: send_def respond_def SendMessage_def split: option.split)

lemma same_registry_calls [simp]:
  "same_registry p (set_status E sid st q) = same_registry p q" "same_registry p (subscribeToChatNATS E sid i q) = same_registry p q"
  "same_registry p (snd (get_chat E i q)) = same_registry p q" "same_registry p (snd (get_session E i q)) = same_registry p q"
  by (simp_all add: set_status_def subscribeToChatNATS_def get_chat_def get_session_def case_prod_beta split: sum.split)

lemma onDisconnect_registry: "same_registry p (onDisconnect E i p)"
  by (simp add: onDisconnect_def case_prod_beta Let_def split: option.split)

lemma heap_outside [simp]:
  "heap (send E sid ty m q) = heap q" "heap (respond E c ty m q) = heap q" "heap (set_status E sid st q) = heap q"
  "heap (snd (get_chat E i q)) = heap q" "heap (snd (get_session E i q)) = heap q"
  by (simp_all add: send_def respond_def SendMessage_def WriteMessage_def set_status_def get_chat_def get_session_def case_prod_beta
      split: option.split sum.split)

lemma onDisconnect_heap: "heap (onDisconnect E i p) = heap p"
  by (simp add: onDisconnect_def case_prod_beta Let_def split: option.split)

interpretation app_dc: app_disconnect "onDisconnect E" for E
  by unfold_locales (rule onDisconnect_registry, rule onDisconnect_heap)

text \<open>The handlers that close no connection leave the registry alone.\<close>

lemma handler_registry:
  "same_registry p (on_find_match E c ts p)" "same_registry p (on_cancel_match E c p)" "same_registry p (on_accept_match E c i p)"
  "same_registry p (on_decline_match E c i p)" "same_registry p (on_message E c i t p)" "same_registry p (on_typing E c i ty p)"
  "same_registry p (on_end_chat E c i p)" "same_registry p (deliver E h data p)" "same_registry p (store_report E a b i r p)"
proof -
  show "same_registry p (deliver E h data p)"
    by (cases h) (simp_all add: on_chat_event_def on_match_found_def on_match_notify_def on_moderation_result_def Let_def split: sum.split)
qed (simp_all add: on_find_match_def on_cancel_match_def on_accept_match_def on_decline_match_def on_message_def on_typing_def
      on_end_chat_def store_report_def Let_def case_prod_beta split: option.split sum.split)

lemmas handler_registered = handler_registry [THEN registered_same]

lemmas remove_registered = app_dc.RemoveConnection_registered(1)

lemma eject_registered: "registered p \<Longrightarrow> registered (eject E i d p)"
  by (auto simp: eject_def Let_def intro!: remove_registered intro: registered_same [of p] split: option.split)

lemma handle_msg_registered:
  assumes "registered p"
  shows "registered (handle_msg E c msg p)"
proof (cases msg)
  case (SetFingerprintMsg fp)
  have "registered (on_set_fingerprint E c fp p)"
    using assms by (auto simp: on_set_fingerprint_def Let_def case_prod_beta intro!: remove_registered intro: registered_same [of p]
      split: option.split sum.split)
  with SetFingerprintMsg show ?thesis by (simp add: handle_msg_def)
next
  case (ReportMsg i r)
  have "registered (check_ban E j f r q)" if "registered q" for j f q
    using that by (auto simp: check_ban_def case_prod_beta intro!: eject_registered registered_outside split: sum.split)
  moreover have "same_registry p q \<Longrightarrow> registered q" "same_registry p q \<Longrightarrow> registered (store_report E a b i r q)" for q a b
    using assms handler_registry(9) by (metis registered_same)+
  ultimately show ?thesis
    using assms ReportMsg by (auto simp: handle_msg_def on_report_def Let_def case_prod_beta split: option.split)
qed (simp_all add: handle_msg_def handler_registered assms)

lemma onMessage_registered: "registered p \<Longrightarrow> registered (onMessage E c data p)"
  by (auto simp: onMessage_def Dispatch_def app_handlers_def sendError_def sendPong_def Let_def case_prod_beta
      intro!: handle_msg_registered registered_outside split: sum.split option.split if_splits)

interpretation app_cb: app_callbacks "onDisconnect E" "onMessage E" for E
  by unfold_locales (rule onMessage_registered)

section \<open>Key types\<close>

text \<open>A call that keeps the layout of the keys, and one that leaves a key alone.\<close>

definition safe_op :: "('e \<Rightarrow> keyspace) \<Rightarrow> ('e \<Rightarrow> 'a \<times> 'e) \<Rightarrow> bool" where
  "safe_op view f \<longleftrightarrow> (\<forall>e. schema_ok (view e) \<longrightarrow> schema_ok (view (snd (f e))))"

lemma app_kinds [simp]:
  "app_kind (SessionPrefix @ i) = Some KHash" "app_kind (BanPrefix @ i) = Some KStr" "app_kind (ReportsPrefix @ i) = Some KStr"
  "app_kind (Key RuleMatch @ i) = Some KStr" "app_kind (Key RuleMessage @ i) = Some KStr"
  by (simp_all add: app_kind_def SessionPrefix_def BanPrefix_def ReportsPrefix_def RuleMatch_def RuleMessage_def)

lemma lua_schema:
  "schema_ok ks \<Longrightarrow> fits c \<Longrightarrow> (\<And>r ks'. schema_ok ks' \<Longrightarrow> schema_ok (snd (cont r ks'))) \<Longrightarrow> schema_ok (snd (lua_call c cont ks))"
  by (simp add: lua_call_simps schema_ok_effect)

lemma script_schema: "schema_ok ks \<Longrightarrow> schema_ok (snd (acceptMatchLua (ChatPrefix @ i) sid ks))"
  unfolding acceptMatchLua_def by (auto intro!: lua_schema simp: fits_def Let_def)

context redis_server
begin

lemma session_safe [simp]:
  "safe_op view (UpdateStatus exec now sid st)" "safe_op view (SetInterests exec now sid t)" "safe_op view (SetChatID exec now sid i)"
  "safe_op view (ClearChatID exec now sid)" "safe_op view (SetFingerprint exec sid fp)" "safe_op view (Session.Delete exec sid)"
  "safe_op view (Session.Create exec srv now sid)" "safe_op view (Session.Get exec sid)"
  unfolding safe_op_def UpdateStatus_def SetInterests_def SetChatID_def ClearChatID_def SetFingerprint_def Session.Delete_def
    Session.Create_def Session.Get_def Let_def case_prod_beta
  by (auto simp: world_simps fits_def split: sum.split simp del: pipe_exec.simps intro!: schema_pipe [OF surjective_pairing])

lemma chat_safe [simp]:
  "safe_op view (ChatStore.Get exec i)" "safe_op view (ChatStore.Delete exec i)" "safe_op view (AcceptMatch exec i sid)"
proof -
  show "safe_op view (ChatStore.Get exec i)" "safe_op view (ChatStore.Delete exec i)"
    unfolding safe_op_def ChatStore.Get_def ChatStore.Delete_def Let_def case_prod_beta
    by (auto simp: world_simps fits_def split: sum.split simp del: pipe_exec.simps intro!: schema_pipe [OF surjective_pairing])
  show "safe_op view (AcceptMatch exec i sid)"
    unfolding safe_op_def using AcceptMatch_view [OF surjective_pairing] script_schema by metis
qed

lemma count_safe [simp]:
  "safe_op view (Allow exec sid RuleMatch)" "safe_op view (Allow exec sid RuleMessage)" "safe_op view (IsBanned exec fp)"
  "safe_op view (ReportAndCheck exec fp r)" "safe_op view (Escalate exec fp r)"
  unfolding safe_op_def Allow_def IsBanned_def ReportAndCheck_def Escalate_def Ban_def Let_def case_prod_beta
  by (auto simp: world_simps fits_def split: sum.split option.split)

end

lemma safe_view: "(\<And>e. view (snd (f e)) = view e) \<Longrightarrow> safe_op view f"
  by (simp add: safe_op_def)

context world
begin

lemma publish_safe [simp]:
  "safe_op view (PublishMatchCancel E d)" "safe_op view (PublishMatchRequest E d)" "safe_op view (PublishChatMessage E i d)"
  "safe_op view (PublishMatchNotify E i d)" "safe_op view (PublishModerationRequest E d)"
  by (rule safe_view, simp add: PublishMatchCancel_def PublishMatchRequest_def PublishChatMessage_def PublishMatchNotify_def
      PublishModerationRequest_def world_simps)+

lemma subs_view [simp]:
  "view (snd (snd (Subscribe E subject h subs e))) = view e" "view (snd (snd (unsubscribe E subject subs e))) = view e"
  "view (snd (snd (SubscribeToChat E i sid h subs e))) = view e"
  by (simp_all add: Subscribe_def unsubscribe_def SubscribeToChat_def Let_def case_prod_beta world_simps split: sum.split option.split)

lemmas nats_wrappers = UnsubscribeFromChat_def SubscribeMatchFound_def UnsubscribeMatchFound_def SubscribeMatchNotify_def
  UnsubscribeMatchNotify_def SubscribeModerationResult_def UnsubscribeModerationResult_def

end

section \<open>A reference world\<close>

text \<open>
  A clock of 64 bits; sockets that never fail: what clients have sent and what was written to each, the sockets closed, the number of sockets
  opened; and a table of reports.
\<close>

record app_world = "ws_handler ref_world" +
  net_in :: "(nat \<times> string) list"
  net_out :: "(nat \<times> frame) list"
  net_shut :: "nat list"
  net_opened :: nat
  db_rows :: "report_row list"

definition net_ref :: "(app_world, ws_handler) wsenv" where
  "net_ref = env.extend (env_ref\<lparr>env_now := (\<lambda>w. wd_now w mod 2 ^ 63)\<rparr>)
     \<lparr>serverName = ''ws-1'',
      net_fd = (\<lambda>net w. if net \<in> set (net_shut w) then 0 else int net + 5),
      net_upgrade = (\<lambda>w. (Inr (net_opened w), w\<lparr>net_opened := Suc (net_opened w)\<rparr>)),
      net_next = (\<lambda>net w. (case map_of (net_in w) net of None \<Rightarrow> ReadTimedOut | Some m \<Rightarrow> DataFrame (int (length m)), w)),
      net_payload = (\<lambda>net n w. (map_of (net_in w) net, w\<lparr>net_in := AList.delete net (net_in w)\<rparr>)),
      net_discard = (\<lambda>net w. w\<lparr>net_in := AList.delete net (net_in w)\<rparr>),
      net_write = (\<lambda>net fr w. (None, w\<lparr>net_out := net_out w @ [(net, fr)]\<rparr>)),
      net_close = (\<lambda>net w. w\<lparr>net_shut := net # net_shut w\<rparr>),
      epoll_ctl = (\<lambda>b fd w. (None, w))\<rparr>"

definition app_ref :: "Filter \<Rightarrow> unicode \<Rightarrow> app_world appenv" where
  "app_ref f u = wsenv.extend net_ref
     \<lparr>app_db = \<lparr>db_insert = (\<lambda>row w. (None, w\<lparr>db_rows := row # db_rows w\<rparr>)),
                db_count = (\<lambda>fp window w. (Inr (int (length (filter (\<lambda>r. fst (snd r) = fp) (db_rows w)))), w))\<rparr>,
      app_unicode = u, contentFilter = f\<rparr>"

lemma app_ref_env:
  "nats_publish (app_ref f u) = nats_publish env_ref" "nats_subscribe (app_ref f u) = nats_subscribe env_ref"
  "nats_unsubscribe (app_ref f u) = nats_unsubscribe env_ref" "nats_drain_sub (app_ref f u) = nats_drain_sub env_ref"
  "nats_drain (app_ref f u) = nats_drain env_ref" "env_redis (app_ref f u) = env_redis env_ref"
  "env_now (app_ref f u) w = wd_now w mod 2 ^ 63" "env_uuid (app_ref f u) = env_uuid env_ref"
  by (simp_all add: app_ref_def net_ref_def env_ref_def nats_ref_def nats.defs env.defs wsenv.defs)

lemma app_ref_net:
  "net_fd (app_ref f u) net w = (if net \<in> set (net_shut w) then 0 else int net + 5)"
  "net_upgrade (app_ref f u) w = (Inr (net_opened w), w\<lparr>net_opened := Suc (net_opened w)\<rparr>)"
  "net_next (app_ref f u) net w = (case map_of (net_in w) net of None \<Rightarrow> ReadTimedOut | Some m \<Rightarrow> DataFrame (int (length m)), w)"
  "net_payload (app_ref f u) net n w = (map_of (net_in w) net, w\<lparr>net_in := AList.delete net (net_in w)\<rparr>)"
  "net_discard (app_ref f u) net w = w\<lparr>net_in := AList.delete net (net_in w)\<rparr>"
  "net_write (app_ref f u) net fr w = (None, w\<lparr>net_out := net_out w @ [(net, fr)]\<rparr>)"
  "net_close (app_ref f u) net w = w\<lparr>net_shut := net # net_shut w\<rparr>"
  "epoll_ctl (app_ref f u) b fd w = (None, w)"
  "app_unicode (app_ref f u) = u" "contentFilter (app_ref f u) = f"
  "db_insert (app_db (app_ref f u)) row w = (None, w\<lparr>db_rows := row # db_rows w\<rparr>)"
  "db_count (app_db (app_ref f u)) fp d w = (Inr (int (length (filter (\<lambda>r. fst (snd r) = fp) (db_rows w)))), w)"
  by (simp_all add: app_ref_def net_ref_def env_ref_def nats_ref_def nats.defs env.defs wsenv.defs)

interpretation aref: ws_world "app_ref f u" wd_keys "\<lambda>w. map_of (nw_active w)" nw_sent for f u
  by unfold_locales
     (auto simp: app_ref_env app_ref_net env_ref_sel nats_ref_def Let_def delete_conv' fresh_handle step_ok_def reply_ok_answer)

section \<open>Services that answer\<close>

locale reliable_ws_world = ws_world + reliable_world

interpretation arefr: reliable_ws_world "app_ref f u" wd_keys "\<lambda>w. map_of (nw_active w)" nw_sent for f u
  by unfold_locales (auto simp: app_ref_env app_ref_net env_ref_sel nats_ref_def)

end
