(* ===== verification/AppInvariant.thy ===== *)
theory AppInvariant
  imports Application
begin

text \<open>
  Whatever clients send, whatever arrives over NATS and whatever fails, the chat server keeps its state in order: the keys
  of the application keep their kinds, the message buffer stays sound and never panics, and the two maps of the registry agree.
\<close>

section \<open>States in order\<close>

definition in_order :: "('e \<Rightarrow> keyspace) \<Rightarrow> 'e app \<Rightarrow> bool" where
  "in_order view p \<longleftrightarrow> schema_ok (view (world p)) \<and> mb_inv (msgBuffer p) \<and> \<not> panicked p"

lemma in_order_outside [simp]:
  "safe_op view f \<Longrightarrow> in_order view p \<Longrightarrow> in_order view (snd (outside f p))"
  "safe_op view f \<Longrightarrow> in_order view p \<Longrightarrow> in_order view (outside0 f p)"
  by (simp_all add: in_order_def safe_op_def)

lemma in_order_subs [simp]:
  "(\<And>subs e. view (snd (snd (f subs e))) = view e) \<Longrightarrow> in_order view p \<Longrightarrow> in_order view (with_subs f p)"
  by (simp add: in_order_def)

lemma in_order_buffer [simp]:
  "in_order view p \<Longrightarrow> mb_inv b \<Longrightarrow> in_order view (p\<lparr>msgBuffer := b\<rparr>)" "mb_inv b \<Longrightarrow> mb_inv (ChatBuffer.Remove b i)"
  using mb.rem_log by (simp_all add: in_order_def)

lemma in_order_parts [simp]:
  "in_order view (p\<lparr>byID := a\<rparr>) = in_order view p" "in_order view (p\<lparr>byFd := b\<rparr>) = in_order view p"
  "in_order view (p\<lparr>epoll_conns := x\<rparr>) = in_order view p" "in_order view (p\<lparr>heap := h\<rparr>) = in_order view p"
  "in_order view (p\<lparr>next_conn := n\<rparr>) = in_order view p" "in_order view (p\<lparr>draining := d\<rparr>) = in_order view p"
  by (simp_all add: in_order_def)

lemma in_order_pings [simp]:
  "in_order view (set_LastPing c t p) = in_order view p" "in_order view (set_processing c d p) = in_order view p"
  by (simp_all add: set_LastPing_def set_processing_def)

lemma in_order_world: "in_order view p \<Longrightarrow> view e = view (world p) \<Longrightarrow> in_order view (p\<lparr>world := e\<rparr>)"
  by (simp add: in_order_def)

lemma fold_in_order:
  "(\<And>c p. in_order view p \<Longrightarrow> in_order view (g c p)) \<Longrightarrow> in_order view p \<Longrightarrow> in_order view (fold g cs p)"
  by (induction cs arbitrary: p) auto

context ws_world
begin

lemma in_orderD [simp]: "in_order view p \<Longrightarrow> mb_inv (msgBuffer p)" "in_order view p \<Longrightarrow> \<not> panicked p"
  by (simp_all add: in_order_def)

lemma net_safe [simp]:
  "safe_op view (net_write E net fr)" "safe_op view (epoll_ctl E b fd)" "safe_op view (net_next E net)"
  "safe_op view (net_payload E net n)" "safe_op view (net_upgrade E)" "safe_op view (env_uuid E)"
  "safe_op view (ReportStore.Create (app_db E) r)" "safe_op view (CountRecent (app_db E) fp w)"
  by (rule safe_view, simp add: net_view db_view world_snd ReportStore.Create_def CountRecent_def Let_def case_prod_beta split: option.split sum.split)+

lemma ok_send [simp]:
  "in_order view p \<Longrightarrow> in_order view (snd (WriteMessage E c data p))" "in_order view p \<Longrightarrow> in_order view (snd (WritePing E c p))"
  "in_order view p \<Longrightarrow> in_order view (Close E c p)" "in_order view p \<Longrightarrow> in_order view (send E sid ty m p)"
  "in_order view p \<Longrightarrow> in_order view (respond E c ty m p)"
  by (auto simp: WriteMessage_def WritePing_def Close_def send_def respond_def SendMessage_def net_view in_order_world split: option.split)

lemma ok_epoll [simp]:
  "in_order view p \<Longrightarrow> in_order view (snd (epoll_Add E net p))" "in_order view p \<Longrightarrow> in_order view (snd (epoll_Remove E net p))"
  by (auto simp: epoll_Add_def epoll_Remove_def Let_def case_prod_beta split: option.split)

lemma ok_subs [simp]:
  "in_order view p \<Longrightarrow> in_order view (with_subs (UnsubscribeFromChat E sid) p)"
  "in_order view p \<Longrightarrow> in_order view (with_subs (SubscribeMatchFound E sid h) p)"
  "in_order view p \<Longrightarrow> in_order view (with_subs (UnsubscribeMatchFound E sid) p)"
  "in_order view p \<Longrightarrow> in_order view (with_subs (SubscribeMatchNotify E sid h) p)"
  "in_order view p \<Longrightarrow> in_order view (with_subs (UnsubscribeMatchNotify E sid) p)"
  "in_order view p \<Longrightarrow> in_order view (with_subs (SubscribeModerationResult E sid h) p)"
  "in_order view p \<Longrightarrow> in_order view (with_subs (UnsubscribeModerationResult E sid) p)"
  "in_order view p \<Longrightarrow> in_order view (subscribeToChatNATS E sid i p)"
  by (simp_all add: nats_wrappers subscribeToChatNATS_def)

lemma ok_calls [simp]:
  "in_order view p \<Longrightarrow> in_order view (set_status E sid st p)" "in_order view p \<Longrightarrow> in_order view (snd (get_chat E i p))"
  "in_order view p \<Longrightarrow> in_order view (snd (get_session E i p))"
  by (auto simp: set_status_def get_chat_def get_session_def case_prod_beta split: sum.split)

section \<open>The handlers\<close>

lemma onDisconnect_ok: "in_order view p \<Longrightarrow> in_order view (onDisconnect E i p)"
  by (simp add: onDisconnect_def case_prod_beta Let_def split: option.split)

lemma RemoveConnection_ok: "in_order view p \<Longrightarrow> in_order view (RemoveConnection E (onDisconnect E) c p)"
  by (simp add: RemoveConnection_def Connections.Remove_def case_prod_beta Let_def onDisconnect_ok split: option.split)

lemma deliver_ok: "in_order view p \<Longrightarrow> in_order view (deliver E h data p)"
  by (cases h) (simp_all add: on_chat_event_def on_match_found_def on_match_notify_def on_moderation_result_def Let_def split: sum.split)

lemma on_set_fingerprint_ok: "in_order view p \<Longrightarrow> in_order view (on_set_fingerprint E c fp p)"
  by (simp add: on_set_fingerprint_def Let_def case_prod_beta RemoveConnection_ok split: option.split sum.split)

lemma eject_ok: "in_order view p \<Longrightarrow> in_order view (eject E i d p)"
  by (simp add: eject_def Let_def RemoveConnection_ok split: option.split)

lemma check_ban_ok: "in_order view p \<Longrightarrow> in_order view (check_ban E j f r p)"
  by (simp add: check_ban_def case_prod_beta eject_ok split: sum.split)

lemma store_report_ok: "in_order view p \<Longrightarrow> in_order view (store_report E a b i r p)"
  using mb.get_log [of "msgBuffer p" i] by (simp add: store_report_def)

lemma on_report_ok: "in_order view p \<Longrightarrow> in_order view (on_report E c i r p)"
  by (simp add: on_report_def Let_def case_prod_beta store_report_ok check_ban_ok split: option.split)

lemma Add_ok [simp]:
  "in_order view q \<Longrightarrow> mb_inv b \<Longrightarrow>
   in_order view (case ChatBuffer.Add b i m of None \<Rightarrow> q\<lparr>panicked := True\<rparr> | Some buf \<Rightarrow> q\<lparr>msgBuffer := buf\<rparr>)"
  using mb.add_log [of b i m] by auto

lemma on_message_ok: "in_order view p \<Longrightarrow> in_order view (on_message E c i t p)"
  unfolding on_message_def Let_def case_prod_beta
  by (cases "ValidateMessage t"; cases "Blocked (Check (app_unicode E) (contentFilter E) t)") simp_all

lemma handle_msg_ok: "in_order view p \<Longrightarrow> in_order view (handle_msg E c msg p)"
  by (cases msg) (simp_all add: handle_msg_def on_set_fingerprint_ok on_report_ok on_message_ok on_find_match_def on_cancel_match_def
      on_accept_match_def on_decline_match_def on_typing_def on_end_chat_def Let_def case_prod_beta split: option.split sum.split)

section \<open>The server\<close>

lemma onMessage_ok: "in_order view p \<Longrightarrow> in_order view (onMessage E c data p)"
  by (simp add: onMessage_def Dispatch_def app_handlers_def sendError_def sendPong_def Let_def case_prod_beta handle_msg_ok
      split: sum.split option.split)

lemma handleUpgrade_ok: "in_order view p \<Longrightarrow> in_order view (snd (handleUpgrade E config p))"
  by (simp add: handleUpgrade_def Connections.Add_def Connections.Remove_def Let_def case_prod_beta split: sum.split option.split)

lemma read_frame_ok: "in_order view p \<Longrightarrow> in_order view (read_frame E config (onMessage E) (onDisconnect E) net c p)"
  by (simp add: read_frame_def case_prod_beta Let_def onMessage_ok RemoveConnection_ok in_order_world net_view
      split: header.split sum.split option.split)

lemma event_loop_ok: "in_order view p \<Longrightarrow> in_order view (event_loop_round E config (onMessage E) (onDisconnect E) fds p)"
  unfolding event_loop_round_def
  by (rule fold_in_order) (simp_all add: handleConn_def read_frame_ok split: option.split)

lemma checkConnections_ok: "in_order view p \<Longrightarrow> in_order view (checkConnections E (onDisconnect E) ord hb p)"
  unfolding checkConnections_def Let_def
  by (rule fold_in_order) (simp_all add: check_connection_def case_prod_beta RemoveConnection_ok split: option.split)

lemma shutdown_ok:
  "in_order view p \<Longrightarrow> in_order view (shutdown_begin (onDisconnect E) ord p)"
  "in_order view p \<Longrightarrow> in_order view (shutdown_end E ord p)"
  unfolding shutdown_begin_def notify_all_def shutdown_end_def in_order_parts Let_def
  by (rule fold_in_order; simp add: onDisconnect_ok force_close_def case_prod_beta Let_def)+

end

section \<open>Runs\<close>

text \<open>
  A run of the server: it starts with an empty registry, and then its events come in any order, while other processes and
  the clock change the outside world in any way that keeps the kinds of the keys.
\<close>

definition NewServer :: "'e \<Rightarrow> 'e app" where
  "NewServer e = \<lparr>heap = (\<lambda>_. \<lparr>conn_ID = [], conn_Conn = 0, conn_Fd = 0, conn_CreatedAt = 0, conn_LastPing = 0, conn_processing = False\<rparr>),
     next_conn = 0, byID = [], byFd = [], epoll_conns = [], draining = False, world = e,
     app_subs = Map.empty, msgBuffer = NewMessageBuffer, panicked = False\<rparr>"

inductive server_run :: "'e appenv \<Rightarrow> ('e \<Rightarrow> keyspace) \<Rightarrow> ServerConfig \<Rightarrow> HeartbeatConfig \<Rightarrow> 'e app \<Rightarrow> bool"
  for E view config hb where
  started: "schema_ok (view e) \<Longrightarrow> server_run E view config hb (NewServer e)"
| others: "server_run E view config hb p \<Longrightarrow> schema_ok (view e) \<Longrightarrow> server_run E view config hb (p\<lparr>world := e\<rparr>)"
| upgrade: "server_run E view config hb p \<Longrightarrow> fresh_upgrade E p \<Longrightarrow> server_run E view config hb (snd (handleUpgrade E config p))"
| frames: "server_run E view config hb p \<Longrightarrow>
    server_run E view config hb (event_loop_round E config (onMessage E) (onDisconnect E) fds p)"
| heartbeat: "server_run E view config hb p \<Longrightarrow> server_run E view config hb (checkConnections E (onDisconnect E) ord hb p)"
| delivery: "server_run E view config hb p \<Longrightarrow> server_run E view config hb (deliver E h data p)"
| draining: "server_run E view config hb p \<Longrightarrow> server_run E view config hb (shutdown_begin (onDisconnect E) ord p)"
| stopping: "server_run E view config hb p \<Longrightarrow> server_run E view config hb (shutdown_end E ord p)"

lemma shutdown_end_registered: "registered p \<Longrightarrow> registered (shutdown_end E ord p)"
  unfolding shutdown_end_def
  by (rule registered_outside(11), rule app_cb.fold_registered) (auto simp: force_close_def Let_def case_prod_beta intro!: registered_outside)

lemma NewServer_ok: "schema_ok (view e) \<Longrightarrow> in_order view (NewServer e) \<and> registered (NewServer e)"
  by (simp add: NewServer_def in_order_def registered_def consistent_def mb_inv_def NewMessageBuffer_def)

text \<open>
  C7.  The chat server never gets out of order.  In every state of every run, whatever clients, the other processes and the
  network do and whatever fails, every key of the application has its kind, the message buffer is sound and has never
  panicked, and the registry is consistent: both maps hold the same connections, each under its own identifier and descriptor.
\<close>

theorem server_in_order:
  assumes "ws_world E view active sent" and "server_run E view config hb p"
  shows "in_order view p \<and> registered p"
  using assms(2)
proof induction
  case (started e)
  then show ?case by (rule NewServer_ok)
next
  case (others p e)
  then show ?case using registered_outside(10) by (auto simp: in_order_def)
next
  case (upgrade p)
  then show ?case using ws_world.handleUpgrade_ok [OF assms(1)] handleUpgrade_registered by blast
next
  case (frames p fds)
  then show ?case using ws_world.event_loop_ok [OF assms(1)] app_cb.event_loop_registered by blast
next
  case (heartbeat p ord)
  then show ?case using ws_world.checkConnections_ok [OF assms(1)] app_cb.checkConnections_registered by blast
next
  case (delivery p h data)
  then show ?case using ws_world.deliver_ok [OF assms(1)] handler_registered(8) by blast
next
  case (draining p ord)
  then show ?case using ws_world.shutdown_ok(1) [OF assms(1)] app_cb.shutdown_begin_registered by blast
next
  case (stopping p ord)
  then show ?case using ws_world.shutdown_ok(2) [OF assms(1)] shutdown_end_registered by blast
qed

text \<open>A server nobody has used yet; its first client sends something that is no message.\<close>

definition quiet :: app_world where
  "quiet = \<lparr>nw_active = [], nw_sent = [], wd_keys = Map.empty, wd_now = 0, wd_next = 0, net_in = [(0, ''junk'')], net_out = [],
     net_shut = [], net_opened = 0, db_rows = []\<rparr>"

theorem server_in_order_witness:
  "let E = app_ref \<lparr>words = {}, phrases = []\<rparr> ascii_unicode;
       p = snd (handleUpgrade E DefaultServerConfig (NewServer quiet));
       q = event_loop_round E DefaultServerConfig (onMessage E) (onDisconnect E) [5] p
   in in_order wd_keys q \<and> registered q"
proof -
  let ?E = "app_ref \<lparr>words = {}, phrases = []\<rparr> ascii_unicode"
  have "schema_ok (wd_keys quiet)" by (simp add: quiet_def schema_ok_def kind_ok_def)
  then have "server_run ?E wd_keys DefaultServerConfig DefaultHeartbeatConfig (NewServer quiet)" by (rule server_run.started)
  then have "server_run ?E wd_keys DefaultServerConfig DefaultHeartbeatConfig (snd (handleUpgrade ?E DefaultServerConfig (NewServer quiet)))"
    by (rule server_run.upgrade) (simp add: fresh_upgrade_def NewServer_def)
  from server_in_order [OF aref.ws_world_axioms server_run.frames [OF this]] show ?thesis by (simp add: Let_def)
qed

end
