(* ===== verification/Relay.thy ===== *)
theory Relay
  imports Application
begin

text \<open>
  The way of a message: from the handler of the sender's server over NATS to the connection of the partner.  What the handler
  publishes has passed every check, and what the partner's server writes is the message.
\<close>

section \<open>Who may send\<close>

text \<open>What a message must fulfil to be passed on: every check of the handler, on the chat as it is in Redis.\<close>

definition may_send :: "'e appenv \<Rightarrow> keyspace \<Rightarrow> string \<Rightarrow> string \<Rightarrow> string \<Rightarrow> bool" where
  "may_send E ks sid chatID txt \<longleftrightarrow>
     ValidateMessage txt = None \<and> \<not> Blocked (Check (app_unicode E) (contentFilter E) txt) \<and>
     (\<exists>cs. chat_at ks chatID = Some cs \<and> IsParticipant cs sid \<and> Status cs = StatusActive)"

definition chat_event :: "string \<Rightarrow> string \<Rightarrow> int \<Rightarrow> ChatEvent" where
  "chat_event sid txt ts = \<lparr>ev_Type = ''message'', ev_From = sid, ev_Text = txt, ev_IsTyping = False, ev_Ts = ts\<rparr>"

definition mod_request :: "string \<Rightarrow> string \<Rightarrow> string \<Rightarrow> int \<Rightarrow> string" where
  "mod_request sid chatID txt ts =
     marshal_ModerationRequest \<lparr>modreq_SessionID = sid, modreq_ChatID = chatID, modreq_Text = txt, modreq_Ts = ts\<rparr>"

lemma chat_at_cong: "ks (ChatPrefix @ i) = ks' (ChatPrefix @ i) \<Longrightarrow> chat_at ks i = chat_at ks' i"
  by (simp add: chat_at_def)

lemma get_chat_app [simp]:
  "msgBuffer (snd (get_chat E i p)) = msgBuffer p" "panicked (snd (get_chat E i p)) = panicked p"
  by (simp_all add: get_chat_def case_prod_beta split: sum.split)

context redis_server
begin

lemma Get_chat_at:
  assumes "ChatStore.Get exec i s = (Inr (Some cs), s')"
  shows "chat_at (view s) i = Some cs" "view s' = view s"
proof -
  obtain h where h: "exec (HGETALL (ChatPrefix @ i)) s = (RMap h, s')" "h \<noteq> Map.empty" "cs = chat_of_hash i h"
    using assms by (auto simp: ChatStore.Get_def Let_def chat_of_hash_def split: prod.splits sum.splits if_splits elim: map_result.elims)
  have "RMap h = answer (HGETALL (ChatPrefix @ i)) (view s)" using answered(1) [OF h(1)] by simp
  with h(2,3) show "chat_at (view s) i = Some cs"
    by (auto simp: chat_at_def wrongtype_def split: option.splits prod.splits rvalue.splits)
  show "view s' = view s" using read_only [OF _ h(1)] by simp
qed

end

context ws_world
begin

lemma get_chat_at: "fst (get_chat E i p) = Some cs \<Longrightarrow> chat_at (view (world p)) i = Some cs"
  using rs.Get_chat_at [of i "world p" cs] by (auto simp: get_chat_def outside_def case_prod_beta Let_def split: sum.splits) (metis prod.collapse)

lemma get_chat_view: "fst (get_chat E i p) = Some cs \<Longrightarrow> view (world (snd (get_chat E i p))) = view (world p)"
  using rs.Get_chat_at(2) [of i "world p" cs] by (auto simp: get_chat_def outside_def case_prod_beta Let_def split: sum.splits) (metis prod.collapse)

lemma sent_calls [simp]:
  "sent (world (respond E c ty m p)) = sent (world p)" "sent (world (send E sid ty m p)) = sent (world p)"
  "sent (snd (Allow (env_redis E) sid rule e)) = sent e" "sent (world (snd (get_chat E i p))) = sent (world p)"
  by (auto simp: respond_def send_def SendMessage_def WriteMessage_def net_sent Allow_def get_chat_def ChatStore.Get_def
      world_simps case_prod_beta Let_def split: option.split sum.split)

lemma Allow_chat: "chat_at (view (snd (Allow (env_redis E) sid RuleMessage e))) i = chat_at (view e) i"
  by (rule chat_at_cong, rule rs.Allow_frame [OF surjective_pairing]) (simp add: RuleMessage_def ChatPrefix_def)

lemma Publish_sent:
  "\<exists>ms. sent (snd (Publish E subject data e)) = sent e @ ms \<and> set ms \<subseteq> {(subject, data)}"
  by (rule Publish_cases [OF surjective_pairing, of subject data e]) force+

lemma message_sent:
  fixes p c
  defines "sid \<equiv> conn_ID (heap p c)"
  shows "\<exists>ms. sent (world (on_message E c i t p)) = sent (world p) @ ms \<and>
    (ms \<noteq> [] \<longrightarrow> fst (fst (Allow (env_redis E) sid RuleMessage (world p))) \<and> may_send E (view (world p)) sid i t \<and>
       (\<exists>e. set ms \<subseteq> {(SubjectChat @ ''.'' @ i, marshal_ChatEvent (chat_event sid t (Unix E e))),
         (SubjectModeration, mod_request sid i t (Unix E e))}))"
proof -
  define p1 where "p1 = snd (outside (Allow (env_redis E) sid RuleMessage) p)"
  define p2 where "p2 = snd (get_chat E i p1)"
  define ts where "ts = Unix E (world p2)"
  define e3 where "e3 = snd (PublishChatMessage E i (marshal_ChatEvent (chat_event sid t ts)) (world p2))"
  have s1: "sent (world p1) = sent (world p)" "chat_at (view (world p1)) i = chat_at (view (world p)) i"
    by (simp_all add: p1_def Allow_chat)
  then have s2: "sent (world p2) = sent (world p)" by (simp add: p2_def)
  have "sent (world (on_message E c i t p)) = sent (world p) \<or>
     fst (fst (Allow (env_redis E) sid RuleMessage (world p))) \<and> may_send E (view (world p)) sid i t \<and>
     (sent (world (on_message E c i t p)) = sent e3 \<or>
      sent (world (on_message E c i t p)) = sent (snd (PublishModerationRequest E (mod_request sid i t ts) e3)))"
    using get_chat_at [of i p1] s1 s2
    by (auto simp: on_message_def may_send_def case_prod_beta Let_def sid_def [symmetric] p1_def [symmetric] p2_def [symmetric]
        e3_def ts_def chat_event_def mod_request_def split: option.split)
  moreover obtain ms where "sent e3 = sent (world p) @ ms" "set ms \<subseteq> {(SubjectChat @ ''.'' @ i, marshal_ChatEvent (chat_event sid t ts))}"
    using Publish_sent [of "SubjectChat @ ''.'' @ i"] s2 unfolding e3_def PublishChatMessage_def by metis
  moreover obtain ms' where "sent (snd (PublishModerationRequest E (mod_request sid i t ts) e3)) = sent e3 @ ms'"
      "set ms' \<subseteq> {(SubjectModeration, mod_request sid i t ts)}"
    using Publish_sent unfolding PublishModerationRequest_def by metis
  ultimately show ?thesis
    unfolding ts_def by (elim disjE conjE) (fastforce, fastforce, intro exI [of _ "ms @ ms'"], fastforce)
qed

end

section \<open>What the partner gets\<close>

lemma ValidateMessage_valid: "ValidateMessage t = None \<Longrightarrow> ValidString t"
  by (simp add: ValidateMessage_def split: if_splits)

definition members :: "ChatEvent \<Rightarrow> (string \<times> json) list" where
  "members ev = [(''type'', JStr (ev_Type ev)), (''from'', JStr (ev_From ev))] @
     (if ev_Text ev \<noteq> [] then [(''text'', JStr (ev_Text ev))] else []) @
     (if ev_IsTyping ev then [(''is_typing'', JBool True)] else []) @
     (if ev_Ts ev \<noteq> 0 then [(''ts'', JInt (ev_Ts ev))] else [])"

lemma marshal_members: "marshal_ChatEvent ev = json_text (JObj (members ev))"
  by (simp only: marshal_ChatEvent_def members_def)

lemma ChatEvent_roundtrip:
  assumes "ValidString (ev_Type ev)" "ValidString (ev_From ev)" "ValidString (ev_Text ev)" "- (2 ^ 63) \<le> ev_Ts ev" "ev_Ts ev < 2 ^ 63"
  shows "unmarshal_ChatEvent (marshal_ChatEvent ev) = Inr ev"
proof -
  have "ValidString ''is_typing''" "ValidString ''ts''" "ValidString ''type''" "ValidString ''from''" "ValidString ''text''"
    by (simp_all add: valid_ascii byte_def)
  then have "wf_json 10000 (JObj (members ev))" using assms by (auto simp: members_def)
  from Unmarshal_text [OF this] show ?thesis
    using assms(4,5)
    by (cases ev) (simp add: unmarshal_ChatEvent_def marshal_members decode_doc_def members_def chat_event_fields_def find_field_def
        field_simps decode_JInt)
qed

text \<open>What a server does with the message of one user for the session of another, and for the sender's own.\<close>

lemma deliver_message:
  assumes "ValidateMessage t = None" "ValidString from" "\<bar>ts\<bar> < 2 ^ 63"
  shows "deliver F (HChat sid i) (marshal_ChatEvent (chat_event from t ts)) q =
    (if from = sid then q else send F sid TypeMessage (ServerChatMsg ''partner'' t ts) q)"
proof -
  have "unmarshal_ChatEvent (marshal_ChatEvent (chat_event from t ts)) = Inr (chat_event from t ts)"
    by (rule ChatEvent_roundtrip) (use assms ValidateMessage_valid in \<open>auto simp: chat_event_def valid_ascii byte_def\<close>)
  then show ?thesis by (simp add: on_chat_event_def) (simp add: chat_event_def)
qed

section \<open>When the services answer\<close>

context reliable_ws_world
begin

lemma get_chat_reliable:
  assumes "schema_ok (view (world p))"
  shows "fst (get_chat E i p) = chat_at (view (world p)) i"
proof -
  let ?c = "HGETALL (ChatPrefix @ i)"
  have k: "kind_ok (view (world p)) (ChatPrefix @ i) KHash"
    using assms unfolding schema_ok_def by (simp add: app_kind_def ChatPrefix_def)
  have a: "answer ?c (view (world p)) = RMap (hash_at (view (world p)) (ChatPrefix @ i))" by (rule read_replies(1) [OF k])
  obtain r e1 where r: "env_redis E ?c (world p) = (r, e1)" "reply_ok ?c (view (world p)) r"
    by (rule rr.answers [of ?c "world p"]) (use a in simp_all)
  with a have "r = RMap (hash_at (view (world p)) (ChatPrefix @ i))" by simp
  with r k show ?thesis
    by (auto simp: get_chat_def outside_def ChatStore.Get_def chat_at_def hash_at_def kind_ok_def chat_of_hash_def split: option.splits rvalue.splits)
qed

lemma Delete_chat: "chat_at (view (snd (ChatStore.Delete (env_redis E) i e))) i = None"
proof -
  let ?k = "ChatPrefix @ i"
  obtain r e1 where 1: "env_redis E (DEL ?k) e = (r, e1)" "view e1 = effect (DEL ?k) (view e)"
    by (rule rr.answers [of "DEL ?k" e]) (auto split: option.splits)
  obtain r2 e2 where 2: "env_redis E (ZREM PendingKey i) e1 = (r2, e2)" by fastforce
  have "view e2 ?k = view e1 ?k" by (rule rs.frame [OF 2, of PendingKey]) simp_all
  with 1 2 show ?thesis by (simp add: ChatStore.Delete_def Let_def chat_at_def split: option.split)
qed

lemma sent_Publish: "sent (snd (Publish E subject data e)) = sent e @ [(subject, data)]"
  by (rule Publish_reliable [of subject data e]) simp

lemma message_goes_out:
  fixes p c
  defines "sid \<equiv> conn_ID (heap p c)"
  assumes "schema_ok (view (world p))" "mb_inv (msgBuffer p)" "\<not> panicked p"
    and "fst (fst (Allow (env_redis E) sid RuleMessage (world p)))" "may_send E (view (world p)) sid i t"
  shows "\<exists>e. sent (world (on_message E c i t p)) = sent (world p) @
    [(SubjectChat @ ''.'' @ i, marshal_ChatEvent (chat_event sid t (Unix E e))), (SubjectModeration, mod_request sid i t (Unix E e))]"
proof -
  define p1 where "p1 = snd (outside (Allow (env_redis E) sid RuleMessage) p)"
  define p2 where "p2 = snd (get_chat E i p1)"
  define e3 where "e3 = snd (PublishChatMessage E i (marshal_ChatEvent (chat_event sid t (Unix E (world p2)))) (world p2))"
  have s1: "sent (world p1) = sent (world p)" "chat_at (view (world p1)) i = chat_at (view (world p)) i" "schema_ok (view (world p1))"
    using assms(2) rs.count_safe(2) [of sid] by (simp_all add: p1_def Allow_chat safe_op_def)
  have s2: "sent (world p2) = sent (world p)" "mb_inv (msgBuffer p2)" "\<not> panicked p2"
    using s1(1) assms(3,4) by (simp_all add: p2_def p1_def)
  obtain cs where cs: "fst (get_chat E i p1) = Some cs" "IsParticipant cs sid" "Status cs = StatusActive"
    using get_chat_reliable [OF s1(3)] s1(2) assms(6) by (auto simp: may_send_def)
  obtain buf where buf: "ChatBuffer.Add (msgBuffer p2) i \<lparr>bm_From = sid, bm_Text = t, bm_Ts = Unix E (world p2)\<rparr> = Some buf"
    using mb.add_log [OF s2(2)] by blast
  have "sent (world (on_message E c i t p)) = sent (snd (PublishModerationRequest E (mod_request sid i t (Unix E (world p2))) e3))"
    using assms(5,6) cs buf s2(3)
    by (simp add: on_message_def may_send_def case_prod_beta Let_def sid_def [symmetric] p1_def [symmetric] p2_def [symmetric]
        e3_def chat_event_def mod_request_def)
  also have "\<dots> = sent e3 @ [(SubjectModeration, mod_request sid i t (Unix E (world p2)))]"
    unfolding PublishModerationRequest_def by (rule sent_Publish)
  also have "sent e3 = sent (world p2) @ [(SubjectChat @ ''.'' @ i, marshal_ChatEvent (chat_event sid t (Unix E (world p2))))]"
    unfolding e3_def PublishChatMessage_def by (rule sent_Publish)
  finally show ?thesis using s2(1) by auto
qed

end

section \<open>Properties\<close>

text \<open>
  C1.  Nothing gets past the checks.  Whatever fails, a message a client sends makes the server publish something only if the rate
  limiter lets it pass, it is valid, the content filter does not block it, and the sender takes part in the chat it names, which is
  active; what is then published is the message, from the sender's session, on the subject of this chat, and the request to check it
  again, each at most as often as it was sent.
\<close>

theorem message_guarded:
  assumes "ws_world E view active sent"
  shows "\<exists>ms. sent (world (on_message E c i t p)) = sent (world p) @ ms \<and>
    (ms \<noteq> [] \<longrightarrow>
       fst (fst (Allow (env_redis E) (conn_ID (heap p c)) RuleMessage (world p))) \<and>
       may_send E (view (world p)) (conn_ID (heap p c)) i t \<and>
       (\<exists>e. set ms \<subseteq> {(SubjectChat @ ''.'' @ i, marshal_ChatEvent (chat_event (conn_ID (heap p c)) t (Unix E e))),
                        (SubjectModeration, mod_request (conn_ID (heap p c)) i t (Unix E e))}))"
  by (rule ws_world.message_sent [OF assms])

text \<open>Ann is connected and chats with Bob; the filter blocks nothing.\<close>

definition ann_chats :: app_world where
  "ann_chats = \<lparr>nw_active = [], nw_sent = [],
     wd_keys = [ChatPrefix @ ''c'' \<mapsto> (VHash [''user_a'' \<mapsto> ''ann'', ''user_b'' \<mapsto> ''bob'', ''status'' \<mapsto> StatusActive], None)],
     wd_now = 0, wd_next = 0, net_in = [], net_out = [], net_shut = [], net_opened = 2, db_rows = []\<rparr>"

definition ann_server :: "app_world app" where
  "ann_server = \<lparr>heap = (\<lambda>c. \<lparr>conn_ID = if c = 0 then ''ann'' else ''bob'', conn_Conn = c, conn_Fd = int c + 5, conn_CreatedAt = 0,
       conn_LastPing = 0, conn_processing = False\<rparr>),
     next_conn = 2, byID = [(''ann'', 0), (''bob'', 1)], byFd = [(5, 0), (6, 1)], epoll_conns = [(5, 0), (6, 1)], draining = False,
     world = ann_chats, app_subs = Map.empty, msgBuffer = NewMessageBuffer, panicked = False\<rparr>"

abbreviation lenient :: Filter where
  "lenient \<equiv> \<lparr>words = {}, phrases = []\<rparr>"

theorem message_guarded_witness:
  "nw_sent (world (on_message (app_ref lenient ascii_unicode) 0 ''other'' ''hi'' ann_server)) = []"
proof -
  have "\<not> may_send (app_ref lenient ascii_unicode) (wd_keys (world ann_server)) ''ann'' ''other'' ''hi''"
    by (simp add: may_send_def chat_at_def ann_server_def ann_chats_def ChatPrefix_def)
  with message_guarded [OF aref.ws_world_axioms, of lenient ascii_unicode 0 "''other''" "''hi''" ann_server]
  show ?thesis by (auto simp: ann_server_def ann_chats_def)
qed

text \<open>
  C3.  A message reaches the partner as it was written.  When the services answer, a message that passes the checks is
  published, and any server that gets it from NATS for the session of another connected user writes one frame to that user's
  connection, with the text and the time of the message and without the sender's identity; a server that gets it for the
  sender's own session does nothing.
\<close>

theorem message_reaches_partner:
  fixes p :: "'e app" and q :: "'f app"
  assumes "reliable_ws_world E view active sent" and "schema_ok (view (world p))" and "mb_inv (msgBuffer p)" and "\<not> panicked p"
    and "fst (fst (Allow (env_redis E) (conn_ID (heap p c)) RuleMessage (world p)))"
    and "may_send E (view (world p)) (conn_ID (heap p c)) i t"
    and "ValidString (conn_ID (heap p c))" and "\<And>e. \<bar>Unix E e\<bar> < 2 ^ 63"
    and "Connections.Get partner q = Some d" and "partner \<noteq> conn_ID (heap p c)"
  shows "\<exists>data ts. sent (world (on_message E c i t p)) =
      sent (world p) @ [(SubjectChat @ ''.'' @ i, data), (SubjectModeration, mod_request (conn_ID (heap p c)) i t ts)] \<and>
    deliver F (HChat partner i) data q = snd (WriteMessage F d (resp TypeMessage (ServerChatMsg ''partner'' t ts)) q) \<and>
    deliver F (HChat (conn_ID (heap p c)) i) data q = q"
proof -
  obtain e where e: "sent (world (on_message E c i t p)) = sent (world p) @
      [(SubjectChat @ ''.'' @ i, marshal_ChatEvent (chat_event (conn_ID (heap p c)) t (Unix E e))),
       (SubjectModeration, mod_request (conn_ID (heap p c)) i t (Unix E e))]"
    using reliable_ws_world.message_goes_out [OF assms(1-6)] by blast
  have "ValidateMessage t = None" using assms(6) by (simp add: may_send_def)
  note D = deliver_message [OF this assms(7) assms(8) [of e]]
  from e D [of F partner i q] D [of F "conn_ID (heap p c)" i q] assms(9,10) show ?thesis
    by (auto simp: send_def SendMessage_def)
qed

text \<open>The checks of the filter and of the limiter on Ann's message.\<close>

lemma hi_runes: "runes ''hi'' = [104, 105]"
  by (simp add: runes_ascii byte_def)

lemma hi_digits: "run_length re_digit [104, 105] i = 0"
  by (simp add: run_length_def re_digit_def drop_Cons split: nat.split)

lemma Seq_empty: "(\<And>k. re_ends t b k = []) \<Longrightarrow> re_ends t (Seq a b) i = []" "(\<And>k. re_ends t a k = []) \<Longrightarrow> re_ends t (Seq a b) i = []"
  by simp_all

lemma hi_phone: "re_ends [104, 105] phonePattern i = []"
  unfolding phonePattern_def Let_def
  by (rule Seq_empty(1), rule Seq_empty(1), rule Seq_empty(1), rule Seq_empty(2)) (simp add: hi_digits)

lemma hi_class: "\<not> p 104 \<Longrightarrow> \<not> p 105 \<Longrightarrow> re_ends [104, 105] (Cls p) i = []"
  by (simp add: run_length_def drop_Cons split: nat.split)

lemma hi_ci: "fold_rune 104 \<noteq> fold_rune (byte c) \<Longrightarrow> fold_rune 105 \<noteq> fold_rune (byte c) \<Longrightarrow> re_ends [104, 105] (ci_text (c # s)) i = []"
  unfolding ci_text.simps by (rule Seq_empty(2)) (rule hi_class)

lemma hi_url: "re_ends [104, 105] urlPattern i = []"
proof -
  have "re_ends [104, 105] (ci_text ''://'') k = []" "re_ends [104, 105] (ci_text ''www.'') k = []" "re_ends [104, 105] (ci_text ''.'') k = []" for k
    by (rule hi_ci; simp add: fold_rune_def byte_def)+
  note none = this
  show ?thesis
    unfolding urlPattern_def Let_def re_alts.simps re_ends.simps(3) append_is_Nil_conv
    by (intro conjI) (rule Seq_empty(1), rule Seq_empty(1), rule Seq_empty(2), rule none,
      rule Seq_empty(2), rule none, rule Seq_empty(1), rule Seq_empty(2), rule none)
qed

lemma hi_spam: "checkSpamPatterns u ''hi'' = passed"
proof -
  have "\<not> MatchString phonePattern ''hi''" by (simp add: MatchString_def hi_runes hi_phone list_ex_iff Let_def)
  moreover have "\<not> MatchString urlPattern ''hi''"
    by (simp add: MatchString_def hi_runes hi_url list_ex_iff Let_def)
  moreover have "\<not> hasCharFlood ''hi''" by (simp add: hasCharFlood_def hi_runes)
  moreover have "parts ''hi'' = [(104, ''h''), (105, ''i'')]"
    by (simp add: parts.simps [of "''hi''"] parts.simps [of "''i''"] parts.simps [of "[]"] DecodeRune_def byte_def Let_def)
  then have "\<not> hasWordFlood u ''hi''" by (simp add: hasWordFlood_def FieldsFunc_def IsSpace_def)
  ultimately show ?thesis by (simp add: checkSpamPatterns_def spamChecks_def)
qed

lemma hi_may:
  "may_send (app_ref lenient u) (wd_keys ann_chats) ''ann'' ''c'' ''hi''"
proof -
  have "ValidateMessage ''hi'' = None"
    by (simp add: ValidateMessage_def RuneCountInString_def runes_ascii valid_ascii byte_def MaxMessageBytes_def MaxTextChars_def)
  moreover have "checkTokens lenient ts = passed" for ts by (simp add: checkTokens_def Let_def find_None_iff [THEN iffD2])
  then have "\<not> Blocked (Check u lenient ''hi'')" by (simp add: Check_def hi_spam) (simp add: passed_def)
  moreover have "chat_at (wd_keys ann_chats) ''c'' =
      Some (chat_of_hash ''c'' [''user_a'' \<mapsto> ''ann'', ''user_b'' \<mapsto> ''bob'', ''status'' \<mapsto> StatusActive])"
    by (simp add: chat_at_def ann_chats_def)
  ultimately show ?thesis
    by (simp add: may_send_def app_ref_net chat_of_hash_def IsParticipant_def field_def)
qed

lemma ann_chats_schema: "schema_ok (wd_keys ann_chats)"
  by (auto simp: schema_ok_def kind_ok_def ann_chats_def split: if_splits)

theorem message_reaches_partner_witness:
  "\<exists>data ts. nw_sent (world (on_message (app_ref lenient ascii_unicode) 0 ''c'' ''hi'' ann_server)) =
      [(''chat.c'', data), (SubjectModeration, mod_request ''ann'' ''c'' ''hi'' ts)] \<and>
    net_out (world (deliver (app_ref lenient ascii_unicode) (HChat ''bob'' ''c'') data ann_server)) =
      [(1, TextFrame (resp TypeMessage (ServerChatMsg ''partner'' ''hi'' ts)))]"
proof -
  let ?R = "app_ref lenient ascii_unicode"
  have a: "fst (fst (Allow (env_redis ?R) ''ann'' RuleMessage ann_chats))"
    by (simp add: Allow_def app_ref_env env_ref_sel RuleMessage_def ann_chats_def ChatPrefix_def Let_def)
  have u: "\<bar>Unix ?R e\<bar> < 2 ^ 63" for e
  proof -
    have "0 \<le> wd_now e mod 2 ^ 63" "wd_now e mod 2 ^ 63 < 2 ^ 63" by simp_all
    then show ?thesis unfolding Unix_def app_ref_env by simp
  qed
  have "\<exists>data ts. nw_sent (world (on_message ?R 0 ''c'' ''hi'' ann_server)) =
      nw_sent (world ann_server) @ [(SubjectChat @ ''.'' @ ''c'', data), (SubjectModeration, mod_request (conn_ID (heap ann_server 0)) ''c'' ''hi'' ts)] \<and>
    deliver ?R (HChat ''bob'' ''c'') data ann_server = snd (WriteMessage ?R 1 (resp TypeMessage (ServerChatMsg ''partner'' ''hi'' ts)) ann_server) \<and>
    deliver ?R (HChat (conn_ID (heap ann_server 0)) ''c'') data ann_server = ann_server"
    by (rule message_reaches_partner [OF arefr.reliable_ws_world_axioms])
       (use a hi_may ann_chats_schema u in \<open>simp_all add: ann_server_def mb_inv_def NewMessageBuffer_def Connections.Get_def valid_ascii byte_def\<close>)
  then obtain data ts where "nw_sent (world (on_message ?R 0 ''c'' ''hi'' ann_server)) =
      nw_sent (world ann_server) @ [(SubjectChat @ ''.'' @ ''c'', data), (SubjectModeration, mod_request (conn_ID (heap ann_server 0)) ''c'' ''hi'' ts)]"
    "deliver ?R (HChat ''bob'' ''c'') data ann_server = snd (WriteMessage ?R 1 (resp TypeMessage (ServerChatMsg ''partner'' ''hi'' ts)) ann_server)" by blast
  moreover have "nw_sent (world ann_server) = []" "SubjectChat @ ''.'' @ ''c'' = ''chat.c''" "conn_ID (heap ann_server 0) = ''ann''"
    "net_out (world (snd (WriteMessage ?R 1 x ann_server))) = [(1, TextFrame x)]" for x
    by (simp_all add: ann_server_def ann_chats_def SubjectChat_def WriteMessage_def app_ref_net)
  ultimately show ?thesis by (intro exI [of _ data] exI [of _ ts]) (simp only: append_Nil simp_thms)
qed

end
