(* ===== verification/Bans.thy ===== *)
theory Bans
  imports AppInvariant Relay
begin

text \<open>
  Bans and dead connections: a report that bans a user removes the user's connection and leaves the ban in force, a banned
  fingerprint is turned away, and the heartbeat keeps exactly the connections it has heard from.
\<close>

section \<open>What cleaning up leaves alone\<close>

text \<open>Keys that are neither sessions nor chats.\<close>

definition foreign :: "string \<Rightarrow> bool" where
  "foreign k \<longleftrightarrow> (\<forall>i. k \<noteq> SessionPrefix @ i \<and> k \<noteq> ChatPrefix @ i) \<and> k \<noteq> PendingKey"

lemma foreign_keys [simp]: "foreign (BanPrefix @ fp)" "foreign (ReportsPrefix @ fp)"
  by (simp_all add: foreign_def BanPrefix_def ReportsPrefix_def SessionPrefix_def ChatPrefix_def PendingKey_def)

context redis_server
begin

lemma stores_foreign [simp]:
  assumes "foreign k"
  shows "view (snd (ChatStore.Get exec i s)) k = view s k" "view (snd (Session.Get exec i s)) k = view s k"
    "view (snd (ChatStore.Delete exec i s)) k = view s k" "view (snd (Session.Delete exec i s)) k = view s k"
proof -
  note key = frame [OF surjective_pairing] pipe_frame [OF surjective_pairing]
  show "view (snd (ChatStore.Get exec i s)) k = view s k" "view (snd (Session.Get exec i s)) k = view s k"
    "view (snd (Session.Delete exec i s)) k = view s k"
    using assms by (simp_all add: ChatStore.Get_def Session.Get_def Session.Delete_def Let_def case_prod_beta key foreign_def split: sum.split)
  show "view (snd (ChatStore.Delete exec i s)) k = view s k"
    unfolding ChatStore.Delete_def by (rule key(2)) (use assms in \<open>simp add: foreign_def\<close>)
qed

end

context ws_world
begin

lemma calls_foreign [simp]:
  "view (world (send E sid ty m p)) = view (world p)" "view (world (respond E c ty m p)) = view (world p)"
  "foreign k \<Longrightarrow> view (world (snd (get_chat E i p))) k = view (world p) k"
  "foreign k \<Longrightarrow> view (world (snd (get_session E i p))) k = view (world p) k"
  "view (world (Close E c p)) = view (world p)" "view (world (snd (epoll_Remove E net p))) = view (world p)"
  "view (snd (PublishMatchCancel E d e)) = view e" "view (snd (PublishChatMessage E i d e)) = view e"
  by (simp_all add: send_def respond_def SendMessage_def WriteMessage_def Close_def epoll_Remove_def get_chat_def get_session_def
      net_view case_prod_beta Let_def PublishMatchCancel_def PublishChatMessage_def world_simps split: option.split sum.split)

lemma onDisconnect_foreign [simp]: "foreign k \<Longrightarrow> view (world (onDisconnect E i p)) k = view (world p) k"
  by (simp add: onDisconnect_def case_prod_beta Let_def nats_wrappers split: option.split)

lemma RemoveConnection_foreign [simp]:
  "foreign k \<Longrightarrow> view (world (RemoveConnection E (onDisconnect E) c p)) k = view (world p) k"
  by (simp add: RemoveConnection_def Connections.Remove_def case_prod_beta Let_def split: option.split)

lemma eject_foreign [simp]: "foreign k \<Longrightarrow> view (world (eject E i d p)) k = view (world p) k"
  by (simp add: eject_def Let_def split: option.split)

lemma eject_gone:
  assumes "registered p"
  shows "Connections.Get i (eject E i d p) = None"
proof -
  let ?p1 = "send E i TypeBanned (BannedMsg (whole_seconds d) ''multiple_reports'') p"
  have r: "registered ?p1" using assms by (rule registered_same [rotated]) simp
  show ?thesis
  proof (cases "Connections.Get i ?p1")
    case (Some c)
    with r have "conn_ID (heap ?p1 c) = i" unfolding registered_def consistent_def Connections.Get_def by blast
    with Some show ?thesis
      using app_dc.RemoveConnection_registered(2) [OF r, of E E c] by (simp add: eject_def Let_def Connections.Get_def)
  qed (simp add: eject_def Let_def)
qed

lemma third_report_ejects:
  assumes "registered p" "ReportAndCheck (env_redis E) fp reason (world p) = (Inr (True, d), e1)"
  shows "Connections.Get i (check_ban E i fp reason p) = None"
    "view (world (check_ban E i fp reason p)) (BanPrefix @ fp) = Some (VStr ''multiple_reports'', Some (24 * Hour))"
proof -
  have p1: "registered (p\<lparr>world := e1\<rparr>)" using assms(1) by (rule registered_outside)
  have c: "check_ban E i fp reason p = eject E i d (p\<lparr>world := e1\<rparr>)" using assms(2) by (simp add: check_ban_def outside_def)
  show "Connections.Get i (check_ban E i fp reason p) = None" unfolding c by (rule eject_gone [OF p1])
  show "view (world (check_ban E i fp reason p)) (BanPrefix @ fp) = Some (VStr ''multiple_reports'', Some (24 * Hour))"
    using rs.ReportAndCheck_Inr(3) [OF assms(2)] unfolding c by (simp add: Let_def Ban24Hour_def)
qed

lemma fingerprint_refused:
  assumes "registered p" "fp \<noteq> []" "SetFingerprint (env_redis E) (conn_ID (heap p c)) fp (world p) = (None, e1)"
    and "IsBanned (env_redis E) fp e1 = (Inr (True, remaining, reason), e2)"
  shows "Connections.Get (conn_ID (heap p c)) (on_set_fingerprint E c fp p) = None"
proof -
  let ?q = "respond E c TypeBanned (BannedMsg remaining reason) (p\<lparr>world := e2\<rparr>)"
  have r: "registered ?q" using assms(1) by (rule registered_same [rotated]) simp
  have "on_set_fingerprint E c fp p = RemoveConnection E (onDisconnect E) c ?q"
    using assms(2-4) by (simp add: on_set_fingerprint_def outside_def)
  then show ?thesis
    using app_dc.RemoveConnection_registered(2) [OF r, of E E c] by (simp add: Connections.Get_def)
qed

end

context reliable_ws_world
begin

lemma SetFingerprint_reliable:
  assumes "schema_ok (view e)"
  obtains e1 where "SetFingerprint (env_redis E) sid fp e = (None, e1)" "view e1 (BanPrefix @ x) = view e (BanPrefix @ x)"
proof -
  let ?c = "HSET (SessionPrefix @ sid) [(''fingerprint'', fp)]"
  have k: "kind_ok (view e) (SessionPrefix @ sid) KHash" using assms unfolding schema_ok_def by simp
  then have "\<not> is_err (answer ?c (view e))" by (auto simp: kind_ok_def split: option.split rvalue.split)
  then obtain r e1 where r: "env_redis E ?c e = (r, e1)" "reply_ok ?c (view e) r" by (rule rr.answers)
  with k have "err_result r = None" by (auto simp: kind_ok_def split: option.splits rvalue.splits reply.splits)
  moreover have "view e1 (BanPrefix @ x) = view e (BanPrefix @ x)"
    by (rule rs.frame [OF r(1), of "SessionPrefix @ sid"]) (simp_all add: BanPrefix_def SessionPrefix_def)
  ultimately show thesis using that r(1) by (simp add: SetFingerprint_def)
qed

lemma banned_refused:
  assumes "registered p" "schema_ok (view (world p))" "fp \<noteq> []"
    and "view (world p) (BanPrefix @ fp) = Some (VStr reason, Some t)" "0 < t"
  shows "Connections.Get (conn_ID (heap p c)) (on_set_fingerprint E c fp p) = None"
proof -
  obtain e1 where e1: "SetFingerprint (env_redis E) (conn_ID (heap p c)) fp (world p) = (None, e1)"
      "view e1 (BanPrefix @ fp) = view (world p) (BanPrefix @ fp)"
    by (rule SetFingerprint_reliable [OF assms(2)])
  obtain x e2 where x: "IsBanned (env_redis E) fp e1 = (x, e2)" by fastforce
  obtain rem where "x = Inr (True, rem, reason)"
    using rr.IsBanned_answered [OF _ assms(5) x, of reason] e1(2) assms(4) by auto
  with fingerprint_refused [OF assms(1,3) e1(1)] x show ?thesis by simp
qed

end

section \<open>Properties\<close>

text \<open>
  C9.  A ban takes effect at once: when counting a report says that the reported user is banned now, the handler leaves the
  user without a connection to this server, and after everything it did to clean up, the ban is in Redis, with its
  reason and 24 hours to live, as \<open>ReportAndCheck\<close> has it (the architecture document says 1 hour).
\<close>

theorem ban_ejects:
  assumes "ws_world E view active sent" and "registered p"
    and "ReportAndCheck (env_redis E) fp reason (world p) = (Inr (True, d), e1)"
  shows "Connections.Get i (check_ban E i fp reason p) = None \<and>
    view (world (check_ban E i fp reason p)) (BanPrefix @ fp) = Some (VStr ''multiple_reports'', Some (24 * Hour))"
  using ws_world.third_report_ejects [OF assms] by blast

text \<open>Two reports against Bob's fingerprint have been counted.\<close>

definition bob_reported :: "app_world app" where
  "bob_reported = ann_server\<lparr>world := ann_chats\<lparr>wd_keys := [ReportsPrefix @ ''bobs'' \<mapsto> (VStr (show_int 2), Some Hour)]\<rparr>\<rparr>"

lemma ann_server_registered: "registered (ann_server\<lparr>world := w\<rparr>)"
  by (auto simp: registered_def consistent_def ann_server_def split: if_splits)

theorem ban_ejects_witness:
  "Connections.Get ''bob'' (check_ban (app_ref lenient ascii_unicode) ''bob'' ''bobs'' ''spam'' bob_reported) = None"
proof -
  let ?E = "app_ref lenient ascii_unicode"
  have "\<exists>d e1. ReportAndCheck (env_redis ?E) ''bobs'' ''spam'' (world bob_reported) = (Inr (True, d), e1)"
    by (simp add: ReportAndCheck_def Ban.Ban_def app_ref_env env_ref_sel bob_reported_def AutoBanThreshold_def Let_def)
  then obtain d e1 where "ReportAndCheck (env_redis ?E) ''bobs'' ''spam'' (world bob_reported) = (Inr (True, d), e1)" by blast
  with ban_ejects [OF aref.ws_world_axioms] show ?thesis by (simp add: bob_reported_def ann_server_registered)
qed

text \<open>
  C10.  Who is banned stays out: when the services answer, a client that sends the fingerprint of a ban that is in force is no longer
  connected after its message has been handled.
\<close>

theorem banned_turned_away:
  assumes "reliable_ws_world E view active sent" and "registered p" and "schema_ok (view (world p))" and "fp \<noteq> []"
    and "view (world p) (BanPrefix @ fp) = Some (VStr reason, Some t)" and "0 < t"
  shows "Connections.Get (conn_ID (heap p c)) (on_set_fingerprint E c fp p) = None"
  by (rule reliable_ws_world.banned_refused [OF assms])

definition bob_banned :: app_world where
  "bob_banned = ann_chats\<lparr>wd_keys := [BanPrefix @ ''bobs'' \<mapsto> (VStr ''spam'', Some Hour)]\<rparr>"

theorem banned_turned_away_witness:
  "Connections.Get ''bob'' (on_set_fingerprint (app_ref lenient ascii_unicode) 1 ''bobs'' (ann_server\<lparr>world := bob_banned\<rparr>)) = None"
proof -
  have "schema_ok (wd_keys bob_banned)" by (auto simp: schema_ok_def kind_ok_def bob_banned_def split: if_splits)
  with banned_turned_away [OF arefr.reliable_ws_world_axioms ann_server_registered [of bob_banned], of "''bobs''" "''spam''" Hour 1]
  show ?thesis by (simp add: bob_banned_def ann_server_def)
qed

text \<open>
  C11.  The heartbeat removes exactly the dead connections: when pings can be written, a check keeps a connection in the registry if and
  only if something was heard from it within the interval and the timeout, whatever the order in which the connections are visited.
\<close>

theorem heartbeat_evicts:
  assumes "registered p" and "\<And>net e. fst (net_write E net PingFrame e) = None" and "\<And>cs. set (ord cs) = set cs"
  shows "Connections.Get i (checkConnections E (onDisconnect E) ord config p) = Some c \<longleftrightarrow>
    Connections.Get i p = Some c \<and> env_now E (world p) - conn_LastPing (heap p c) \<le> Interval config + Timeout config"
  unfolding Connections.Get_def by (rule app_dc.checkConnections_byID [OF assms])

theorem heartbeat_evicts_witness:
  "let E = app_ref lenient ascii_unicode;
       p = ann_server\<lparr>world := ann_chats\<lparr>wd_now := 50 * Second\<rparr>\<rparr>;
       q = checkConnections E (onDisconnect E) rev DefaultHeartbeatConfig (set_LastPing 0 (20 * Second) p)
   in Connections.Get ''ann'' q = Some 0 \<and> Connections.Get ''bob'' q = None"
proof -
  let ?E = "app_ref lenient ascii_unicode" and ?p = "set_LastPing 0 (20 * Second) (ann_server\<lparr>world := ann_chats\<lparr>wd_now := 50 * Second\<rparr>\<rparr>)"
  have r: "registered ?p" by (rule registered_outside(8) [OF ann_server_registered])
  have k: "Connections.Get i (checkConnections ?E (onDisconnect ?E) rev DefaultHeartbeatConfig ?p) = Some c \<longleftrightarrow>
      Connections.Get i ?p = Some c \<and> env_now ?E (world ?p) - conn_LastPing (heap ?p c) \<le> 40 * Second" for i c
    using heartbeat_evicts [OF r, of ?E rev] by (simp add: app_ref_net DefaultHeartbeatConfig_def)
  have "Connections.Get i (checkConnections ?E (onDisconnect ?E) rev DefaultHeartbeatConfig ?p) = None \<longleftrightarrow>
      (\<forall>c. \<not> (Connections.Get i ?p = Some c \<and> env_now ?E (world ?p) - conn_LastPing (heap ?p c) \<le> 40 * Second))" for i
    by (metis k not_None_eq)
  with k show ?thesis
    by (simp add: Let_def set_LastPing_def ann_server_def Connections.Get_def app_ref_env ann_chats_def)
qed

end
