(* ===== verification/Weaknesses.thy ===== *)
theory Weaknesses
  imports Bans
begin

text \<open>
  Behaviour of the code that its comments do not intend, each shown on the model: who may end a chat and type into one, a
  report that is counted twice, interests that contain a comma or are listed twice, and a second search of a user who waits.
\<close>

section \<open>Missing checks\<close>

context ws_world
begin

lemma counted_twice:
  assumes "ReportAndCheck (env_redis E) fp reason (world p) = (Inr (False, d), e1)"
    and "CountRecent (app_db E) fp (24 * Hour) e1 = (Inr n, e2)" "AutoBanThreshold \<le> n"
    and "Escalate (env_redis E) fp ''multiple_reports'' e2 = (Inr d', e3)"
  shows "reports (view (world (check_ban E i fp reason p))) fp = reports (view (world p)) fp + 2"
proof -
  have count: "reports ks fp = m" if "ks (ReportsPrefix @ fp) = Some (VStr (show_int m), t)" "m < 2 ^ 63 - 1" for ks m t
    using that by (simp add: reports_def count_at_def)
  let ?n = "reports (view (world p)) fp + 1"
  note R = rs.ReportAndCheck_Inr [OF assms(1)]
  have n: "?n < 3" using R(1) by simp
  have "reports (view e1) fp = ?n" by (rule count) (use R(3) n in \<open>auto simp: Let_def\<close>)
  moreover have "view e2 = view e1"
    using assms(2) db_view(2) [of fp "24 * Hour" e1] by (auto simp: CountRecent_def split: prod.splits sum.splits)
  moreover note X = rs.Escalate_Inr(2) [OF assms(4)]
  ultimately have "reports (view e3) fp = ?n + 1" by (intro count) (use n in auto)
  moreover have "check_ban E i fp reason p = eject E i d' (p\<lparr>world := e3\<rparr>)"
    using assms by (simp add: check_ban_def outside_def)
  ultimately show ?thesis by (simp add: reports_def count_at_def counter_at_def)
qed

lemma set_status_chat: "chat_at (view (world (set_status E sid st p))) i = chat_at (view (world p)) i"
proof -
  have "view (snd (UpdateStatus (env_redis E) now sid st e)) (ChatPrefix @ i) = view e (ChatPrefix @ i)" for now e
    unfolding UpdateStatus_def Let_def by (rule rs.pipe_frame [OF surjective_pairing]) (simp add: SessionPrefix_def ChatPrefix_def)
  then show ?thesis by (intro chat_at_cong) (simp add: set_status_def)
qed

end

context reliable_ws_world
begin

lemma decline_ends:
  assumes "schema_ok (view (world p))" "chat_at (view (world p)) i = Some cs"
  shows "chat_at (view (world (on_decline_match E c i p))) i = None"
proof -
  have g: "fst (get_chat E i p) = Some cs" using get_chat_reliable [OF assms(1)] assms(2) by simp
  show ?thesis
    using Delete_chat [of i "world (snd (get_chat E i p))"]
    by (simp add: on_decline_match_def case_prod_beta Let_def g set_status_chat PublishMatchNotify_def world_simps nats_wrappers)
qed

lemma typing_goes_out: "\<exists>data. sent (world (on_typing E c i b p)) = sent (world p) @ [(SubjectChat @ ''.'' @ i, data)]"
  by (auto simp: on_typing_def Let_def PublishChatMessage_def sent_Publish)

end

text \<open>
  Any connection can end any chat whose identifier it knows: \<open>decline_match\<close> checks neither that the sender takes part nor that
  the chat is still pending.
\<close>

theorem decline_ends_any_chat:
  assumes "reliable_ws_world E view active sent" and "schema_ok (view (world p))" and "chat_at (view (world p)) i = Some cs"
  shows "chat_at (view (world (on_decline_match E c i p))) i = None"
  by (rule reliable_ws_world.decline_ends [OF assms])

text \<open>Nothing keeps a client from typing into a chat of others: the event is published whatever the chat.\<close>

theorem typing_unchecked:
  assumes "reliable_ws_world E view active sent"
  shows "\<exists>data. sent (world (on_typing E c i b p)) = sent (world p) @ [(SubjectChat @ ''.'' @ i, data)]"
  by (rule reliable_ws_world.typing_goes_out [OF assms])

text \<open>
  A report that Redis counts as harmless but PostgreSQL as the third one is counted twice: the cross-check calls \<open>Escalate\<close>, which increments
  the counter \<open>ReportAndCheck\<close> has just incremented.
\<close>

theorem cross_check_counts_twice:
  assumes "ws_world E view active sent"
    and "ReportAndCheck (env_redis E) fp reason (world p) = (Inr (False, d), e1)"
    and "CountRecent (app_db E) fp (24 * Hour) e1 = (Inr n, e2)" and "AutoBanThreshold \<le> n"
    and "Escalate (env_redis E) fp ''multiple_reports'' e2 = (Inr d', e3)"
  shows "reports (view (world (check_ban E i fp reason p))) fp = reports (view (world p)) fp + 2"
  by (rule ws_world.counted_twice [OF assms])

section \<open>Interests with a comma\<close>

text \<open>
  The queue stores the interests of a user joined with commas: an interest with a comma comes back as two, and leaving the queue
  does not remove the user from the set of the interest.
\<close>

theorem comma_splits_interest:
  "\<exists>e ks. GetEntry rcall ''ann'' (snd (Enqueue rcall 1 ''ann'' [''a,b''] Map.empty)) = (Inr (Some e), ks) \<and> Interests e = [''a'', ''b'']"
  by (simp add: GetEntry_def Enqueue_def enqueue_cmds_def rcall_def key_defs Let_def matchKeyTTL_def put_set_def put_zset_def field_def)

section \<open>Interests listed twice\<close>

text \<open>
  Nothing removes repetitions from the interests of a user, and the second tier counts an interest once for each time it is listed: a user who lists
  \<open>a\<close> three times is paired with one who shares \<open>a\<close> alone although another shares both \<open>b\<close> and \<open>c\<close>.
\<close>

definition three_users :: keyspace where
  "three_users = fold effect (enqueue_cmds 3 ''cat'' [''b'', ''c'']) (fold effect (enqueue_cmds 2 ''bob'' [''a''])
     (fold effect (enqueue_cmds 1 ''ann'' [''a'', ''a'', ''a'', ''b'', ''c'']) Map.empty))"

lemma three_users_ok:
  "coherent three_users" "wf_keyspace three_users"
  "waiting three_users = [''ann'' \<mapsto> new_entry 1 ''ann'' [''a'', ''a'', ''a'', ''b'', ''c''], ''bob'' \<mapsto> new_entry 2 ''bob'' [''a''],
     ''cat'' \<mapsto> new_entry 3 ''cat'' [''b'', ''c'']]"
proof -
  have e: "waiting Map.empty = Map.empty" by (rule ext) (rule coherent_empty(2))
  have add: "coherent (fold effect (enqueue_cmds now u tags) ks) \<and> waiting (fold effect (enqueue_cmds now u tags) ks) = (waiting ks)(u \<mapsto> new_entry now u tags)"
    if "coherent ks" "waiting ks u = None" "interests_ok tags" for ks u tags now
    using that by (intro enqueue_coherent) auto
  have 1: "coherent (fold effect (enqueue_cmds 1 ''ann'' [''a'', ''a'', ''a'', ''b'', ''c'']) Map.empty) \<and>
      waiting (fold effect (enqueue_cmds 1 ''ann'' [''a'', ''a'', ''a'', ''b'', ''c'']) Map.empty) = [''ann'' \<mapsto> new_entry 1 ''ann'' [''a'', ''a'', ''a'', ''b'', ''c'']]"
    using add [OF coherent_empty] e by (simp add: interests_ok_def)
  note 2 = add [OF conjunct1 [OF 1], of "''bob''" "[''a'']" 2]
  have 2: "coherent (fold effect (enqueue_cmds 2 ''bob'' [''a'']) (fold effect (enqueue_cmds 1 ''ann'' [''a'', ''a'', ''a'', ''b'', ''c'']) Map.empty)) \<and>
      waiting (fold effect (enqueue_cmds 2 ''bob'' [''a'']) (fold effect (enqueue_cmds 1 ''ann'' [''a'', ''a'', ''a'', ''b'', ''c'']) Map.empty)) =
      [''ann'' \<mapsto> new_entry 1 ''ann'' [''a'', ''a'', ''a'', ''b'', ''c''], ''bob'' \<mapsto> new_entry 2 ''bob'' [''a'']]"
    using 2 1 by (simp add: interests_ok_def)
  note 3 = add [OF conjunct1 [OF 2], of "''cat''" "[''b'', ''c'']" 3]
  show "coherent three_users" "waiting three_users = [''ann'' \<mapsto> new_entry 1 ''ann'' [''a'', ''a'', ''a'', ''b'', ''c''], ''bob'' \<mapsto> new_entry 2 ''bob'' [''a''],
     ''cat'' \<mapsto> new_entry 3 ''cat'' [''b'', ''c'']]"
    using 3 2 by (simp_all add: three_users_def interests_ok_def)
  show "wf_keyspace three_users" unfolding three_users_def by (intro wf_enqueue) (simp add: wf_keyspace_def)
qed

theorem repetition_misleads:
  "\<exists>m ks. TryOverlapMatch rcall (\<lambda>xs. xs) ''ann'' three_users = (Inr (Some m), ks) \<and> SessionB m = ''bob'' \<and> SharedInterests m = [''a'']"
proof -
  let ?a = "new_entry 1 ''ann'' [''a'', ''a'', ''a'', ''b'', ''c'']" and ?b = "new_entry 2 ''bob'' [''a'']" and ?c = "new_entry 3 ''cat'' [''b'', ''c'']"
  have w: "waiting three_users ''ann'' = Some ?a" "waiting three_users ''bob'' = Some ?b" "waiting three_users ''cat'' = Some ?c"
    by (simp_all add: three_users_ok(3))
  have s: "overlap_score ?a ?b = 3" "overlap_score ?a ?c = 2" "common ?a ?b = {''a''}" by (auto simp: overlap_score_def new_entry_def)
  obtain x ks where x: "TryOverlapMatch rcall (\<lambda>xs. xs) ''ann'' three_users = (Inr x, ks)" and
    c: "case x of
       None \<Rightarrow> \<forall>c e'. c \<noteq> ''ann'' \<longrightarrow> waiting three_users c = Some e' \<longrightarrow> common ?a e' = {}
     | Some m \<Rightarrow> \<exists>b. SessionA m = ''ann'' \<and> SessionB m \<noteq> ''ann'' \<and> waiting three_users (SessionB m) = Some b \<and>
         common ?a b \<noteq> {} \<and> SharedInterests m = sorted_list_of_set (common ?a b) \<and>
         (\<forall>c e'. c \<noteq> ''ann'' \<longrightarrow> waiting three_users c = Some e' \<longrightarrow> overlap_score ?a e' \<le> overlap_score ?a b)"
    using overlap_best [OF rref.reliable_redis_axioms identity_order.map_order_axioms, of three_users, OF three_users_ok(1,2) w(1)] by blast
  show ?thesis
  proof (cases x)
    case None
    with c have "\<forall>c e'. c \<noteq> ''ann'' \<longrightarrow> waiting three_users c = Some e' \<longrightarrow> common ?a e' = {}" by simp
    from this [rule_format, OF _ w(2)] s(3) show ?thesis by simp
  next
    case (Some m)
    from c [unfolded Some option.case] obtain b where b: "SessionB m \<noteq> ''ann''" "waiting three_users (SessionB m) = Some b" "SharedInterests m = sorted_list_of_set (common ?a b)"
        and m: "\<And>c e'. c \<noteq> ''ann'' \<Longrightarrow> waiting three_users c = Some e' \<Longrightarrow> overlap_score ?a e' \<le> overlap_score ?a b"
      by blast
    have o: "overlap_score ?a ?b \<le> overlap_score ?a b" by (rule m [OF _ w(2)]) simp
    have "b \<noteq> ?c"
    proof
      assume "b = ?c"
      with o have "overlap_score ?a ?b \<le> overlap_score ?a ?c" by (simp only:)
      then show False unfolding s(1,2) by simp
    qed
    moreover have "SessionB m = ''bob'' \<and> b = ?b \<or> b = ?c" using b(1,2) unfolding three_users_ok(3) by (simp split: if_splits)
    ultimately have "SessionB m = ''bob''" "b = ?b" by blast+
    moreover have "sorted_list_of_set (common ?a ?b) = [''a'']" unfolding s(3) by simp
    ultimately show ?thesis using b(3) x unfolding Some by (intro exI [of _ m] exI [of _ ks]) (simp only: refl simp_thms)
  qed
qed

section \<open>A second search\<close>

text \<open>
  A user who is waiting and searches again is added again without being removed first: the entry is replaced, but the user stays in the sets of the
  former interests, and leaving the queue does not remove the user from them.
\<close>

theorem second_search_leaves_index:
  assumes "redis_server R view" and "coherent (view s)" and "waiting (view s) u = Some e" and "t \<in> set (Interests e)"
    and "interests_ok tags" and "t \<notin> set tags" and "Enqueue R now u tags s = (None, s1)" and "Dequeue R u s1 = (None, s2)"
  shows "waiting (view s2) u = None \<and> u \<in> set_at (view s2) (keyInterestPrefix @ t)"
proof -
  have sc: "schema_ok (view s)" using assms(2) by (simp add: coherent_def)
  note v = redis_server.pipe_ok [OF assms(1) assms(7) [unfolded Enqueue_def]]
  note E = enqueue_effect [OF sc v]
  have w: "waiting (view s1) u = Some (new_entry now u tags)" using enqueue_waiting [OF assms(5) E(3)] by simp
  have "view s2 = fold effect (dequeue_cmds u (new_entry now u tags)) (view s1)"
    using redis_server.Dequeue_view [OF assms(1) E(1) assms(8)] w by simp
  note D = dequeue_effect [OF E(1) this]
  have "u \<in> set_at (view s) (keyInterestPrefix @ t)" using assms(2-4) by (auto simp: coherent_def)
  then have "u \<in> set_at (view s2) (keyInterestPrefix @ t)"
    using assms(6) by (auto simp: D(4) E(4) new_entry_def key_defs)
  moreover have "waiting (view s2) u = None" by (simp add: waiting_def entry_of_def D(3))
  ultimately show ?thesis by simp
qed

end
