(* ===== verification/EpollOther.thy ===== *)
theory EpollOther
  imports WsServer
begin

text \<open>
  \<open>epoll_other.go\<close> of \<open>internal/ws\<close>, the stand-in for \<open>epoll.go\<close> on systems other than Linux: a goroutine per connection waits
  for a byte and reports the connection on a channel.  A goroutine is either reading or about to send; a step of one is a
  step of the relation \<open>monitor_step\<close>, so that they interleave freely with the calls of the server.  A nil map and a closed channel panic as
  in Go (\<open>None\<close>).  The bytes that have arrived on a socket and not been read are part of the state, since the goroutine reads from the
  same socket as the server.
\<close>

section \<open>State and operations\<close>

datatype monitor = Reading | Signalling bool

record fallback =
  fb_conns :: "nat list option"
  fb_readyCh :: "nat list"
  fb_done :: bool
  fb_monitors :: "(nat \<times> monitor) list"
  fb_input :: "nat \<Rightarrow> string"

definition readyCap :: nat where "readyCap = 128"

definition fb_NewEpoll :: "(nat \<Rightarrow> string) \<Rightarrow> fallback" where
  "fb_NewEpoll inp = \<lparr>fb_conns = Some [], fb_readyCh = [], fb_done = False, fb_monitors = [], fb_input = inp\<rparr>"

definition fb_Add :: "nat \<Rightarrow> fallback \<Rightarrow> fallback option" where
  "fb_Add conn e =
     (case fb_conns e of
        None \<Rightarrow> None
      | Some cs \<Rightarrow> Some (e\<lparr>fb_conns := Some (List.insert conn cs), fb_monitors := (conn, Reading) # fb_monitors e\<rparr>))"

definition fb_Remove :: "nat \<Rightarrow> fallback \<Rightarrow> fallback" where
  "fb_Remove conn e = e\<lparr>fb_conns := map_option (removeAll conn) (fb_conns e)\<rparr>"

text \<open>\<open>Wait\<close> when something is ready, which it waits for.\<close>

definition fb_Wait :: "fallback \<Rightarrow> nat list \<times> fallback" where
  "fb_Wait e = (fb_readyCh e, e\<lparr>fb_readyCh := []\<rparr>)"

definition fb_Close :: "fallback \<Rightarrow> fallback option" where
  "fb_Close e = (if fb_done e then None else Some (e\<lparr>fb_done := True, fb_conns := None\<rparr>))"

definition fb_socketFD :: "nat \<Rightarrow> int" where
  "fb_socketFD conn = - 1"

text \<open>
  A step of the goroutine at position \<open>i\<close>: its \<open>Read\<close> returns a byte or an error, it sends the connection, which needs room on the channel,
  or it sees that the instance is closed.  After an error it ends.
\<close>

inductive monitor_step :: "nat \<Rightarrow> fallback \<Rightarrow> fallback \<Rightarrow> bool" where
  read_byte: "i < length (fb_monitors e) \<Longrightarrow> fb_monitors e ! i = (conn, Reading) \<Longrightarrow> fb_input e conn = b # bs \<Longrightarrow>
    monitor_step i e (e\<lparr>fb_monitors := (fb_monitors e)[i := (conn, Signalling False)], fb_input := (fb_input e)(conn := bs)\<rparr>)"
| read_error: "i < length (fb_monitors e) \<Longrightarrow> fb_monitors e ! i = (conn, Reading) \<Longrightarrow>
    monitor_step i e (e\<lparr>fb_monitors := (fb_monitors e)[i := (conn, Signalling True)]\<rparr>)"
| signal: "i < length (fb_monitors e) \<Longrightarrow> fb_monitors e ! i = (conn, Signalling last_one) \<Longrightarrow> length (fb_readyCh e) < readyCap \<Longrightarrow>
    monitor_step i e (e\<lparr>fb_readyCh := fb_readyCh e @ [conn],
      fb_monitors := (if last_one then take i (fb_monitors e) @ drop (Suc i) (fb_monitors e) else (fb_monitors e)[i := (conn, Reading)])\<rparr>)"
| closed: "i < length (fb_monitors e) \<Longrightarrow> fb_monitors e ! i = (conn, Signalling last_one) \<Longrightarrow> fb_done e \<Longrightarrow>
    monitor_step i e (e\<lparr>fb_monitors := take i (fb_monitors e) @ drop (Suc i) (fb_monitors e)\<rparr>)"

text \<open>What can happen to an instance: calls, goroutines, and bytes that arrive.  \<open>added\<close> collects the connections ever added.\<close>

inductive fb_run :: "nat set \<Rightarrow> fallback \<Rightarrow> bool" where
  new: "fb_run {} (fb_NewEpoll inp)"
| add: "fb_run added e \<Longrightarrow> fb_Add conn e = Some e' \<Longrightarrow> fb_run (insert conn added) e'"
| remove: "fb_run added e \<Longrightarrow> fb_run added (fb_Remove conn e)"
| wait: "fb_run added e \<Longrightarrow> fb_readyCh e \<noteq> [] \<Longrightarrow> fb_run added (snd (fb_Wait e))"
| close: "fb_run added e \<Longrightarrow> fb_Close e = Some e' \<Longrightarrow> fb_run added e'"
| monitor: "fb_run added e \<Longrightarrow> monitor_step i e e' \<Longrightarrow> fb_run added e'"
| input: "fb_run added e \<Longrightarrow> fb_run added (e\<lparr>fb_input := inp\<rparr>)"

section \<open>What it guarantees\<close>

definition fb_ok :: "nat set \<Rightarrow> fallback \<Rightarrow> bool" where
  "fb_ok added e \<longleftrightarrow> length (fb_readyCh e) \<le> readyCap \<and> set (fb_readyCh e) \<subseteq> added \<and> (\<forall>m \<in> set (fb_monitors e). fst m \<in> added)"

lemma set_remove_nth: "set (take i xs @ drop (Suc i) xs) \<subseteq> set xs"
  by (auto dest: in_set_takeD in_set_dropD)

lemma monitor_step_ok: "monitor_step i e e' \<Longrightarrow> fb_ok added e \<Longrightarrow> fb_ok added e'"
proof (induction rule: monitor_step.induct)
  case (read_byte i e conn b bs)
  have "fst (fb_monitors e ! i) \<in> added" using read_byte(1,4) nth_mem by (fastforce simp: fb_ok_def)
  with read_byte show ?case by (auto simp: fb_ok_def dest!: set_update_subset_insert [THEN subsetD])
next
  case (read_error i e conn)
  have "fst (fb_monitors e ! i) \<in> added" using read_error(1,3) nth_mem by (fastforce simp: fb_ok_def)
  with read_error show ?case by (auto simp: fb_ok_def dest!: set_update_subset_insert [THEN subsetD])
next
  case (signal i e conn last_one)
  have "fst (fb_monitors e ! i) \<in> added" using signal(1,4) nth_mem by (fastforce simp: fb_ok_def)
  with signal show ?case
    using set_remove_nth [of i "fb_monitors e"] by (auto simp: fb_ok_def dest!: set_update_subset_insert [THEN subsetD])
next
  case (closed i e conn last_one)
  then show ?case using set_remove_nth [of i "fb_monitors e"] by (auto simp: fb_ok_def)
qed

text \<open>
  In every run, the channel never holds more than its 128 places and only connections that were added are reported as ready.
\<close>

theorem fallback_reports_added: "fb_run added e \<Longrightarrow> fb_ok added e"
proof (induction rule: fb_run.induct)
  case (monitor added e i e')
  then show ?case using monitor_step_ok by blast
qed (auto simp: fb_ok_def fb_NewEpoll_def fb_Add_def fb_Remove_def fb_Wait_def fb_Close_def split: option.splits if_splits)

section \<open>What it does not\<close>

text \<open>
  The byte the goroutine has read is gone when the server reads the frame: what the server finds on the socket is the input
  without it.
\<close>

theorem monitor_eats_byte:
  assumes "fb_monitors e = [(conn, Reading)]" and "fb_input e conn = b # bs" and "length (fb_readyCh e) < readyCap"
  shows "\<exists>e1 e2. monitor_step 0 e e1 \<and> monitor_step 0 e1 e2 \<and> conn \<in> set (fst (fb_Wait e2)) \<and> fb_input e2 conn = bs"
proof -
  let ?e1 = "e\<lparr>fb_monitors := [(conn, Signalling False)], fb_input := (fb_input e)(conn := bs)\<rparr>"
  let ?e2 = "?e1\<lparr>fb_readyCh := fb_readyCh e @ [conn], fb_monitors := [(conn, Reading)]\<rparr>"
  have "monitor_step 0 e ?e1" using monitor_step.read_byte [of 0 e conn b bs] assms by simp
  moreover have "monitor_step 0 ?e1 ?e2" using monitor_step.signal [of 0 ?e1 conn False] assms(3) by simp
  ultimately show ?thesis by (intro exI [of _ ?e1] exI [of _ ?e2]) (simp add: fb_Wait_def)
qed

text \<open>
  All connections have the same descriptor, so that the registry takes every socket for the connection that was added last: a frame
  read from one client is handled as a message of another.
\<close>

theorem fallback_confuses_connections:
  assumes "net_fd E = (\<lambda>net e. fb_socketFD net)" and "conn_Fd (heap p c) = fb_socketFD n"
  shows "GetByConn E net (Connections.Add c p) = Some c"
  using assms by (simp add: GetByConn_def GetByFd_def Connections.Add_def fb_socketFD_def AList.update_conv')

end
