(* ===== verification/ServerLoop.thy ===== *)
theory ServerLoop
  imports AppInvariant "HOL-Library.Multiset"
begin

text \<open>
  The parts of \<open>server.go\<close> around the handlers: the event loop with its bounded pool of workers, which run at the same time as each other and as
  everything else the server does, \<open>Shutdown\<close> with its drain loop and the time it takes, and \<open>handleHealth\<close>.
\<close>

section \<open>Workers\<close>

text \<open>
  A worker is a goroutine of \<open>startEventLoop\<close>, told by how far it has come in \<open>handleConn\<close>: started, the connection found, the flag
  \<open>processing\<close> set, the frame handled, about to give its place in the pool back.  A frame is handled in one step; the steps of workers
  alternate freely.
\<close>

datatype worker =
    Started nat
  | Found nat conn
  | Claimed nat conn
  | Handled conn
  | Leaving

record 'e event_loop =
  el_server :: "'e app"
  el_batch :: "nat list"
  el_pool :: nat
  el_workers :: "worker multiset"
  el_done :: bool

definition lookup_conn :: "'e appenv \<Rightarrow> nat \<Rightarrow> 'e app \<Rightarrow> worker" where
  "lookup_conn E net p = (case GetByConn E net p of None \<Rightarrow> Leaving | Some c \<Rightarrow> Found net c)"

text \<open>\<open>atomic.CompareAndSwapInt32(&c.processing, 0, 1)\<close>.\<close>

definition claim :: "nat \<Rightarrow> conn \<Rightarrow> 'e app \<Rightarrow> worker \<times> 'e app" where
  "claim net c p = (if conn_processing (heap p c) then (Leaving, p) else (Claimed net c, set_processing c True p))"

text \<open>
  What the goroutines other than the workers do: requests to upgrade, the heartbeat, messages from NATS, a shutdown, and the rest of the world.
\<close>

inductive other_event :: "'e appenv \<Rightarrow> ServerConfig \<Rightarrow> HeartbeatConfig \<Rightarrow> 'e app \<Rightarrow> 'e app \<Rightarrow> bool" for E config hb where
  outer_world: "other_event E config hb p (p\<lparr>world := e\<rparr>)"
| upgrade: "fresh_upgrade E p \<Longrightarrow> other_event E config hb p (snd (handleUpgrade E config p))"
| heartbeat: "other_event E config hb p (checkConnections E (onDisconnect E) ord hb p)"
| delivery: "other_event E config hb p (deliver E h data p)"
| drain_start: "other_event E config hb p (shutdown_begin (onDisconnect E) ord p)"
| force: "other_event E config hb p (shutdown_end E ord p)"

inductive loop_step :: "'e appenv \<Rightarrow> ServerConfig \<Rightarrow> HeartbeatConfig \<Rightarrow> 'e event_loop \<Rightarrow> 'e event_loop \<Rightarrow> bool" for E config hb where
  wait: "el_batch s = [] \<Longrightarrow> \<not> el_done s \<Longrightarrow> loop_step E config hb s (s\<lparr>el_batch := epoll_Wait fds (el_server s)\<rparr>)"
| acquire: "el_batch s = net # rest \<Longrightarrow> int (el_pool s) < WorkerPoolSize config \<Longrightarrow>
    loop_step E config hb s (s\<lparr>el_batch := rest, el_pool := Suc (el_pool s), el_workers := add_mset (Started net) (el_workers s)\<rparr>)"
| find: "el_workers s = add_mset (Started net) ws \<Longrightarrow>
    loop_step E config hb s (s\<lparr>el_workers := add_mset (lookup_conn E net (el_server s)) ws\<rparr>)"
| claim: "el_workers s = add_mset (Found net c) ws \<Longrightarrow> claim net c (el_server s) = (w, p) \<Longrightarrow>
    loop_step E config hb s (s\<lparr>el_server := p, el_workers := add_mset w ws\<rparr>)"
| handle: "el_workers s = add_mset (Claimed net c) ws \<Longrightarrow>
    loop_step E config hb s (s\<lparr>el_server := read_frame E config (onMessage E) (onDisconnect E) net c (el_server s),
      el_workers := add_mset (Handled c) ws\<rparr>)"
| unclaim: "el_workers s = add_mset (Handled c) ws \<Longrightarrow>
    loop_step E config hb s (s\<lparr>el_server := set_processing c False (el_server s), el_workers := add_mset Leaving ws\<rparr>)"
| release: "el_workers s = add_mset Leaving ws \<Longrightarrow> loop_step E config hb s (s\<lparr>el_pool := el_pool s - 1, el_workers := ws\<rparr>)"
| other: "other_event E config hb (el_server s) p \<Longrightarrow> loop_step E config hb s (s\<lparr>el_server := p\<rparr>)"
| stop: "loop_step E config hb s (s\<lparr>el_done := True\<rparr>)"

inductive loop_run :: "'e appenv \<Rightarrow> ServerConfig \<Rightarrow> HeartbeatConfig \<Rightarrow> 'e event_loop \<Rightarrow> bool" for E config hb where
  start: "loop_run E config hb \<lparr>el_server = NewServer e, el_batch = [], el_pool = 0, el_workers = {#}, el_done = False\<rparr>"
| step: "loop_run E config hb s \<Longrightarrow> loop_step E config hb s s' \<Longrightarrow> loop_run E config hb s'"

section \<open>The drain loop\<close>

text \<open>
  The loop of \<open>Shutdown\<close> waits at a \<open>select\<close> for a timer of thirty seconds and a ticker of one second.  Times count from the start of the two.
  A tick waits in the channel of the ticker, which holds one, until it is received; ticks that come meanwhile are dropped.  When a case is ready, the
  \<open>select\<close> does not wait; otherwise it ends when the first becomes ready, or later if the scheduler is late.  When both are ready the choice is
  open.  The record gives, for each time the loop comes to the \<open>select\<close>, the delay in nanoseconds, the choice, and what the other goroutines do meanwhile.
\<close>

record 's drain_env =
  late :: "nat \<Rightarrow> nat"
  deadline_first :: "nat \<Rightarrow> bool"
  meanwhile :: "nat \<Rightarrow> 's \<Rightarrow> 's"

definition drainDeadline :: Duration where "drainDeadline = 30 * Second"

text \<open>When the \<open>select\<close> that is entered at \<open>t\<close> with the next tick at \<open>tick\<close> ends.\<close>

definition select_ends :: "'s drain_env \<Rightarrow> nat \<Rightarrow> Duration \<Rightarrow> Duration \<Rightarrow> Duration" where
  "select_ends D k t tick = (if tick \<le> t \<or> drainDeadline \<le> t then t else min tick drainDeadline + int (late D k))"

definition next_tick :: "Duration \<Rightarrow> Duration" where
  "next_tick t = (t div Second + 1) * Second"

lemma next_tick_later: "t < next_tick t"
proof -
  have "t = t div Second * Second + t mod Second" "t mod Second < Second" by simp_all
  then show ?thesis unfolding next_tick_def by (simp add: distrib_right)
qed

function drainLoop :: "('e, 'z) server_scheme drain_env \<Rightarrow> nat \<Rightarrow> Duration \<Rightarrow> Duration \<Rightarrow> ('e, 'z) server_scheme \<Rightarrow> Duration \<times> ('e, 'z) server_scheme" where
  "drainLoop D k t tick p =
     (let t1 = select_ends D k t tick; p1 = meanwhile D k p
      in if drainDeadline \<le> t1 \<and> (t1 < tick \<or> deadline_first D k) then (t1, p1)
         else if Count p1 = 0 then (t1, p1)
         else drainLoop D (Suc k) t1 (next_tick t1) p1)"
  by pat_completeness auto

termination
proof (relation "measures [\<lambda>(D, k, t, tick, p). nat (drainDeadline - t), \<lambda>(D, k, t, tick, p). if tick \<le> t then 1 else 0]", simp)
  fix D :: "('e, 'z) server_scheme drain_env" and k t tick and p t1 p1
  assume t1: "t1 = select_ends D k t tick" and d: "\<not> (drainDeadline \<le> t1 \<and> (t1 < tick \<or> deadline_first D k))"
  show "((D, Suc k, t1, next_tick t1, p1), D, k, t, tick, p) \<in>
      measures [\<lambda>(D, k, t, tick, p). nat (drainDeadline - t), \<lambda>(D, k, t, tick, p). if tick \<le> t then 1 else 0]"
    using d next_tick_later [of t1] by (auto simp: t1 select_ends_def split: if_splits)
qed

declare drainLoop.simps [simp del]

text \<open>
  All of \<open>Shutdown\<close>, with the time at which the drain loop ended.  \<open>httpShutdown\<close> is \<open>Shutdown\<close> of \<open>net/http\<close>, whose error is only logged.
\<close>

definition Shutdown ::
    "('e, 'h, 'y) wsenv_scheme \<Rightarrow> ('e \<Rightarrow> error option \<times> 'e) \<Rightarrow> ('e, 'z) server_scheme disconnect \<Rightarrow> (conn list \<Rightarrow> conn list) \<Rightarrow> (conn list \<Rightarrow> conn list) \<Rightarrow>
     ('e, 'z) server_scheme drain_env \<Rightarrow> ('e, 'z) server_scheme \<Rightarrow> Duration \<times> ('e, 'z) server_scheme" where
  "Shutdown E httpShutdown disconnect ord1 ord2 D p =
     (let p1 = outside0 httpShutdown (p\<lparr>draining := True\<rparr>);
          p2 = notify_all disconnect ord1 p1;
          (t, p3) = drainLoop D 0 0 (next_tick 0) p2
      in (t, shutdown_end E ord2 p3))"

section \<open>The health check\<close>

text \<open>
  \<open>time.Duration.String\<close> of a number of whole seconds, and rounding to them, for a duration that is not negative.
\<close>

definition seconds_text :: "nat \<Rightarrow> string" where
  "seconds_text n =
     (if 3600 \<le> n then show_nat (n div 3600) @ ''h'' else []) @ (if 60 \<le> n then show_nat (n div 60 mod 60) @ ''m'' else []) @
     show_nat (n mod 60) @ ''s''"

definition round_seconds :: "Duration \<Rightarrow> nat" where
  "round_seconds d = nat ((d + Second div 2) div Second)"

definition handleHealth :: "Duration \<Rightarrow> ('e, 'z) server_scheme \<Rightarrow> string" where
  "handleHealth uptime p =
     json_text (JObj [(''status'', JStr ''ok''), (''connections'', JInt (Count p)), (''uptime'', JStr (seconds_text (round_seconds uptime)))])
     @ [CHR 0x0A]"

section \<open>The flags of the connections\<close>

text \<open>No event but the upgrade writes to a connection, except for the time of the last frame.\<close>

abbreviation flags :: "('e, 'z) server_scheme \<Rightarrow> conn \<Rightarrow> bool" where
  "flags p \<equiv> \<lambda>c. conn_processing (heap p c)"

definition same_flags :: "('e, 'z) server_scheme \<Rightarrow> ('e, 'z) server_scheme \<Rightarrow> bool" where
  "same_flags p q \<longleftrightarrow> flags q = flags p \<and> next_conn q = next_conn p"

lemma same_flags_trans: "same_flags p q \<Longrightarrow> same_flags q r \<Longrightarrow> same_flags p r"
  by (simp add: same_flags_def)

lemma same_flags_refl [simp]: "same_flags p p"
  by (simp add: same_flags_def)

lemma same_flags_parts [simp]:
  "same_flags p (q\<lparr>world := e\<rparr>) = same_flags p q" "same_flags p (q\<lparr>epoll_conns := x\<rparr>) = same_flags p q"
  "same_flags p (q\<lparr>draining := b\<rparr>) = same_flags p q" "same_flags p (q\<lparr>byID := a\<rparr>) = same_flags p q" "same_flags p (q\<lparr>byFd := d\<rparr>) = same_flags p q"
  "same_flags p (set_LastPing c now q) = same_flags p q"
  by (auto simp: same_flags_def set_LastPing_def fun_eq_iff)

lemma same_flags_outside [simp]:
  "same_flags p (snd (outside f q)) = same_flags p q" "same_flags p (outside0 f q) = same_flags p q"
  by (simp_all add: outside0_def outside_def case_prod_beta Let_def)

lemma same_flags_calls [simp]:
  "same_flags p (snd (WriteMessage E c data q)) = same_flags p q" "same_flags p (snd (WritePing E c q)) = same_flags p q"
  "same_flags p (Close E c q) = same_flags p q" "same_flags p (snd (epoll_Remove E net q)) = same_flags p q"
  "same_flags p (snd (epoll_Add E net q)) = same_flags p q" "same_flags p (snd (Connections.Remove E i q)) = same_flags p q"
  "same_flags p (Connections.Add c q) = same_flags p q"
  by (simp_all add: WriteMessage_def WritePing_def Close_def epoll_Remove_def epoll_Add_def Connections.Remove_def Connections.Add_def
      case_prod_beta Let_def split: option.split)

lemma same_flags_app [simp]:
  "same_flags p (q\<lparr>msgBuffer := b\<rparr>) = same_flags p q" "same_flags p (q\<lparr>panicked := x\<rparr>) = same_flags p q"
  "same_flags p (with_subs f q) = same_flags p q"
  by (simp_all add: same_flags_def with_subs_def Let_def case_prod_beta)

lemma same_flags_send [simp]:
  "same_flags p (send E sid ty m q) = same_flags p q" "same_flags p (respond E c ty m q) = same_flags p q"
  "same_flags p (set_status E sid st q) = same_flags p q" "same_flags p (subscribeToChatNATS E sid i q) = same_flags p q"
  "same_flags p (snd (get_chat E i q)) = same_flags p q" "same_flags p (snd (get_session E i q)) = same_flags p q"
  by (simp_all add: send_def respond_def SendMessage_def set_status_def subscribeToChatNATS_def get_chat_def get_session_def case_prod_beta
      split: option.split sum.split)

lemma same_flags_remove [simp]:
  "same_flags p (onDisconnect E i q) = same_flags p q" "same_flags p (RemoveConnection E (onDisconnect E) c q) = same_flags p q"
proof -
  show *: "same_flags p (onDisconnect E i q) = same_flags p q" for i q
    by (simp add: onDisconnect_def case_prod_beta Let_def split: option.split)
  show "same_flags p (RemoveConnection E (onDisconnect E) c q) = same_flags p q"
    by (simp add: RemoveConnection_def case_prod_beta Let_def *)
qed

lemma deliver_flags: "same_flags p (deliver E h data p)"
  by (cases h) (simp_all add: on_chat_event_def on_match_found_def on_match_notify_def on_moderation_result_def Let_def split: sum.split)

lemma on_report_flags: "same_flags p (on_report E c i r p)"
proof -
  have "same_flags p (eject E j d q) = same_flags p q" for j d q by (simp add: eject_def Let_def split: option.split)
  then have "same_flags p (check_ban E j f r q) = same_flags p q" for j f q by (simp add: check_ban_def case_prod_beta split: sum.split)
  moreover have "same_flags p (store_report E a b i r q) = same_flags p q" for a b q
    by (simp add: store_report_def case_prod_beta Let_def split: option.split sum.split)
  ultimately show ?thesis by (simp add: on_report_def Let_def case_prod_beta split: option.split)
qed

lemma on_message_flags: "same_flags p (on_message E c i t p)"
  unfolding on_message_def Let_def case_prod_beta
  by (cases "ValidateMessage t"; cases "Blocked (Check (app_unicode E) (contentFilter E) t)") (simp_all split: option.split)

lemma handle_msg_flags: "same_flags p (handle_msg E c msg p)"
  by (cases msg) (simp_all add: handle_msg_def on_report_flags on_message_flags on_set_fingerprint_def on_find_match_def on_cancel_match_def
      on_accept_match_def on_decline_match_def on_typing_def on_end_chat_def Let_def case_prod_beta split: option.split sum.split)

lemma read_frame_flags: "same_flags p (read_frame E config (onMessage E) (onDisconnect E) net c p)"
proof -
  have "same_flags p (onMessage E c data q)" if "same_flags p q" for data q
    using that same_flags_trans [OF that handle_msg_flags]
    by (simp add: onMessage_def Dispatch_def app_handlers_def sendError_def sendPong_def Let_def case_prod_beta split: sum.split option.split)
  then show ?thesis by (simp add: read_frame_def case_prod_beta Let_def split: header.split sum.split option.split)
qed

lemma fold_flags: "(\<And>c q. same_flags p q \<Longrightarrow> same_flags p (g c q)) \<Longrightarrow> same_flags p q \<Longrightarrow> same_flags p (fold g cs q)"
  by (induction cs arbitrary: q) auto

lemma round_flags:
  "same_flags p (checkConnections E (onDisconnect E) ord hb p)" "same_flags p (shutdown_begin (onDisconnect E) ord p)"
  "same_flags p (shutdown_end E ord p)"
  unfolding checkConnections_def shutdown_begin_def notify_all_def shutdown_end_def Let_def same_flags_parts
  by (rule fold_flags; simp add: check_connection_def force_close_def case_prod_beta Let_def split: option.split)+

section \<open>Workers keep out of each other's way\<close>

fun worker_conn :: "worker \<Rightarrow> conn option" where
  "worker_conn (Started net) = None"
| "worker_conn (Found net c) = Some c"
| "worker_conn (Claimed net c) = Some c"
| "worker_conn (Handled c) = Some c"
| "worker_conn Leaving = None"

fun holds :: "conn \<Rightarrow> worker \<Rightarrow> bool" where
  "holds c (Claimed net c') = (c' = c)"
| "holds c (Handled c') = (c' = c)"
| "holds c _ = False"

definition loop_ok :: "ServerConfig \<Rightarrow> 'e event_loop \<Rightarrow> bool" where
  "loop_ok config s \<longleftrightarrow> registered (el_server s) \<and> el_pool s = size (el_workers s) \<and> int (el_pool s) \<le> WorkerPoolSize config \<and>
     (\<forall>w \<in># el_workers s. \<forall>c. worker_conn w = Some c \<longrightarrow> c < next_conn (el_server s)) \<and>
     (\<forall>c. size (filter_mset (holds c) (el_workers s)) = (if flags (el_server s) c then 1 else 0))"

lemma size_filter_add [simp]:
  "size (filter_mset P (add_mset w ws)) = (if P w then Suc (size (filter_mset P ws)) else size (filter_mset P ws))"
  by simp

declare filter_mset_add_mset [simp del]

lemma holds_conn: "holds c w \<Longrightarrow> worker_conn w = Some c"
  by (cases w) auto

lemma lookup_conn_ok: "registered p \<Longrightarrow> worker_conn (lookup_conn E net p) = Some c \<Longrightarrow> c < next_conn p"
  unfolding registered_def consistent_def lookup_conn_def GetByConn_def GetByFd_def by (auto split: option.splits)

lemma lookup_conn_holds [simp]: "\<not> holds c (lookup_conn E net p)"
  by (simp add: lookup_conn_def split: option.split)

lemma flags_set_processing [simp]:
  "flags (set_processing c b p) d = (if d = c then b else flags p d)" "next_conn (set_processing c b p) = next_conn p"
  by (auto simp: set_processing_def)

lemma same_flagsD: "same_flags p q \<Longrightarrow> flags q = flags p \<and> next_conn p \<le> next_conn q"
  by (simp add: same_flags_def)

lemma next_conn_outside [simp]: "next_conn (snd (outside f q)) = next_conn q"
  by (simp add: outside_def case_prod_beta Let_def)

lemma handleUpgrade_flags:
  assumes "\<not> flags p (next_conn p)"
  shows "flags (snd (handleUpgrade E config p)) = flags p" "next_conn p \<le> next_conn (snd (handleUpgrade E config p))"
proof -
  let ?new = "p\<lparr>heap := (heap p)(next_conn p := (heap p (next_conn p))\<lparr>conn_processing := False\<rparr>), next_conn := Suc (next_conn p)\<rparr>"
  have [simp]: "same_flags ?new (q\<lparr>heap := (heap p)(next_conn p := x), next_conn := Suc (next_conn p)\<rparr>)" if "\<not> conn_processing x" for q x
    using that by (auto simp: same_flags_def fun_eq_iff)
  define q where "q = snd (handleUpgrade E config p)"
  have "same_flags p q \<or> same_flags ?new q"
    by (auto simp: q_def handleUpgrade_def Let_def case_prod_beta split: sum.split option.split)
  moreover have "flags ?new = flags p" using assms by (auto simp: fun_eq_iff)
  moreover have "next_conn p \<le> next_conn ?new" by simp
  ultimately have "flags q = flags p \<and> next_conn p \<le> next_conn q"
    using same_flagsD [of p q] same_flagsD [of ?new q] by (elim disjE) (simp, metis order_trans)
  then show "flags (snd (handleUpgrade E config p)) = flags p" "next_conn p \<le> next_conn (snd (handleUpgrade E config p))"
    unfolding q_def by simp_all
qed

lemma other_event_flags:
  "other_event E config hb p q \<Longrightarrow> \<not> flags p (next_conn p) \<Longrightarrow> flags q = flags p \<and> next_conn p \<le> next_conn q"
proof (induction rule: other_event.induct)
  case (upgrade p)
  then show ?case using handleUpgrade_flags by blast
qed (intro same_flagsD, simp add: deliver_flags round_flags)+

lemma other_event_registered: "other_event E config hb p q \<Longrightarrow> registered p \<Longrightarrow> registered q"
proof (induction rule: other_event.induct)
  case (upgrade p)
  then show ?case by (intro handleUpgrade_registered)
qed (simp_all add: app_cb.checkConnections_registered handler_registered app_cb.shutdown_begin_registered shutdown_end_registered registered_outside)

lemma loop_ok_other:
  assumes "loop_ok config s" "other_event E config hb (el_server s) p"
  shows "loop_ok config (s\<lparr>el_server := p\<rparr>)"
proof -
  let ?p = "el_server s"
  have "\<not> flags ?p (next_conn ?p)"
  proof
    assume "flags ?p (next_conn ?p)"
    with assms(1) have "size (filter_mset (holds (next_conn ?p)) (el_workers s)) = 1" by (simp add: loop_ok_def)
    then obtain w where "w \<in># el_workers s" "holds (next_conn ?p) w" by (auto simp: size_1_singleton_mset filter_mset_eq_conv dest!: size_eq_Suc_imp_elem)
    with assms(1) holds_conn [of "next_conn ?p" w] show False by (auto simp: loop_ok_def)
  qed
  from other_event_flags [OF assms(2) this] have f: "flags p c = flags ?p c" "next_conn ?p \<le> next_conn p" for c
    by (simp_all add: fun_eq_iff)
  have "registered p" using assms other_event_registered unfolding loop_ok_def by blast
  with assms(1) show ?thesis unfolding loop_ok_def by (auto simp: f(1) dest: less_le_trans [OF _ f(2)])
qed

lemma loop_step_ok:
  assumes "loop_step E config hb s s'" "loop_ok config s"
  shows "loop_ok config s'"
  using assms
proof (induction rule: loop_step.induct)
  case (find s net ws)
  then show ?case using lookup_conn_ok [of "el_server s" E net] by (auto simp: loop_ok_def)
next
  case (claim s net c ws w p)
  then show ?case by (auto simp: loop_ok_def claim_def registered_outside split: if_splits)
next
  case (handle s net c ws)
  let ?q = "read_frame E config (onMessage E) (onDisconnect E) net c (el_server s)"
  have "flags ?q d = flags (el_server s) d" "next_conn ?q = next_conn (el_server s)" for d
    using read_frame_flags [of "el_server s" E config net c] by (simp_all add: same_flags_def fun_eq_iff)
  moreover have "registered ?q" using handle(2) app_cb.read_frame_registered by (auto simp: loop_ok_def)
  ultimately show ?case using handle by (auto simp: loop_ok_def)
next
  case (unclaim s c ws)
  then show ?case by (auto simp: loop_ok_def registered_outside split: if_splits)
next
  case (release s ws)
  then show ?case by (auto simp: loop_ok_def)
next
  case (other s p)
  then show ?case using loop_ok_other by blast
qed (auto simp: loop_ok_def)

text \<open>
  C13.  However the goroutines of the server interleave, whatever clients send and whatever fails: never more than \<open>WorkerPoolSize\<close> workers run, and
  the flag of a connection is set exactly while one worker reads from it.  So no two workers read from one connection at
  the same time, and a connection is never left locked.
\<close>

theorem workers_exclusive:
  assumes "0 \<le> WorkerPoolSize config" and "loop_run E config hb s"
  shows "int (size (el_workers s)) \<le> WorkerPoolSize config \<and>
    (\<forall>c. size (filter_mset (holds c) (el_workers s)) = (if conn_processing (heap (el_server s) c) then 1 else 0))"
proof -
  have "loop_ok config s"
    using assms(2)
  proof induction
    case (start e)
    have "registered (NewServer e)" by (simp add: NewServer_def registered_def consistent_def)
    with assms(1) show ?case by (simp add: loop_ok_def NewServer_def)
  next
    case (step s s')
    then show ?case using loop_step_ok by blast
  qed
  then show ?thesis by (simp add: loop_ok_def)
qed

text \<open>The kernel reports one connection twice: the first worker claims it and the second, having found it, waits at the flag.\<close>

lemma outside_maps:
  "epoll_conns (snd (outside f p)) = epoll_conns p" "byFd (snd (outside f p)) = byFd p" "heap (snd (outside f p)) = heap p"
  by (simp_all add: outside_def case_prod_beta)

lemma epoll_Add_ref:
  "epoll_Add (app_ref f u) net p = (let fd = net_fd (app_ref f u) net (world p) in (None, p\<lparr>epoll_conns := AList.update fd net (epoll_conns p)\<rparr>))"
  by (simp add: epoll_Add_def outside_def app_ref_net Let_def)

lemma first_upgrade:
  fixes f u
  defines "p \<equiv> snd (handleUpgrade (app_ref f u) DefaultServerConfig (NewServer quiet))"
  shows "epoll_conns p = [(5, 0)]" "byFd p = [(5, 0)]" "\<not> flags p 0"
proof -
  let ?E = "app_ref f u" and ?p = "NewServer quiet"
  let ?p1 = "?p\<lparr>world := quiet\<lparr>net_opened := 1\<rparr>\<rparr>"
  have u: "outside (net_upgrade ?E) ?p = (Inr 0, ?p1)"
    by (simp add: outside_def app_ref_net NewServer_def quiet_def)
  obtain i w where v: "outside (env_uuid ?E) ?p1 = (i, ?p\<lparr>world := w\<rparr>)" "net_shut w = []"
    by (simp add: outside_def app_ref_env env_ref_sel quiet_def)
  have d: "draining ?p = False" "(MaxConnections DefaultServerConfig \<le> Count ?p) = False"
    by (simp_all add: NewServer_def DefaultServerConfig_def Count_def)
  show "epoll_conns p = [(5, 0)]" "byFd p = [(5, 0)]" "\<not> flags p 0"
    unfolding p_def handleUpgrade_def u d if_False prod.case sum.case v Let_def epoll_Add_ref option.case snd_conv
    by (simp_all add: outside0_def WriteMessage_def outside_maps Connections.Add_def app_ref_net v(2) NewServer_def quiet_def split: sum.split)
qed

theorem workers_exclusive_witness:
  "\<exists>s. loop_run (app_ref \<lparr>words = {}, phrases = []\<rparr> ascii_unicode) DefaultServerConfig DefaultHeartbeatConfig s \<and>
     el_workers s = {#Found 0 0, Claimed 0 0#} \<and> size (filter_mset (holds 0) (el_workers s)) = 1 \<and> conn_processing (heap (el_server s) 0)"
proof -
  let ?E = "app_ref \<lparr>words = {}, phrases = []\<rparr> ascii_unicode"
  let ?run = "loop_run ?E DefaultServerConfig DefaultHeartbeatConfig"
  let ?p = "(snd (handleUpgrade ?E DefaultServerConfig (NewServer quiet)))\<lparr>world := quiet\<rparr>"
  let ?s = "\<lambda>p b n ws. \<lparr>el_server = p, el_batch = b, el_pool = n, el_workers = ws, el_done = False\<rparr>"
  note step = loop_run.step [where E = ?E and config = DefaultServerConfig and hb = DefaultHeartbeatConfig]
  have "fresh_upgrade ?E (NewServer quiet)" by (simp add: fresh_upgrade_def NewServer_def)
  from step [OF step [OF loop_run.start loop_step.other [OF other_event.upgrade]] loop_step.other [OF other_event.outer_world [where e = quiet]], of quiet] this
  have "?run (?s ?p [] 0 {#})" by simp
  from step [OF this loop_step.wait [where fds = "[5, 5]"]] have "?run (?s ?p [0, 0] 0 {#})"
    by (simp add: epoll_Wait_def first_upgrade map_filter_simps)
  from step [OF this loop_step.acquire [where net = 0 and rest = "[0]"]] have "?run (?s ?p [0] 1 {#Started 0#})"
    by (simp add: DefaultServerConfig_def)
  from step [OF this loop_step.acquire [where net = 0 and rest = "[]"]] have r: "?run (?s ?p [] 2 {#Started 0, Started 0#})"
    by (simp add: DefaultServerConfig_def numeral_2_eq_2)
  have "net_shut quiet = []" by (simp add: quiet_def)
  then have l: "lookup_conn ?E 0 ?p = Found 0 0"
    by (simp add: lookup_conn_def GetByConn_def GetByFd_def first_upgrade app_ref_net)
  from step [OF r loop_step.find [where net = 0 and ws = "{#Started 0#}"]] have "?run (?s ?p [] 2 {#Found 0 0, Started 0#})" by (simp add: l)
  from step [OF this loop_step.find [where net = 0 and ws = "{#Found 0 0#}"]] have "?run (?s ?p [] 2 {#Found 0 0, Found 0 0#})"
    by (simp add: l add_mset_commute)
  from step [OF this loop_step.claim [where net = 0 and c = 0 and ws = "{#Found 0 0#}" and w = "Claimed 0 0" and p = "set_processing 0 True ?p"]]
  have r: "?run (?s (set_processing 0 True ?p) [] 2 {#Claimed 0 0, Found 0 0#})" by (simp add: claim_def first_upgrade)
  from workers_exclusive [OF _ r] r show ?thesis
    by (intro exI [of _ "?s (set_processing 0 True ?p) [] 2 {#Claimed 0 0, Found 0 0#}"]) (simp add: DefaultServerConfig_def add_mset_commute)
qed

section \<open>Draining ends\<close>

text \<open>\<open>closed\<close> gives the sockets that have been closed.\<close>

locale closing_world =
  fixes E :: "('e, 'h, 'y) wsenv_scheme" and closed :: "'e \<Rightarrow> nat set"
  assumes close_closes: "closed (net_close E net e) = insert net (closed e)"
    and calls_keep_closed: "closed (snd (env_redis E cmd e)) = closed e" "closed (snd (epoll_ctl E b fd e)) = closed e"
begin

lemma force_close_closes:
  "closed (world (force_close E c p)) = insert (conn_Conn (heap p c)) (closed (world p))"
  "heap (force_close E c p) = heap p" "byID (force_close E c p) = byID p"
  by (simp_all add: force_close_def Close_def Session.Delete_def epoll_Remove_def outside0_def outside_def case_prod_beta Let_def
      close_closes calls_keep_closed split: option.split)

lemma shutdown_end_closes:
  fixes p :: "('e, 'z) server_scheme"
  assumes "\<And>cs. set (ord cs) = set cs"
  shows "closed (world (shutdown_end E ord p)) = (\<lambda>(i, c). conn_Conn (heap p c)) ` set (byID p) \<union> closed (world p)"
    "epoll_conns (shutdown_end E ord p) = []"
proof -
  have "closed (world (fold (force_close E) cs q)) = (\<lambda>c. conn_Conn (heap q c)) ` set cs \<union> closed (world q)" for cs and q :: "('e, 'z) server_scheme"
    by (induction cs arbitrary: q) (auto simp: force_close_closes)
  then show "closed (world (shutdown_end E ord p)) = (\<lambda>(i, c). conn_Conn (heap p c)) ` set (byID p) \<union> closed (world p)"
    by (simp add: shutdown_end_def All_def assms image_image case_prod_beta)
  show "epoll_conns (shutdown_end E ord p) = []" by (simp add: shutdown_end_def)
qed

end

interpretation aclose: closing_world "app_ref f u" "\<lambda>w. set (net_shut w)" for f u
  by unfold_locales (auto simp: app_ref_net app_ref_env env_ref_sel)

context reliable_ws_world
begin

lemma force_close_session:
  "view (world (force_close E c p)) = (view (world p))(SessionPrefix @ conn_ID (heap p c) := None)"
proof -
  have "view (snd (Session.Delete (env_redis E) sid e)) = (view e)(SessionPrefix @ sid := None)" for sid e
  proof -
    have "\<not> is_err (answer (DEL (SessionPrefix @ sid)) (view e))" by simp
    then obtain r e1 where "env_redis E (DEL (SessionPrefix @ sid)) e = (r, e1)" "view e1 = effect (DEL (SessionPrefix @ sid)) (view e)"
      by (rule rr.answers)
    then show ?thesis by (simp add: Session.Delete_def)
  qed
  then show ?thesis
    by (simp add: force_close_def Close_def epoll_Remove_def net_view case_prod_beta Let_def outside0_def outside_def split: option.split)
qed

lemma shutdown_end_sessions:
  fixes p :: "('a, 'z) server_scheme"
  assumes "\<And>cs. set (ord cs) = set cs" "(i, c) \<in> set (byID p)"
  shows "view (world (shutdown_end E ord p)) (SessionPrefix @ conn_ID (heap p c)) = None"
proof -
  have h: "heap (force_close E c' q) = heap q" for c' and q :: "('a, 'z) server_scheme"
    by (simp add: force_close_def Close_def epoll_Remove_def outside0_def outside_def case_prod_beta Let_def split: option.split)
  have keep: "view (world (fold (force_close E) cs q)) k = None" if "view (world q) k = None" for cs k and q :: "('a, 'z) server_scheme"
    using that by (induction cs arbitrary: q) (simp_all add: force_close_session)
  have "view (world (fold (force_close E) cs q)) (SessionPrefix @ conn_ID (heap q c)) = None" if "c \<in> set cs" for cs and q :: "('a, 'z) server_scheme"
    using that
  proof (induction cs arbitrary: q)
    case (Cons c' cs)
    show ?case
    proof (cases "c' = c")
      case True
      then show ?thesis by (simp add: keep force_close_session)
    next
      case False
      with Cons.IH [of "force_close E c' q"] Cons.prems show ?thesis by (simp add: h)
    qed
  qed simp
  moreover have "c \<in> set (All ord p)" using assms by (force simp: All_def)
  ultimately show ?thesis by (simp add: shutdown_end_def)
qed

end

lemma drainLoop_from:
  assumes "drainLoop D k t tick p = (t', p')" "\<And>k. int (late D k) \<le> L" "t \<le> drainDeadline + L"
  shows "\<exists>n \<ge> k. p' = fold (meanwhile D) [k..<Suc n] p \<and> t' \<le> drainDeadline + L \<and> (t' < drainDeadline \<longrightarrow> Count p' = 0) \<and>
    (\<forall>m. k \<le> m \<and> m < n \<longrightarrow> Count (fold (meanwhile D) [k..<Suc m] p) \<noteq> 0)"
  using assms
proof (induction D k t tick p rule: drainLoop.induct)
  case (1 D k t tick p)
  let ?t1 = "select_ends D k t tick" and ?p1 = "meanwhile D k p"
  let ?stop = "drainDeadline \<le> ?t1 \<and> (?t1 < tick \<or> deadline_first D k)"
  have "0 \<le> L" using 1(3) [of 0] by simp
  then have t1: "?t1 \<le> drainDeadline + L" using 1(3) [of k] 1(4) by (auto simp: select_ends_def)
  show ?case
  proof (cases "?stop \<or> Count ?p1 = 0")
    case True
    then have "t' = ?t1" "p' = ?p1" using 1(2) by (auto simp: drainLoop.simps [of D k] Let_def split: if_splits)
    with True t1 show ?thesis by (intro exI [of _ k]) auto
  next
    case False
    then have "drainLoop D (Suc k) ?t1 (next_tick ?t1) ?p1 = (t', p')"
      using 1(2) by (auto simp: drainLoop.simps [of D k] Let_def split: if_splits)
    with 1(1) [OF refl refl] False 1(3) t1 obtain n where n: "Suc k \<le> n" "p' = fold (meanwhile D) [Suc k..<Suc n] ?p1"
        "t' \<le> drainDeadline + L" "t' < drainDeadline \<longrightarrow> Count p' = 0"
        "\<forall>m. Suc k \<le> m \<and> m < n \<longrightarrow> Count (fold (meanwhile D) [Suc k..<Suc m] ?p1) \<noteq> 0"
      by auto
    have f: "fold (meanwhile D) [k..<Suc m] p = fold (meanwhile D) [Suc k..<Suc m] ?p1" if "k \<le> m" for m
      using that by (simp add: upt_conv_Cons [of k] del: upt_Suc)
    have "Count (fold (meanwhile D) [k..<Suc m] p) \<noteq> 0" if "k \<le> m" "m < n" for m
      using that n(5) False f [of m] by (cases "m = k") auto
    with n f [of n] show ?thesis by (intro exI [of _ n]) (simp del: upt_Suc)
  qed
qed

text \<open>
  C14.  A shutdown does not hang and leaves no connection open.  Whatever the clients and the other goroutines do meanwhile, the drain loop ends, at the
  latest at its deadline of thirty seconds plus the delay with which the scheduler wakes it, and before the deadline only when no connection is left,
  as soon as it looks and finds none.  Then exactly the sockets of the connections that are left are closed, whatever Redis does, nothing is polled any more,
  and if Redis answers the sessions of these connections are gone.
\<close>

theorem shutdown_ends:
  fixes p :: "'e app"
  assumes "closing_world E closed" and "\<And>cs. set (ord2 cs) = set cs" and "\<And>k. int (late D k) \<le> L"
    and "Shutdown E httpShutdown disconnect ord1 ord2 D p = (t, q)"
  shows "\<exists>n p1. let p0 = notify_all disconnect ord1 (outside0 httpShutdown (p\<lparr>draining := True\<rparr>)) in
    p1 = fold (meanwhile D) [0..<Suc n] p0 \<and> t \<le> 30 * Second + L \<and> (t < 30 * Second \<longrightarrow> Count p1 = 0) \<and>
    (\<forall>m < n. Count (fold (meanwhile D) [0..<Suc m] p0) \<noteq> 0) \<and>
    closed (world q) = (\<lambda>(i, c). conn_Conn (heap p1 c)) ` set (byID p1) \<union> closed (world p1) \<and> epoll_conns q = [] \<and>
    (reliable_ws_world E view active sent \<longrightarrow> (\<forall>(i, c) \<in> set (byID p1). view (world q) (SessionPrefix @ conn_ID (heap p1 c)) = None))"
proof -
  let ?p0 = "notify_all disconnect ord1 (outside0 httpShutdown (p\<lparr>draining := True\<rparr>))"
  obtain p1 where d: "drainLoop D 0 0 (next_tick 0) ?p0 = (t, p1)" and q: "q = shutdown_end E ord2 p1"
    using assms(4) by (auto simp: Shutdown_def Let_def split: prod.splits)
  have "0 \<le> drainDeadline + L" using assms(3) [of 0] by (simp add: drainDeadline_def)
  from drainLoop_from [OF d assms(3) this] obtain n where n: "p1 = fold (meanwhile D) [0..<Suc n] ?p0" "t \<le> 30 * Second + L"
      "t < 30 * Second \<longrightarrow> Count p1 = 0" "\<forall>m < n. Count (fold (meanwhile D) [0..<Suc m] ?p0) \<noteq> 0"
    by (auto simp: drainDeadline_def)
  have "view (world q) (SessionPrefix @ conn_ID (heap p1 c)) = None" if "reliable_ws_world E view active sent" "(i, c) \<in> set (byID p1)" for i c
    unfolding q by (rule reliable_ws_world.shutdown_end_sessions [OF that(1) assms(2) that(2)])
  then show ?thesis
    using n closing_world.shutdown_end_closes [OF assms(1,2), of p1] unfolding q Let_def by (intro exI [of _ n] exI [of _ p1]) auto
qed

text \<open>A connection that nobody closes is closed after thirty seconds.\<close>

definition one_left :: "app_world app" where
  "one_left = (NewServer quiet)\<lparr>byID := [(''ann'', 0)], heap := (\<lambda>c. \<lparr>conn_ID = ''ann'', conn_Conn = 7, conn_Fd = 12, conn_CreatedAt = 0,
     conn_LastPing = 0, conn_processing = False\<rparr>)\<rparr>"

theorem shutdown_ends_witness:
  "\<exists>q. Shutdown (app_ref \<lparr>words = {}, phrases = []\<rparr> ascii_unicode) (\<lambda>e. (None, e)) (\<lambda>i p. p) id id
       \<lparr>late = (\<lambda>k. 0), deadline_first = (\<lambda>k. True), meanwhile = (\<lambda>k p. p)\<rparr> one_left = (30 * Second, q) \<and>
     set (net_shut (world q)) = {7} \<and> wd_keys (world q) (SessionPrefix @ ''ann'') = None"
proof -
  let ?E = "app_ref \<lparr>words = {}, phrases = []\<rparr> ascii_unicode"
    and ?D = "\<lparr>late = (\<lambda>k. 0), deadline_first = (\<lambda>k. True), meanwhile = (\<lambda>k (p :: app_world app). p)\<rparr>"
  obtain t q where s: "Shutdown ?E (\<lambda>e. (None, e)) (\<lambda>i p. p) id id ?D one_left = (t, q)" by fastforce
  have f: "fold (\<lambda>k p. p) xs = (\<lambda>p :: app_world app. p)" for xs :: "nat list" by (induction xs) auto
  have f2: "fold (\<lambda>k p. p) xs = (\<lambda>p :: app_world app. p)" for xs :: "conn list" by (induction xs) auto
  let ?p = "notify_all (\<lambda>i p. p) id (outside0 (\<lambda>e. (None :: error option, e)) (one_left\<lparr>draining := True\<rparr>))"
  have p: "byID ?p = [(''ann'', 0)]" "conn_Conn (heap ?p 0) = 7" "conn_ID (heap ?p 0) = ''ann''" "net_shut (world ?p) = []" "Count ?p = 1"
    by (simp_all add: notify_all_def f2 outside0_def outside_def one_left_def Count_def NewServer_def quiet_def)
  have "t \<le> 30 * Second \<and> \<not> t < 30 * Second \<and> set (net_shut (world q)) = {7} \<and> wd_keys (world q) (SessionPrefix @ ''ann'') = None"
    using shutdown_ends [OF aclose.closing_world_axioms _ _ s, of 0 wd_keys "\<lambda>w. map_of (nw_active w)" nw_sent]
      arefr.reliable_ws_world_axioms [of "\<lparr>words = {}, phrases = []\<rparr>" ascii_unicode]
    by (simp add: Let_def f p)
  with s show ?thesis by (intro exI [of _ q]) auto
qed

section \<open>The health check\<close>

lemma valid_seconds_text: "ValidString (seconds_text n)"
proof -
  have "list_all (\<lambda>c. byte c < 128) (show_nat k)" for k
    using show_nat_digits [of k] by (auto simp: list_all_iff is_digit_def byte_def)
  then show ?thesis unfolding seconds_text_def by (intro valid_ascii) (simp add: byte_def)
qed

lemma handleHealth_reports:
  "json_parse (handleHealth uptime p) = Some (JObj [(''status'', JStr ''ok''), (''connections'', JInt (Count p)),
     (''uptime'', JStr (seconds_text (round_seconds uptime)))])"
proof -
  let ?j = "JObj [(''status'', JStr ''ok''), (''connections'', JInt (Count p)), (''uptime'', JStr (seconds_text (round_seconds uptime)))]"
  have "wf_json 10000 ?j" by (simp add: valid_seconds_text valid_ascii byte_def)
  then show ?thesis unfolding handleHealth_def by (rule json_parse_line)
qed

end
