(* ===== verification/Disconnect.thy ===== *)
theory Disconnect
  imports Bans
begin

text \<open>
  What a lost connection sets off: the partner is told, the chat is deleted, and a user who waits is taken off the queue.
\<close>

section \<open>Reading the session\<close>

context reliable_ws_world
begin

lemma get_session_reliable:
  assumes "session_typed (view (world p)) sid"
  shows "fst (get_session E sid p) = session_at (view (world p)) sid" "view (world (snd (get_session E sid p))) = view (world p)"
proof -
  let ?c = "HGETALL (SessionPrefix @ sid)"
  obtain h where h: "session_hash (view (world p)) sid = Some h" "scannable h" using assms by (auto simp: session_typed_def)
  then have a: "answer ?c (view (world p)) = RMap h" by (auto simp: session_hash_def split: option.splits rvalue.splits)
  obtain r e1 where r: "env_redis E ?c (world p) = (r, e1)" "reply_ok ?c (view (world p)) r"
    by (rule rr.answers [of ?c "world p"]) (use a in simp_all)
  with a have "r = RMap h" by simp
  with r(1) h(2) have "\<exists>x. Session.Get (env_redis E) sid (world p) = (Inr x, e1)"
    by (auto simp: Session.Get_def scannable_def split: sum.split)
  then obtain x where x: "Session.Get (env_redis E) sid (world p) = (Inr x, e1)" by blast
  from rs.Get_session [OF assms this] x
  show "fst (get_session E sid p) = session_at (view (world p)) sid" "view (world (snd (get_session E sid p))) = view (world p)"
    by (simp_all add: get_session_def outside_def)
qed

end

context ws_world
begin

lemma sent_stores [simp]:
  "sent (world (snd (get_session E sid p))) = sent (world p)" "sent (snd (ChatStore.Delete (env_redis E) i e)) = sent e"
  "sent (snd (snd (unsubscribe E key subs e))) = sent e"
  by (auto simp: get_session_def Session.Get_def ChatStore.Delete_def unsubscribe_def world_simps case_prod_beta Let_def
      split: option.split sum.split simp del: pipe_exec.simps)

end

section \<open>What a disconnect publishes\<close>

definition cancel_msgs :: "string \<Rightarrow> Session \<Rightarrow> (string \<times> string) list" where
  "cancel_msgs sid sess = (if sess_Status sess = StatusMatching then [(SubjectMatchCancel, marshal_CancelRequest sid)] else [])"

context reliable_ws_world
begin

lemma disconnect_publishes:
  assumes "schema_ok (view (world p))" "session_typed (view (world p)) sid" "session_at (view (world p)) sid = Some sess"
    and "sess_ChatID sess = i" "i \<noteq> []" "chat_at (view (world p)) i = Some cs" "IsParticipant cs sid"
  shows "sent (world (onDisconnect E sid p)) =
      sent (world p) @ cancel_msgs sid sess @ [(SubjectChat @ ''.'' @ i, marshal_ChatEvent (left_event sid))]"
    "chat_at (view (world (onDisconnect E sid p))) i = None"
proof -
  define p1 where "p1 = snd (get_session E sid p)"
  have s: "get_session E sid p = (Some sess, p1)" using get_session_reliable(1) [OF assms(2)] assms(3) by (simp add: p1_def prod_eq_iff)
  have v1: "view (world p1) = view (world p)" "sent (world p1) = sent (world p)" using get_session_reliable(2) [OF assms(2)] by (simp_all add: p1_def)
  define p2 where "p2 = (if sess_Status sess = StatusMatching
      then with_subs (UnsubscribeMatchNotify E sid) (with_subs (UnsubscribeMatchFound E sid)
        (outside0 (PublishMatchCancel E (marshal_CancelRequest sid)) p1)) else p1)"
  have v2: "view (world p2) = view (world p)" "sent (world p2) = sent (world p) @ cancel_msgs sid sess"
    using v1 by (simp_all add: p2_def cancel_msgs_def nats_wrappers PublishMatchCancel_def sent_Publish world_simps)
  have g: "fst (get_chat E i p2) = Some cs" using get_chat_reliable [of p2 i] assms(1,6) v2(1) by simp
  let ?p3 = "snd (get_chat E i p2)"
  define p4 where "p4 = with_subs (UnsubscribeModerationResult E sid) (with_subs (UnsubscribeFromChat E sid)
        (outside0 (PublishChatMessage E i (marshal_ChatEvent (left_event sid))) ?p3))"
  have v4: "view (world p4) = view (world p)" "sent (world p4) = sent (world p) @ cancel_msgs sid sess @ [(SubjectChat @ ''.'' @ i, marshal_ChatEvent (left_event sid))]"
    using v2 get_chat_view [OF g] by (simp_all add: p4_def nats_wrappers PublishChatMessage_def sent_Publish world_simps)
  have "onDisconnect E sid p =
      (let q = outside0 (ChatStore.Delete (env_redis E) i) p4 in q\<lparr>msgBuffer := ChatBuffer.Remove (msgBuffer q) i\<rparr>)"
    unfolding onDisconnect_def s prod.case option.case Let_def p2_def [symmetric] using g assms(4,5,7) by (simp add: p4_def case_prod_beta)
  then show "sent (world (onDisconnect E sid p)) =
      sent (world p) @ cancel_msgs sid sess @ [(SubjectChat @ ''.'' @ i, marshal_ChatEvent (left_event sid))]"
    "chat_at (view (world (onDisconnect E sid p))) i = None"
    using v4 Delete_chat by (simp_all add: Let_def)
qed

end

lemma deliver_left:
  assumes "ValidString from" "from \<noteq> sid"
  shows "deliver F (HChat sid i) (marshal_ChatEvent (left_event from)) q =
    (let q1 = with_subs (UnsubscribeFromChat F sid) (send F sid TypePartnerLeft PartnerLeftMsg q)
     in outside0 (ClearChatID (env_redis F) (Unix F (world q1)) sid) q1)"
proof -
  have "unmarshal_ChatEvent (marshal_ChatEvent (left_event from)) = Inr (left_event from)"
    by (rule ChatEvent_roundtrip) (use assms in \<open>auto simp: left_event_def valid_ascii byte_def\<close>)
  then show ?thesis using assms(2) by (simp add: on_chat_event_def) (simp add: left_event_def Let_def)
qed

text \<open>
  C12.  Nobody is left talking to a lost connection.  When the services answer and a user in a chat loses the connection, the server deletes the chat and publishes, after
  the cancellation of a pending search, that the user has left; and any server that gets this from NATS for the session of the connected
  partner tells the partner so with one frame, ends the partner's subscription to the chat and clears the chat of the partner's session.
\<close>

theorem disconnect_frees_partner:
  fixes p :: "'e app" and q :: "'f app"
  assumes "reliable_ws_world E view active sent" and "schema_ok (view (world p))" and "session_typed (view (world p)) sid"
    and "session_at (view (world p)) sid = Some sess" and "sess_ChatID sess = i" and "i \<noteq> []"
    and "chat_at (view (world p)) i = Some cs" and "IsParticipant cs sid" and "ValidString sid"
    and "Connections.Get partner q = Some d" and "partner \<noteq> sid"
  shows "\<exists>data. sent (world (onDisconnect E sid p)) = sent (world p) @ cancel_msgs sid sess @ [(SubjectChat @ ''.'' @ i, data)] \<and>
    chat_at (view (world (onDisconnect E sid p))) i = None \<and>
    deliver F (HChat partner i) data q =
      (let q1 = with_subs (UnsubscribeFromChat F partner) (snd (WriteMessage F d (resp TypePartnerLeft PartnerLeftMsg) q))
       in outside0 (ClearChatID (env_redis F) (Unix F (world q1)) partner) q1)"
proof -
  have "send F partner TypePartnerLeft PartnerLeftMsg q = snd (WriteMessage F d (resp TypePartnerLeft PartnerLeftMsg) q)"
    using assms(10) by (simp add: send_def SendMessage_def)
  then show ?thesis
    using reliable_ws_world.disconnect_publishes [OF assms(1-8)] deliver_left [OF assms(9), of partner F i q] assms(11) by auto
qed

text \<open>Ann's connection is lost while she chats with Bob.\<close>

definition ann_leaves :: "app_world app" where
  "ann_leaves = ann_server\<lparr>world := ann_chats\<lparr>wd_keys := (wd_keys ann_chats)
     (SessionPrefix @ ''ann'' \<mapsto> (VHash [''id'' \<mapsto> ''ann'', ''status'' \<mapsto> StatusChatting, ''chat_id'' \<mapsto> ''c''], None))\<rparr>\<rparr>"

theorem disconnect_frees_partner_witness:
  "\<exists>data. nw_sent (world (onDisconnect (app_ref lenient ascii_unicode) ''ann'' ann_leaves)) = [(''chat.c'', data)] \<and>
    net_out (world (deliver (app_ref lenient ascii_unicode) (HChat ''bob'' ''c'') data ann_leaves)) =
      [(1, TextFrame (resp TypePartnerLeft PartnerLeftMsg))]"
proof -
  let ?R = "app_ref lenient ascii_unicode" and ?ks = "wd_keys (world ann_leaves)"
  let ?h = "[''id'' \<mapsto> ''ann'', ''status'' \<mapsto> StatusChatting, ''chat_id'' \<mapsto> ''c'']"
  let ?sess = "\<lparr>sess_ID = ''ann'', sess_Status = StatusChatting, sess_ChatID = ''c'', sess_Server = [], sess_Interests = [],
    sess_Fingerprint = [], sess_CreatedAt = 0, sess_LastActive = 0\<rparr>"
  have ks: "?ks = (wd_keys ann_chats)(SessionPrefix @ ''ann'' \<mapsto> (VHash ?h, None))" by (simp add: ann_leaves_def)
  have "schema_ok ?ks" using ann_chats_schema unfolding ks by (auto simp: schema_ok_def kind_ok_def)
  moreover have sh: "session_hash ?ks ''ann'' = Some ?h" by (simp add: session_hash_def ks)
  have sc: "scan_session ?h = Inr ?sess" by (simp add: scan_session_def scan_int64_def field_def)
  have "session_typed ?ks ''ann''" using sh sc by (auto simp: session_typed_def scannable_def)
  moreover have "session_at ?ks ''ann'' = Some ?sess" by (simp add: session_at_hash [OF sh] sc)
  moreover have "chat_at ?ks ''c'' = chat_at (wd_keys ann_chats) ''c''" by (rule chat_at_cong) (simp add: ks SessionPrefix_def ChatPrefix_def)
  moreover obtain cs where "chat_at (wd_keys ann_chats) ''c'' = Some cs" "IsParticipant cs ''ann''"
    using hi_may [of ascii_unicode] by (auto simp: may_send_def)
  moreover have "Connections.Get ''bob'' ann_leaves = Some 1" by (simp add: Connections.Get_def ann_leaves_def ann_server_def)
  ultimately obtain data where d: "nw_sent (world (onDisconnect ?R ''ann'' ann_leaves)) =
      nw_sent (world ann_leaves) @ cancel_msgs ''ann'' ?sess @ [(SubjectChat @ ''.'' @ ''c'', data)]"
    "deliver ?R (HChat ''bob'' ''c'') data ann_leaves =
      (let q1 = with_subs (UnsubscribeFromChat ?R ''bob'') (snd (WriteMessage ?R 1 (resp TypePartnerLeft PartnerLeftMsg) ann_leaves))
       in outside0 (ClearChatID (env_redis ?R) (Unix ?R (world q1)) ''bob'') q1)"
    using disconnect_frees_partner [OF arefr.reliable_ws_world_axioms, of ann_leaves "''ann''" ?sess "''c''" cs "''bob''" ann_leaves 1 lenient ascii_unicode ?R]
    by (auto simp: valid_ascii byte_def)
  have "net_out (snd (snd (unsubscribe ?R k subs w))) = net_out w" for k subs w
    by (simp add: unsubscribe_def app_ref_env env_ref_sel nats_ref_def Let_def split: option.split)
  moreover have "net_out (snd (ClearChatID (env_redis ?R) t i w)) = net_out w" for t i w
    by (simp add: ClearChatID_def app_ref_env env_ref_sel Let_def)
  ultimately have "net_out (world (deliver ?R (HChat ''bob'' ''c'') data ann_leaves)) = [(1, TextFrame (resp TypePartnerLeft PartnerLeftMsg))]"
    unfolding d(2) by (simp add: Let_def UnsubscribeFromChat_def WriteMessage_def app_ref_net ann_leaves_def ann_server_def ann_chats_def)
  moreover have "cancel_msgs ''ann'' ?sess = []" by (simp add: cancel_msgs_def StatusChatting_def StatusMatching_def)
  ultimately show ?thesis
    using d(1) by (intro exI [of _ data]) (simp add: ann_leaves_def ann_chats_def SubjectChat_def)
qed

end
