(* ===== verification/MatchPass.thy ===== *)
theory MatchPass
  imports MatchService
begin

text \<open>
  What a pass of the matcher over the queue achieves: while the clock goes on, nobody is left who has waited for half a minute, and
  no two users are left who may be paired.
\<close>

section \<open>What calls do not undo\<close>

text \<open>A predicate on the world that every Redis command keeps.\<close>

locale redis_closed =
  fixes exec :: "'r redis" and P :: "'r \<Rightarrow> bool"
  assumes redis_keeps: "P s \<Longrightarrow> P (snd (exec c s))"
begin

lemma pipe_keeps: "P s \<Longrightarrow> P (snd (pipe_exec exec cs s))"
  by (induction cs arbitrary: s) (auto simp: Let_def case_prod_beta redis_keeps split: option.split)

lemma queue_keeps:
  "P s \<Longrightarrow> P (snd (GetEntry exec sid s))" "P s \<Longrightarrow> P (snd (IsQueued exec sid s))" "P s \<Longrightarrow> P (snd (GetAllQueued exec s))"
  "P s \<Longrightarrow> P (snd (GetExactCandidates exec h s))" "P s \<Longrightarrow> P (snd (GetInterestCandidates exec t s))"
  "P s \<Longrightarrow> P (snd (CreatePending exec now i u v s))"
  by (simp_all add: GetEntry_def IsQueued_def GetAllQueued_def GetExactCandidates_def GetInterestCandidates_def CreatePending_def
      Let_def case_prod_beta redis_keeps pipe_keeps split: sum.split option.split error.split del: pipe_exec.simps)

lemma Dequeue_keeps: "P s \<Longrightarrow> P (snd (Dequeue exec sid s))"
  by (simp add: Dequeue_def Let_def case_prod_beta queue_keeps pipe_keeps split: sum.split option.split del: pipe_exec.simps)

lemma first_queued_keeps: "P s \<Longrightarrow> P (snd (first_queued exec cs s))"
  by (induction cs arbitrary: s) (simp_all add: case_prod_beta queue_keeps split: sum.split bool.split)

lemma collect_keeps:
  "P s \<Longrightarrow> P (snd (collect_overlap exec sid tags acc s))" "P s \<Longrightarrow> P (snd (collect_single exec sid tags acc' s))"
  by (induction tags arbitrary: acc acc' s) (simp_all add: case_prod_beta queue_keeps split: sum.split)

lemma tier_keeps:
  "P s \<Longrightarrow> P (snd (TryExactMatch exec sid s))" "P s \<Longrightarrow> P (snd (TryOverlapMatch exec ord sid s))"
  "P s \<Longrightarrow> P (snd (TrySingleInterestMatch exec ord sid s))" "P s \<Longrightarrow> P (snd (TryRandomMatch exec sid s))"
  by (simp_all add: TryExactMatch_def TryOverlapMatch_def TrySingleInterestMatch_def TryRandomMatch_def Let_def case_prod_beta
      queue_keeps first_queued_keeps collect_keeps split: sum.split option.split)

end

section \<open>A clock that goes on\<close>

text \<open>
  No call sets the clock back, and it shows a time within the range of the milliseconds since 1970 that a \<open>time.Duration\<close> can hold.
\<close>

locale clocked_match_world = reliable_match_world +
  assumes clock_redis: "UnixMilli E e \<le> UnixMilli E (snd (env_redis E c e))"
    and clock_publish: "UnixMilli E e \<le> UnixMilli E (snd (nats_publish E subject data e))"
    and clock_uuid: "UnixMilli E e \<le> UnixMilli E (snd (env_uuid E e))"
    and clock_range: "0 \<le> UnixMilli E e" "UnixMilli E e < 2 ^ 43"

sublocale clocked_match_world \<subseteq> late: redis_closed "env_redis E" "\<lambda>e. T \<le> UnixMilli E e" for T
  by unfold_locales (rule order_trans [OF _ clock_redis])

text \<open>Entries with a time of joining in the same range.\<close>

definition sane :: "keyspace \<Rightarrow> bool" where
  "sane ks \<longleftrightarrow> (\<forall>u a. waiting ks u = Some a \<longrightarrow> 0 \<le> JoinedAt a \<and> JoinedAt a < 2 ^ 43)"

lemma waitDuration_exact:
  assumes "0 \<le> t" "t < 2 ^ 43" "0 \<le> JoinedAt a" "JoinedAt a < 2 ^ 43"
  shows "waitDuration t a = (t - JoinedAt a) * Millisecond"
proof -
  have "- (2 ^ 63) \<le> (t - JoinedAt a) * Millisecond" "(t - JoinedAt a) * Millisecond < 2 ^ 63" using assms by simp_all
  then show ?thesis by (simp add: waitDuration_def wrap64_def)
qed

lemma eligible_later: "eligible w a b \<Longrightarrow> w \<le> w' \<Longrightarrow> eligible w' a b"
  by (auto simp: eligible_def)

text \<open>A user with whom a pass that began at the time \<open>T\<close> is done.\<close>

definition settled :: "int \<Rightarrow> keyspace \<Rightarrow> string \<Rightarrow> bool" where
  "settled T ks u \<longleftrightarrow> (\<forall>a. waiting ks u = Some a \<longrightarrow> waitDuration T a < matchTimeout \<and>
     (\<forall>c b. c \<noteq> u \<longrightarrow> waiting ks c = Some b \<longrightarrow> \<not> eligible (waitDuration T a) a b))"

lemma restrict_Some: "(m |` S) k = Some v \<Longrightarrow> m k = Some v"
  by (auto simp: restrict_map_def split: if_splits)

lemma settled_restrict: "settled T ks u \<Longrightarrow> waiting ks' = waiting ks |` S \<Longrightarrow> settled T ks' u"
  unfolding settled_def by (metis restrict_Some)

lemma sane_restrict: "sane ks \<Longrightarrow> waiting ks' = waiting ks |` S \<Longrightarrow> sane ks'"
  unfolding sane_def by (metis restrict_Some)

context clocked_match_world
begin

lemma late_try_tiers: "T \<le> UnixMilli E e \<Longrightarrow> T \<le> UnixMilli E (snd (try_tiers E ord w sid e))"
proof -
  have *: "snd (found x) = snd x" for x :: "'m option result \<times> 'a" by (cases x; cases "fst x") (auto simp: found_def)
  assume "T \<le> UnixMilli E e"
  then show ?thesis by (simp add: try_tiers_def Let_def case_prod_beta * late.tier_keeps)
qed

lemma late_publish: "T \<le> UnixMilli E e \<Longrightarrow> T \<le> UnixMilli E (snd (Publish E subject data e))"
  using clock_publish order_trans unfolding Publish_def by blast

lemma late_handlers:
  "T \<le> UnixMilli E e \<Longrightarrow> T \<le> UnixMilli E (handleMatch E m e)" "T \<le> UnixMilli E e \<Longrightarrow> T \<le> UnixMilli E (handleTimeout E sid e)"
  by (simp_all add: handleMatch_def handleTimeout_def PublishMatchFound_def Let_def case_prod_beta late.Dequeue_keeps late.queue_keeps late_publish
      order_trans [OF _ clock_uuid] split: option.split)

lemma late_process_user: "T \<le> UnixMilli E e \<Longrightarrow> T \<le> UnixMilli E (process_user E ord sid e)"
  by (simp add: process_user_def Let_def case_prod_beta late.queue_keeps late_handlers late_try_tiers split: sum.split option.split bool.split)

lemma process_user_settles:
  assumes "tidy (view e)" "sane (view e)" "0 \<le> T" "T \<le> UnixMilli E e"
  shows "settled T (view (process_user E ord sid e)) sid"
proof (cases "waiting (view e) sid")
  case None
  obtain us where "dismissed us (view e) (sent e) (view (process_user E ord sid e)) (sent (process_user E ord sid e))"
    using process_user_dismissed(1) [OF assms(1)] by blast
  with None show ?thesis by (auto simp: settled_def dismissed_def restrict_map_def)
next
  case (Some a)
  have c: "coherent (view e)" "schema_ok (view e)" using assms(1) by (simp_all add: tidy_def coherent_def)
  obtain e1 where 1: "IsQueued (env_redis E) sid e = (Inr (queued (view e) sid), e1)" "view e1 = view e"
    using rr.IsQueued_reliable [OF c(2)] by blast
  obtain e2 where 2: "GetEntry (env_redis E) sid e1 = (Inr (waiting (view e) sid), e2)" "view e2 = view e"
    using rr.GetEntry_reliable [of e1 sid] c(2) 1(2) by auto
  have q: "queued (view e) sid" using coherentD(2) [OF c(1), of sid] Some by simp
  have "T \<le> UnixMilli E e2" using late.queue_keeps(2) [OF assms(4), of sid] late.queue_keeps(1) [of T e1 sid] 1(1) 2(1) by simp
  let ?w = "waitDuration (UnixMilli E e2) a"
  have j: "0 \<le> JoinedAt a" "JoinedAt a < 2 ^ 43" using assms(2) Some by (auto simp: sane_def)
  have "T < 2 ^ 43" using \<open>T \<le> UnixMilli E e2\<close> clock_range(2) [of e2] by simp
  from waitDuration_exact [OF assms(3) this j] waitDuration_exact [OF clock_range [of e2] j] \<open>T \<le> UnixMilli E e2\<close>
  have w: "waitDuration T a \<le> ?w" by simp
  let ?e' = "process_user E ord sid e"
  have t2: "tidy (view e2)" "waiting (view e2) sid = Some a" using assms(1) 2(2) Some by simp_all
  show ?thesis
  proof (cases "matchTimeout \<le> ?w")
    case True
    then have "?e' = handleTimeout E sid e2" using 1 2 Some q by (simp add: process_user_def)
    with handleTimeout_reliable(2) [OF t2(1), of sid] show ?thesis by (simp add: settled_def)
  next
    case False
    obtain m e3 where t: "try_tiers E ord ?w sid e2 = (m, e3)" by fastforce
    note T = try_tiers_complete [OF t2 t]
    have v3: "view e3 = view e" using mw.try_tiers_sound [OF _ t] c(2) 2(2) by simp
    show ?thesis
    proof (cases m)
      case None
      with False 1 2 Some q t have "?e' = e3" by (simp add: process_user_def)
      with None T v3 2(2) False w Some show ?thesis by (auto simp: settled_def dest: eligible_later)
    next
      case (Some x)
      with False 1 2 \<open>waiting (view e) sid = Some a\<close> q t have h: "?e' = handleMatch E x e3" by (simp add: process_user_def)
      have x: "SessionA x = sid" "SessionA x \<noteq> SessionB x" using T Some by auto
      have "tidy (view e3)" using v3 assms(1) by simp
      then have "waiting (view ?e') = (waiting (view e3))(SessionA x := None, SessionB x := None)"
        unfolding h using handleMatch_reliable [OF _ x(2)] by metis
      with x show ?thesis by (simp add: settled_def)
    qed
  qed
qed

lemma fold_settles:
  "tidy (view e) \<Longrightarrow> sane (view e) \<Longrightarrow> 0 \<le> T \<Longrightarrow> T \<le> UnixMilli E e \<Longrightarrow> u \<in> set sids \<Longrightarrow>
   settled T (view (fold (process_user E ord) sids e)) u"
proof (induction sids arbitrary: e)
  case (Cons sid sids)
  let ?e1 = "process_user E ord sid e"
  obtain us where "dismissed us (view e) (sent e) (view ?e1) (sent ?e1)" using process_user_dismissed(1) [OF Cons.prems(1)] by blast
  then have s: "sane (view ?e1)" using sane_restrict [OF Cons.prems(2)] by (auto simp: dismissed_def)
  have t: "tidy (view ?e1)" by (rule process_user_dismissed(2) [OF Cons.prems(1)])
  show ?case
  proof (cases "u \<in> set sids")
    case True
    then show ?thesis using Cons.IH [OF t s Cons.prems(3) late_process_user [OF Cons.prems(4)]] by simp
  next
    case False
    then have "u = sid" using Cons.prems(5) by simp
    with process_user_settles [OF Cons.prems(1-4)] have "settled T (view ?e1) u" by simp
    moreover obtain vs where "dismissed vs (view ?e1) (sent ?e1) (view (fold (process_user E ord) sids ?e1)) (sent (fold (process_user E ord) sids ?e1))"
      using fold_dismissed [OF t] by blast
    ultimately show ?thesis using settled_restrict by (auto simp: dismissed_def)
  qed
qed simp

lemma processQueue_settles:
  assumes "tidy (view e)" "sane (view e)"
  shows "settled (UnixMilli E e) (view (processQueue E ord e)) u"
proof -
  have c: "coherent (view e)" "wf_keyspace (view e)" "schema_ok (view e)" using assms(1) by (simp_all add: tidy_def coherent_def)
  obtain e1 where 1: "GetAllQueued (env_redis E) e = (Inr (zsorted (zset_at (view e) keyMatchQueue)), e1)" "view e1 = view e"
    using rr.GetAllQueued_reliable [OF c(3)] by blast
  let ?sids = "zsorted (zset_at (view e) keyMatchQueue)"
  have "set ?sids = dom (waiting (view e))"
    unfolding set_zsorted [OF finite_zset_at [OF c(2)]] by (simp add: dom_def coherentD(7) [OF c(1)])
  moreover have p: "processQueue E ord e = fold (process_user E ord) ?sids e1" using 1(1) by (simp add: processQueue_def)
  moreover have "UnixMilli E e \<le> UnixMilli E e1" using late.queue_keeps(3) [of "UnixMilli E e" e] 1(1) by simp
  ultimately have "u \<in> dom (waiting (view e)) \<Longrightarrow> ?thesis"
    using fold_settles [of e1 "UnixMilli E e" u ?sids] assms 1(2) clock_range(1) by simp
  moreover have "?thesis" if "u \<notin> dom (waiting (view e))"
  proof -
    obtain us where "dismissed us (view e) (sent e) (view (processQueue E ord e)) (sent (processQueue E ord e))"
      using processQueue_dismissed [OF assms(1)] by blast
    with that have "waiting (view (processQueue E ord e)) u = None" by (auto simp: dismissed_def restrict_map_def)
    then show ?thesis by (simp add: settled_def)
  qed
  ultimately show ?thesis by blast
qed

lemma wait_exact:
  assumes "tidy (view e)" "sane (view e)" "waiting (view (processQueue E ord e)) u = Some a"
  shows "waitDuration (UnixMilli E e) a = (UnixMilli E e - JoinedAt a) * Millisecond"
proof -
  obtain us where "dismissed us (view e) (sent e) (view (processQueue E ord e)) (sent (processQueue E ord e))"
    using processQueue_dismissed [OF assms(1)] by blast
  with assms(3) have "waiting (view e) u = Some a" by (auto simp: dismissed_def dest: restrict_Some)
  with assms(2) show ?thesis by (intro waitDuration_exact clock_range) (auto simp: sane_def)
qed

end

text \<open>
  C8.  Nobody is left behind.  On services that answer, with a clock that goes on, a pass over a queue whose indexes agree leaves only users who joined
  less than thirty seconds before it began, and no two of them may be paired: they have different interests hashes, no common interest
  if one of them had waited for ten seconds, and neither had waited for twenty-five.
\<close>

theorem pass_leaves_nobody:
  assumes "clocked_match_world E view active sent ord" and "tidy (view e)" and "sane (view e)"
  shows "\<forall>u a. waiting (view (processQueue E ord e)) u = Some a \<longrightarrow> UnixMilli E e - JoinedAt a < 30000 \<and>
    (\<forall>v b. v \<noteq> u \<longrightarrow> waiting (view (processQueue E ord e)) v = Some b \<longrightarrow>
       \<not> eligible ((UnixMilli E e - JoinedAt a) * Millisecond) a b)"
proof (intro allI impI)
  fix u a
  let ?ks = "view (processQueue E ord e)"
  assume a: "waiting ?ks u = Some a"
  have "settled (UnixMilli E e) ?ks u" by (rule clocked_match_world.processQueue_settles [OF assms])
  with a have "waitDuration (UnixMilli E e) a < matchTimeout \<and>
      (\<forall>v b. v \<noteq> u \<longrightarrow> waiting ?ks v = Some b \<longrightarrow> \<not> eligible (waitDuration (UnixMilli E e) a) a b)"
    by (simp add: settled_def)
  then show "UnixMilli E e - JoinedAt a < 30000 \<and>
      (\<forall>v b. v \<noteq> u \<longrightarrow> waiting ?ks v = Some b \<longrightarrow> \<not> eligible ((UnixMilli E e - JoinedAt a) * Millisecond) a b)"
    unfolding clocked_match_world.wait_exact [OF assms a] by (simp add: matchTimeout_def)
qed

text \<open>The reference world with a clock of 62 bits; Ann and Bob are not both left after 26 seconds.\<close>

definition clock_ref :: "(bool ref_world, bool) env" where
  "clock_ref = env_ref\<lparr>env_now := \<lambda>w. wd_now w mod 2 ^ 62\<rparr>"

lemma clock_ref_sel:
  "nats_publish clock_ref = nats_publish env_ref" "nats_subscribe clock_ref = nats_subscribe env_ref"
  "nats_unsubscribe clock_ref = nats_unsubscribe env_ref" "nats_drain_sub clock_ref = nats_drain_sub env_ref"
  "nats_drain clock_ref = nats_drain env_ref" "env_redis clock_ref = env_redis env_ref" "env_uuid clock_ref = env_uuid env_ref"
  "env_now clock_ref w = wd_now w mod 2 ^ 62"
  by (simp_all add: clock_ref_def)

lemma clock_ref_range: "0 \<le> UnixMilli clock_ref w" "UnixMilli clock_ref w < 2 ^ 43"
proof -
  have "0 \<le> wd_now w mod 2 ^ 62" "wd_now w mod 2 ^ 62 < 2 ^ 62" by simp_all
  then show "0 \<le> UnixMilli clock_ref w" "UnixMilli clock_ref w < 2 ^ 43" unfolding UnixMilli_def clock_ref_sel by simp_all
qed

interpretation cref: clocked_match_world clock_ref wd_keys "\<lambda>w. map_of (nw_active w)" nw_sent "\<lambda>xs. xs"
proof unfold_locales
  show "0 \<le> UnixMilli clock_ref w" "UnixMilli clock_ref w < 2 ^ 43" for w by (rule clock_ref_range)+
qed (auto simp: clock_ref_sel UnixMilli_def env_ref_sel nats_ref_def Let_def delete_conv' fresh_handle step_ok_def reply_ok_answer)

theorem pass_leaves_nobody_witness:
  "let ks = wd_keys (processQueue clock_ref (\<lambda>xs. xs) waiting_room) in waiting ks ''ann'' = None \<or> waiting ks ''bob'' = None"
proof -
  let ?ks = "wd_keys (processQueue clock_ref (\<lambda>xs. xs) waiting_room)"
  let ?a = "new_entry 1 ''ann'' [''go'', ''chess'']" and ?b = "new_entry 2 ''bob'' [''go'', ''tea'']"
  have w: "waiting (wd_keys waiting_room) = [''ann'' \<mapsto> ?a, ''bob'' \<mapsto> ?b]" by (simp add: waiting_room_def two_users_ok(3))
  have "sane (wd_keys waiting_room)" by (simp add: sane_def w new_entry_def)
  note P = pass_leaves_nobody [OF cref.clocked_match_world_axioms tidy_room this]
  obtain us where "waiting ?ks = waiting (wd_keys waiting_room) |` (- set us)"
    using cref.processQueue_dismissed [OF tidy_room] by (auto simp: dismissed_def)
  then have "waiting ?ks ''ann'' = Some x \<Longrightarrow> waiting (wd_keys waiting_room) ''ann'' = Some x" for x by (metis restrict_Some)
  then have ann: "waiting ?ks ''ann'' = Some x \<Longrightarrow> x = ?a" for x by (simp add: w)
  have "UnixMilli clock_ref waiting_room = 26001" by (simp add: UnixMilli_def clock_ref_sel waiting_room_def)
  then have "eligible ((UnixMilli clock_ref waiting_room - JoinedAt ?a) * Millisecond) ?a b" for b by (simp add: eligible_def new_entry_def)
  with P [rule_format, of "''ann''"] ann show ?thesis by (cases "waiting ?ks ''ann''"; cases "waiting ?ks ''bob''") auto
qed

end
