(* ===== verification/Lifecycle.thy ===== *)
theory Lifecycle
  imports Disconnect MatchPass
begin

text \<open>
  The way from a search to a chat, across the chat servers and the matcher: the request of a user reaches the queue, a match reaches
  both users, and the second acceptance puts both into the chat.  The programs exchange JSON texts over NATS; each text is read back
  as it was written.
\<close>

section \<open>The messages between the programs\<close>

lemma decode_strs:
  obtains x where "decode_val (FStrs None) (JStrs y) = (FStrs x, True)" "map_option (\<lambda>(n, arr). take n arr) x = y"
  using decode_JStrs by blast

lemma MatchRequest_roundtrip:
  assumes "ValidString sid" "list_all ValidString tags"
  shows "unmarshal_MatchRequest (marshal_MatchRequest \<lparr>req_SessionID = sid, req_Interests = Some tags\<rparr>) =
    Inr \<lparr>req_SessionID = sid, req_Interests = Some tags\<rparr>"
proof -
  let ?j = "JObj [(''session_id'', JStr sid), (''interests'', JStrs (Some tags))]"
  have "wf_json 10000 ?j" using assms by (simp add: valid_ascii byte_def)
  moreover obtain x where "decode_val (FStrs None) (JStrs (Some tags)) = (FStrs x, True)"
      "map_option (\<lambda>(n, arr). take n arr) x = Some tags" by (rule decode_strs)
  ultimately show ?thesis
    by (simp add: unmarshal_MatchRequest_def marshal_MatchRequest_def Unmarshal_text decode_doc_def find_field_def field_simps
        del: json_text.simps)
qed

lemma CancelRequest_roundtrip:
  assumes "ValidString sid"
  shows "unmarshal_CancelRequest (marshal_CancelRequest sid) = Inr sid"
proof -
  have "wf_json 10000 (JObj [(''session_id'', JStr sid)])" using assms by (simp add: valid_ascii byte_def)
  then show ?thesis
    by (simp add: unmarshal_CancelRequest_def marshal_CancelRequest_def Unmarshal_text decode_doc_def find_field_def field_simps
        del: json_text.simps)
qed

lemma MatchNotification_roundtrip:
  assumes "ValidString ty" "ValidString i"
  shows "unmarshal_MatchNotification (marshal_MatchNotification \<lparr>not_Type = ty, not_ChatID = i\<rparr>) = Inr \<lparr>not_Type = ty, not_ChatID = i\<rparr>"
proof -
  have "wf_json 10000 (JObj [(''type'', JStr ty), (''chat_id'', JStr i)])" using assms by (simp add: valid_ascii byte_def)
  then show ?thesis
    by (simp add: unmarshal_MatchNotification_def marshal_MatchNotification_def Unmarshal_text decode_doc_def find_field_def field_simps
        del: json_text.simps)
qed

text \<open>An empty slice of common interests is omitted, and read back as nil.\<close>

definition some_interests :: "string list option \<Rightarrow> string list option" where
  "some_interests x = (if x = Some [] then None else x)"

definition result_members :: "MatchResult \<Rightarrow> (string \<times> json) list" where
  "result_members r =
     (if res_Timeout r then [(''timeout'', JBool True)] else []) @
     (if res_ChatID r \<noteq> [] then [(''chat_id'', JStr (res_ChatID r))] else []) @
     (if res_PartnerID r \<noteq> [] then [(''partner_id'', JStr (res_PartnerID r))] else []) @
     (if some_interests (res_SharedInterests r) \<noteq> None then [(''shared_interests'', JStrs (res_SharedInterests r))] else []) @
     (if res_AcceptDeadline r \<noteq> 0 then [(''accept_deadline'', JInt (res_AcceptDeadline r))] else [])"

lemma marshal_result_members: "marshal_MatchResult r = json_text (JObj (result_members r))"
  by (simp add: marshal_MatchResult_def result_members_def some_interests_def split: option.split list.split del: json_text.simps)

lemma MatchResult_roundtrip:
  assumes "ValidString (res_ChatID r)" "ValidString (res_PartnerID r)" "case res_SharedInterests r of None \<Rightarrow> True | Some ts \<Rightarrow> list_all ValidString ts"
    and "\<bar>res_AcceptDeadline r\<bar> < 2 ^ 63"
  shows "unmarshal_MatchResult (marshal_MatchResult r) = Inr (r\<lparr>res_SharedInterests := some_interests (res_SharedInterests r)\<rparr>)"
proof -
  have "ValidString ''timeout''" "ValidString ''chat_id''" "ValidString ''partner_id''" "ValidString ''shared_interests''" "ValidString ''accept_deadline''"
    by (simp_all add: valid_ascii byte_def)
  then have "wf_json 10000 (JObj (result_members r))" using assms by (auto simp: result_members_def)
  moreover obtain x where x: "decode_val (FStrs None) (JStrs (res_SharedInterests r)) = (FStrs x, True)"
      "map_option (\<lambda>(n, arr). take n arr) x = res_SharedInterests r" by (rule decode_strs)
  moreover have "some_interests (res_SharedInterests r) \<noteq> None \<Longrightarrow> some_interests (res_SharedInterests r) = res_SharedInterests r"
    by (simp add: some_interests_def split: if_splits)
  ultimately show ?thesis
    using assms(4)
    by (cases r) (simp add: unmarshal_MatchResult_def marshal_result_members Unmarshal_text decode_doc_def result_members_def
        match_result_fields_def find_field_def field_simps decode_JInt abs_less_iff del: json_text.simps, auto)
qed


section \<open>Subscriptions that succeed\<close>

text \<open>Services that answer, where subscribing succeeds too and sockets leave the subscriptions alone.\<close>

locale listening_ws_world = reliable_ws_world +
  assumes subscribe_reliable: "\<exists>sub. fst (nats_subscribe E subject h e) = Inr sub"
    and net_active: "active (snd (net_write E net fr e)) = active e"
    and unsubscribe_reliable: "fst (nats_unsubscribe E sub e) = None"

interpretation arefl: listening_ws_world "app_ref f u" wd_keys "\<lambda>w. map_of (nw_active w)" nw_sent for f u
  by unfold_locales (auto simp: app_ref_env app_ref_net env_ref_sel nats_ref_def Let_def)

text \<open>
  The handles a server holds are active, no two keys hold the same one, and \<open>hears\<close> says that the handle under a key belongs to a
  subject and a handler.
\<close>

definition sound_subs :: "('e \<Rightarrow> nat \<rightharpoonup> string \<times> ws_handler) \<Rightarrow> 'e app \<Rightarrow> bool" where
  "sound_subs active p \<longleftrightarrow> ran (app_subs p) \<subseteq> dom (active (world p)) \<and>
     (\<forall>k k' sub. app_subs p k = Some sub \<longrightarrow> app_subs p k' = Some sub \<longrightarrow> k = k')"

definition hears :: "('e \<Rightarrow> nat \<rightharpoonup> string \<times> ws_handler) \<Rightarrow> 'e app \<Rightarrow> string \<Rightarrow> string \<Rightarrow> ws_handler \<Rightarrow> bool" where
  "hears active p key subject h \<longleftrightarrow> (\<exists>sub. app_subs p key = Some sub \<and> active (world p) sub = Some (subject, h))"

lemma same_subs:
  "active (world q) = active (world p) \<Longrightarrow> app_subs q = app_subs p \<Longrightarrow> sound_subs active q = sound_subs active p"
  "active (world q) = active (world p) \<Longrightarrow> app_subs q = app_subs p \<Longrightarrow> hears active q = hears active p"
  by (simp add: sound_subs_def) (intro ext, simp add: hears_def)

context redis_frame
begin

lemma store_frame [world_simps]:
  "f (snd (UpdateStatus exec now sid st s)) = f s" "f (snd (SetInterests exec now sid t s)) = f s"
  "f (snd (SetChatID exec now sid i s)) = f s" "f (snd (ClearChatID exec now sid s)) = f s"
  "f (snd (AcceptMatch exec i sid s)) = f s" "f (snd (Allow exec sid rule s)) = f s" "f (snd (ChatStore.Get exec i s)) = f s"
  "f (snd (ChatStore.Delete exec i s)) = f s"
  by (auto simp: UpdateStatus_def SetInterests_def SetChatID_def ClearChatID_def AcceptMatch_def Allow_def ChatStore.Get_def
      ChatStore.Delete_def redis_snd case_prod_beta Let_def split: sum.split option.split simp del: pipe_exec.simps)

end

context ws_world
begin

lemma active_get_chat [simp]: "active (world (snd (get_chat E i p))) = active (world p)"
  by (simp add: get_chat_def world_simps case_prod_beta split: sum.split)

lemma sent_subs [simp]:
  "sent (snd (snd (Subscribe E subject h subs e))) = sent e" "sent (snd (snd (SubscribeToChat E i sid h subs e))) = sent e"
  by (simp_all add: Subscribe_def SubscribeToChat_def world_simps case_prod_beta Let_def split: sum.split)

end

context listening_ws_world
begin

lemma active_respond [simp]: "active (world (respond E c ty m p)) = active (world p)" "active (world (send E sid ty m p)) = active (world p)"
  by (simp_all add: respond_def send_def SendMessage_def WriteMessage_def net_active Let_def case_prod_beta split: option.split)

lemma added_sub:
  assumes "sound_subs active p" "nats_subscribe E subject h (world p) = (Inr sub, e1)"
    and "app_subs q = (app_subs p)(key \<mapsto> sub)" "world q = e1"
  shows "sound_subs active q" "hears active q key subject h" "k \<noteq> key \<Longrightarrow> hears active p k s g \<Longrightarrow> hears active q k s g"
proof -
  note a = ns.subscribe_ok [OF assms(2)]
  have f: "sub \<notin> ran (app_subs p)" using a assms(1) by (auto simp: sound_subs_def)
  have "ran ((app_subs p)(key \<mapsto> sub)) \<subseteq> insert sub (ran (app_subs p))" by (auto simp: ran_def)
  with assms(1,3,4) a f show "sound_subs active q" by (auto simp: sound_subs_def ran_def)
  show "hears active q key subject h" using assms(3,4) a by (simp add: hears_def)
  show "k \<noteq> key \<Longrightarrow> hears active p k s g \<Longrightarrow> hears active q k s g" using assms(3,4) a by (auto simp: hears_def)
qed

lemma Subscribe_sub:
  obtains sub e1 where "nats_subscribe E subject h (world p) = (Inr sub, e1)"
    "app_subs (with_subs (Subscribe E subject h) p) = (app_subs p)(subject \<mapsto> sub)" "world (with_subs (Subscribe E subject h) p) = e1"
    using subscribe_reliable [of subject h "world p"] by (cases "nats_subscribe E subject h (world p)") (auto simp: with_subs_def Subscribe_def)

lemma SubscribeToChat_sub:
  obtains sub e1 where "nats_subscribe E (SubjectChat @ ''.'' @ i) h (world p) = (Inr sub, e1)"
    "app_subs (with_subs (SubscribeToChat E i sid h) p) = (app_subs p)(''chatsub:'' @ sid \<mapsto> sub)"
    "world (with_subs (SubscribeToChat E i sid h) p) = e1"
    using subscribe_reliable [of "SubjectChat @ ''.'' @ i" h "world p"]
    by (cases "nats_subscribe E (SubjectChat @ ''.'' @ i) h (world p)") (auto simp: with_subs_def SubscribeToChat_def Let_def)

lemma Subscribe_hears [simp]:
  assumes "sound_subs active p"
  shows "sound_subs active (with_subs (Subscribe E subject h) p)" "hears active (with_subs (Subscribe E subject h) p) subject subject h"
    "k \<noteq> subject \<Longrightarrow> hears active p k s g \<Longrightarrow> hears active (with_subs (Subscribe E subject h) p) k s g"
  by (rule Subscribe_sub [of subject h p], rule added_sub [OF assms]; assumption)+

lemma SubscribeToChat_hears [simp]:
  assumes "sound_subs active p"
  shows "sound_subs active (with_subs (SubscribeToChat E i sid h) p)"
    "hears active (with_subs (SubscribeToChat E i sid h) p) (''chatsub:'' @ sid) (SubjectChat @ ''.'' @ i) h"
    "k \<noteq> ''chatsub:'' @ sid \<Longrightarrow> hears active p k s g \<Longrightarrow> hears active (with_subs (SubscribeToChat E i sid h) p) k s g"
  by (rule SubscribeToChat_sub [of i h p sid], rule added_sub [OF assms]; assumption)+

lemma unsubscribe_hears [simp]:
  assumes "sound_subs active p"
  shows "sound_subs active (with_subs (unsubscribe E key) p)"
    "k \<noteq> key \<Longrightarrow> hears active p k s g \<Longrightarrow> hears active (with_subs (unsubscribe E key) p) k s g"
proof -
  let ?q = "with_subs (unsubscribe E key) p"
  have "sound_subs active ?q \<and> (k \<noteq> key \<longrightarrow> hears active p k s g \<longrightarrow> hears active ?q k s g)"
  proof (cases "app_subs p key")
    case None
    then have "?q = p" by (simp add: with_subs_def unsubscribe_def)
    with assms show ?thesis by simp
  next
    case (Some sub)
    obtain e1 where u: "nats_unsubscribe E sub (world p) = (None, e1)" using unsubscribe_reliable by (metis prod.collapse)
    have q: "app_subs ?q = (app_subs p)(key := None)" "active (world ?q) = (active (world p))(sub := None)"
      using ns.unsubscribe_ok [OF u] u Some by (simp_all add: with_subs_def unsubscribe_def Let_def)
    have other: "x \<noteq> sub" if "app_subs p k' = Some x" "k' \<noteq> key" for k' x
      using that Some assms unfolding sound_subs_def by blast
    then have "ran ((app_subs p)(key := None)) \<subseteq> dom ((active (world p))(sub := None))"
      using assms by (auto simp: sound_subs_def ran_def subset_iff split: if_splits)
    moreover have "\<forall>k k' x. ((app_subs p)(key := None)) k = Some x \<longrightarrow> ((app_subs p)(key := None)) k' = Some x \<longrightarrow> k = k'"
      using assms unfolding sound_subs_def by (metis fun_upd_apply option.distinct(1))
    ultimately have "sound_subs active ?q" unfolding sound_subs_def q by (rule conjI)
    moreover have "k \<noteq> key \<longrightarrow> hears active p k s g \<longrightarrow> hears active ?q k s g"
      unfolding hears_def q using other by (metis fun_upd_apply)
    ultimately show ?thesis by (rule conjI)
  qed
  then show "sound_subs active ?q" "k \<noteq> key \<Longrightarrow> hears active p k s g \<Longrightarrow> hears active ?q k s g" by blast+
qed

end

section \<open>A search reaches the queue\<close>

context reliable_ws_world
begin

lemma find_match_publishes:
  assumes "fst (fst (Allow (env_redis E) (conn_ID (heap p c)) RuleMatch (world p)))"
  shows "sent (world (on_find_match E c interests p)) = sent (world p) @
    [(SubjectMatchRequest, marshal_MatchRequest \<lparr>req_SessionID = conn_ID (heap p c),
       req_Interests = Some (CheckInterests (app_unicode E) (contentFilter E) (case interests of None \<Rightarrow> [] | Some ts \<Rightarrow> ts))\<rparr>)]"
  using assms
  by (simp add: on_find_match_def Let_def case_prod_beta set_status_def PublishMatchRequest_def sent_Publish nats_wrappers world_simps)

end

context listening_ws_world
begin

lemma calls_hear [simp]:
  "(\<And>e. active (snd (f e)) = active e) \<Longrightarrow> sound_subs active (outside0 f p) = sound_subs active p"
  "(\<And>e. active (snd (f e)) = active e) \<Longrightarrow> hears active (outside0 f p) = hears active p"
  "(\<And>e. active (snd (f e)) = active e) \<Longrightarrow> sound_subs active (snd (outside f p)) = sound_subs active p"
  "(\<And>e. active (snd (f e)) = active e) \<Longrightarrow> hears active (snd (outside f p)) = hears active p"
  by (auto intro!: same_subs)

lemma app_subs_writes [simp]: "app_subs (respond E c ty m p) = app_subs p" "app_subs (send E sid ty m p) = app_subs p"
  "app_subs (snd (get_chat E i p)) = app_subs p"
  by (simp_all add: respond_def send_def SendMessage_def WriteMessage_def get_chat_def Let_def case_prod_beta split: option.split sum.split)

lemma writes_hear [simp]:
  "sound_subs active (respond E c ty m p) = sound_subs active p" "hears active (respond E c ty m p) = hears active p"
  "sound_subs active (send E sid ty m p) = sound_subs active p" "hears active (send E sid ty m p) = hears active p"
  "sound_subs active (snd (get_chat E i p)) = sound_subs active p" "hears active (snd (get_chat E i p)) = hears active p"
  by (auto intro!: same_subs)

lemma find_match_hears:
  assumes "fst (fst (Allow (env_redis E) (conn_ID (heap p c)) RuleMatch (world p)))" "sound_subs active p"
  shows "hears active (on_find_match E c interests p) (SubjectMatchFound @ ''.'' @ conn_ID (heap p c))
    (SubjectMatchFound @ ''.'' @ conn_ID (heap p c)) (HMatchFound (conn_ID (heap p c)))"
  using assms
  by (simp add: on_find_match_def Let_def case_prod_beta nats_wrappers set_status_def PublishMatchRequest_def world_simps)

end

context reliable_redis
begin

lemma Enqueue_reliable:
  assumes "schema_ok (view s)"
  shows "fst (Enqueue exec now sid tags s) = None"
  using pipe_answered [OF fits_cmds(1) assms] unfolding Enqueue_def by (metis fst_conv)

end

context reliable_world
begin

lemma handleMatchRequest_enqueues:
  assumes "coherent (view e)" "waiting (view e) sid = None" "interests_ok tags" "ValidString sid" "list_all ValidString tags"
  shows "let e' = handleMatchRequest E (marshal_MatchRequest \<lparr>req_SessionID = sid, req_Interests = Some tags\<rparr>) e in
    coherent (view e') \<and> waiting (view e') = (waiting (view e))(sid \<mapsto> new_entry (UnixMilli E e) sid tags) \<and> sent e' = sent e"
proof -
  obtain e1 where 1: "Enqueue (env_redis E) (UnixMilli E e) sid tags e = (None, e1)"
    using rr.Enqueue_reliable assms(1) unfolding coherent_def by (metis prod.collapse)
  have "sent e1 = sent e" using sf.queue_frame(1) [OF 1] .
  moreover have "coherent (view e1)" "waiting (view e1) = (waiting (view e))(sid \<mapsto> new_entry (UnixMilli E e) sid tags)"
    using enqueue_coherent [OF assms(1-3)] rs.pipe_ok 1 unfolding Enqueue_def by metis+
  moreover have "handleMatchRequest E (marshal_MatchRequest \<lparr>req_SessionID = sid, req_Interests = Some tags\<rparr>) e = snd (QueueSize (env_redis E) e1)"
    using MatchRequest_roundtrip [OF assms(4,5)] 1 by (simp add: handleMatchRequest_def)
  ultimately show ?thesis by (simp add: Let_def world_simps)
qed

end


text \<open>A cancelled search leaves the queue; a lost connection publishes the same request.\<close>

context reliable_ws_world
begin

lemma cancel_publishes:
  "sent (world (on_cancel_match E c p)) = sent (world p) @ [(SubjectMatchCancel, marshal_CancelRequest (conn_ID (heap p c)))]"
  by (simp add: on_cancel_match_def Let_def set_status_def PublishMatchCancel_def sent_Publish nats_wrappers world_simps)

end

context reliable_world
begin

lemma handleCancelRequest_dequeues:
  assumes "tidy (view e)" "ValidString sid"
  shows "tidy (view (handleCancelRequest E (marshal_CancelRequest sid) e))"
    "waiting (view (handleCancelRequest E (marshal_CancelRequest sid) e)) = (waiting (view e))(sid := None)"
  by (rule rr.Dequeue_tidy [OF assms(1), of sid], simp add: handleCancelRequest_def CancelRequest_roundtrip [OF assms(2)])+

end

section \<open>A match is announced\<close>

lemma deliver_found:
  assumes "r = \<lparr>res_Timeout = False, res_ChatID = i, res_PartnerID = partner, res_SharedInterests = Some shared, res_AcceptDeadline = 15\<rparr>"
    and "ValidString i" "ValidString partner" "list_all ValidString shared" "Connections.Get sid q = Some d"
  shows "deliver F (HMatchFound sid) (marshal_MatchResult r) q =
    with_subs (UnsubscribeMatchFound F sid) (with_subs (SubscribeMatchNotify F sid (HMatchNotify sid)) (with_subs (UnsubscribeMatchNotify F sid)
      (snd (WriteMessage F d (resp TypeMatchFound (MatchFoundMsg i (some_interests (Some shared)) 15)) q))))"
proof -
  have "unmarshal_MatchResult (marshal_MatchResult r) = Inr (r\<lparr>res_SharedInterests := some_interests (res_SharedInterests r)\<rparr>)"
    by (rule MatchResult_roundtrip) (simp_all add: assms(1-4))
  then show ?thesis by (simp add: on_match_found_def assms(1,5) send_def SendMessage_def)
qed

lemma deliver_timeout:
  assumes "Connections.Get sid q = Some d"
  shows "deliver F (HMatchFound sid) (marshal_MatchResult timeout_result) q =
    with_subs (UnsubscribeMatchFound F sid) (set_status F sid StatusIdle (snd (WriteMessage F d (resp TypeMatchTimeout MatchTimeoutMsg) q)))"
proof -
  have "unmarshal_MatchResult (marshal_MatchResult timeout_result) =
      Inr (timeout_result\<lparr>res_SharedInterests := some_interests (res_SharedInterests timeout_result)\<rparr>)"
    by (rule MatchResult_roundtrip) (simp_all add: timeout_result_def valid_ascii)
  then show ?thesis using assms by (simp add: on_match_found_def timeout_result_def send_def SendMessage_def)
qed

section \<open>A chat begins\<close>

text \<open>A server that treats a user as being in a chat: the session says so and the server listens to the chat for the user.\<close>

definition in_chat :: "('e \<Rightarrow> keyspace) \<Rightarrow> ('e \<Rightarrow> nat \<rightharpoonup> string \<times> ws_handler) \<Rightarrow> 'e app \<Rightarrow> string \<Rightarrow> string \<Rightarrow> bool" where
  "in_chat view active p sid i \<longleftrightarrow>
     (\<exists>s. session_at (view (world p)) sid = Some s \<and> sess_ChatID s = i \<and> sess_Status s = StatusChatting) \<and>
     hears active p (''chatsub:'' @ sid) (SubjectChat @ ''.'' @ i) (HChat sid i)"

text \<open>What both handlers do when a chat begins, up to the message to the client.\<close>

definition join_chat :: "'e appenv \<Rightarrow> string \<Rightarrow> string \<Rightarrow> 'e app \<Rightarrow> 'e app" where
  "join_chat E sid i p =
     (let p1 = subscribeToChatNATS E sid i p;
          p2 = outside0 (SetChatID (env_redis E) (Unix E (world p1)) sid i) p1
      in with_subs (SubscribeModerationResult E sid (HModeration sid)) p2)"

lemma join_chat_registry: "Connections.Get partner (join_chat E sid i p) = Connections.Get partner p"
  by (simp add: join_chat_def Let_def subscribeToChatNATS_def Connections.Get_def outside0_def outside_def case_prod_beta)

lemma deliver_accepted:
  assumes "ValidString i"
  shows "deliver F (HMatchNotify sid) (notify ''accepted'' i) q =
    with_subs (UnsubscribeMatchNotify F sid) (send F sid TypeMatchAccepted (MatchAcceptedMsg i) (join_chat F sid i q))"
  using MatchNotification_roundtrip [of "''accepted''" i] assms
  by (simp add: on_match_notify_def notify_def join_chat_def Let_def valid_ascii byte_def)

lemma accept_second:
  assumes "AcceptMatch (env_redis E) i (conn_ID (heap p c)) (world p) = (Inr 1, e1)"
  shows "on_accept_match E c i p =
    (let sid = conn_ID (heap p c);
         (cs, p6) = get_chat E i (send E sid TypeMatchAccepted (MatchAcceptedMsg i) (join_chat E sid i (p\<lparr>world := e1\<rparr>)))
     in with_subs (UnsubscribeMatchNotify E sid)
          (case cs of None \<Rightarrow> p6 | Some cs \<Rightarrow> outside0 (PublishMatchNotify E (GetPartner cs sid) (notify ''accepted'' i)) p6))"
  using assms by (simp add: on_accept_match_def outside_def join_chat_def Let_def)

lemma fits_op_cmds: "list_all (\<lambda>c. fits c \<and> \<not> reads c \<and> (\<forall>k. c \<noteq> INCR k)) (op_cmds srv now sid op)"
  by (cases op) (simp_all add: fits_def)

context reliable_ws_world
begin

lemma SetChatID_session:
  assumes "schema_ok (view e)" "session_typed (view e) sid" "session_at (view e) sid = Some s" "int64 now" "sid \<noteq> []"
  shows "\<exists>s'. session_at (view (snd (SetChatID (env_redis E) now sid i e))) sid = Some s' \<and> sess_ChatID s' = i \<and> sess_Status s' = StatusChatting"
    "k \<noteq> SessionPrefix @ sid \<Longrightarrow> view (snd (SetChatID (env_redis E) now sid i e)) k = view e k"
proof -
  obtain e1 where 1: "session_exec (env_redis E) [] now sid (OpSetChatID i) e = (None, e1)"
    using rr.pipe_answered [OF fits_op_cmds assms(1)] unfolding session_exec_cmds by blast
  from spec_step [OF assms(4,2,5) rs.pipe_ok [OF 1 [unfolded session_exec_cmds]]] assms(3)
  have "session_at (view e1) sid = session_spec [] now sid (OpSetChatID i) (Some s)" by simp
  moreover have "k \<noteq> SessionPrefix @ sid \<Longrightarrow> view e1 k = view e k"
    using rs.pipe_frame [OF 1 [unfolded session_exec_cmds]] op_cmds_key by blast
  ultimately show "\<exists>s'. session_at (view (snd (SetChatID (env_redis E) now sid i e))) sid = Some s' \<and> sess_ChatID s' = i \<and> sess_Status s' = StatusChatting"
    "k \<noteq> SessionPrefix @ sid \<Longrightarrow> view (snd (SetChatID (env_redis E) now sid i e)) k = view e k"
    using 1 by auto
qed

end


lemma session_cong:
  assumes "ks' (SessionPrefix @ sid) = ks (SessionPrefix @ sid)"
  shows "session_typed ks' sid = session_typed ks sid" "session_at ks' sid = session_at ks sid"
  using assms by (simp_all add: session_typed_def session_at_def session_hash_def)

context listening_ws_world
begin

lemma join_in_chat:
  assumes "schema_ok (view (world p))" "session_typed (view (world p)) sid" "session_at (view (world p)) sid = Some s" "sid \<noteq> []"
    and "\<And>e. int64 (Unix E e)" "sound_subs active p"
  shows "in_chat view active (join_chat E sid i p) sid i" "sound_subs active (join_chat E sid i p)"
    "sent (world (join_chat E sid i p)) = sent (world p)"
    "k \<noteq> SessionPrefix @ sid \<Longrightarrow> view (world (join_chat E sid i p)) k = view (world p) k"
proof -
  define p1 where "p1 = subscribeToChatNATS E sid i p"
  define p2 where "p2 = outside0 (SetChatID (env_redis E) (Unix E (world p1)) sid i) p1"
  have j: "join_chat E sid i p = with_subs (Subscribe E (SubjectModerationResult @ ''.'' @ sid) (HModeration sid)) p2"
    by (simp add: join_chat_def Let_def p1_def p2_def SubscribeModerationResult_def)
  have v1: "view (world p1) = view (world p)" "sent (world p1) = sent (world p)" by (simp_all add: p1_def subscribeToChatNATS_def)
  have s1: "sound_subs active p1" "hears active p1 (''chatsub:'' @ sid) (SubjectChat @ ''.'' @ i) (HChat sid i)"
    unfolding p1_def subscribeToChatNATS_def by (rule SubscribeToChat_hears [OF assms(6)])+
  then have s2: "sound_subs active p2" "hears active p2 (''chatsub:'' @ sid) (SubjectChat @ ''.'' @ i) (HChat sid i)"
    by (simp_all add: p2_def world_simps)
  have "''chatsub:'' @ sid \<noteq> SubjectModerationResult @ ''.'' @ sid" by (simp add: SubjectModerationResult_def)
  from Subscribe_hears(3) [OF s2(1) this s2(2)] Subscribe_hears(1) [OF s2(1)]
  have h: "hears active (join_chat E sid i p) (''chatsub:'' @ sid) (SubjectChat @ ''.'' @ i) (HChat sid i)" "sound_subs active (join_chat E sid i p)"
    by (simp_all add: j)
  have S: "\<exists>s'. session_at (view (world p2)) sid = Some s' \<and> sess_ChatID s' = i \<and> sess_Status s' = StatusChatting"
    "k \<noteq> SessionPrefix @ sid \<Longrightarrow> view (world p2) k = view (world p) k"
    using SetChatID_session [of "world p1" sid s "Unix E (world p1)"] assms(1-5) v1(1) by (simp_all add: p2_def)
  then show "in_chat view active (join_chat E sid i p) sid i" using h(1) by (simp add: in_chat_def j)
  show "sound_subs active (join_chat E sid i p)" by (rule h(2))
  show "sent (world (join_chat E sid i p)) = sent (world p)" using v1(2) by (simp add: j p2_def world_simps)
  show "k \<noteq> SessionPrefix @ sid \<Longrightarrow> view (world (join_chat E sid i p)) k = view (world p) k" using S(2) by (simp add: j)
qed

lemma join_schema: "schema_ok (view (world p)) \<Longrightarrow> schema_ok (view (world (join_chat E sid i p)))"
  using rs.session_safe(3) by (simp add: join_chat_def Let_def subscribeToChatNATS_def SubscribeModerationResult_def safe_op_def)

lemma in_chat_after:
  assumes "in_chat view active p sid i" "sound_subs active p" "key \<noteq> ''chatsub:'' @ sid"
  shows "in_chat view active (with_subs (unsubscribe E key) p) sid i"
  using assms unsubscribe_hears(2) [OF assms(2), of "''chatsub:'' @ sid" key] by (auto simp: in_chat_def)

lemma in_chat_cong:
  "view (world q) = view (world p) \<Longrightarrow> hears active q = hears active p \<Longrightarrow> in_chat view active q sid i = in_chat view active p sid i"
  by (simp add: in_chat_def)

lemma send_view: "view (world (send E sid ty m p)) = view (world p)"
  by (simp add: send_def SendMessage_def WriteMessage_def net_view Let_def case_prod_beta split: option.split)

lemma accepted_in_chat:
  assumes "schema_ok (view (world q))" "session_typed (view (world q)) sid" "session_at (view (world q)) sid = Some s" "sid \<noteq> []"
    and "\<And>e. int64 (Unix E e)" "sound_subs active q"
  shows "in_chat view active (with_subs (UnsubscribeMatchNotify E sid) (send E sid TypeMatchAccepted (MatchAcceptedMsg i) (join_chat E sid i q))) sid i"
proof -
  note J = join_in_chat [OF assms, of i]
  have "in_chat view active (send E sid TypeMatchAccepted (MatchAcceptedMsg i) (join_chat E sid i q)) sid i"
    using J(1) in_chat_cong [OF send_view] by simp
  from in_chat_after [OF this] J(2) show ?thesis by (simp add: UnsubscribeMatchNotify_def SubjectMatchNotify_def)
qed

lemma second_acceptance:
  fixes p c
  defines "sid \<equiv> conn_ID (heap p c)"
  assumes "schema_ok (view (world p))" "session_typed (view (world p)) sid" "session_at (view (world p)) sid = Some s" "sid \<noteq> []"
    and "\<And>e. int64 (Unix E e)" "sound_subs active p"
    and "chat_wf (view (world p)) i" "accept_spec (chat_at (view (world p)) i) sid = (1, Some cs)"
  shows "in_chat view active (on_accept_match E c i p) sid i" "chat_at (view (world (on_accept_match E c i p))) i = Some cs"
    "sent (world (on_accept_match E c i p)) = sent (world p) @ [(SubjectMatchNotify @ ''.'' @ GetPartner cs sid, notify ''accepted'' i)]"
proof -
  obtain x e1 where A: "AcceptMatch (env_redis E) i sid (world p) = (x, e1)" by fastforce
  then obtain n where n: "x = Inr n" using rr.AcceptMatch_reliable [OF assms(8)] by blast
  note script = script_chat [OF assms(8) rs.AcceptMatch_Inr [OF A [unfolded n]]]
  with assms(9) have n1: "n = 1" and cs: "chat_at (view e1) i = Some cs" by auto
  have fr: "view e1 (SessionPrefix @ sid) = view (world p) (SessionPrefix @ sid)"
    using script by (simp add: SessionPrefix_def ChatPrefix_def)
  define p1 where "p1 = p\<lparr>world := e1\<rparr>"
  define p5 where "p5 = send E sid TypeMatchAccepted (MatchAcceptedMsg i) (join_chat E sid i p1)"
  define p6 where "p6 = snd (get_chat E i p5)"
  have v1: "schema_ok (view (world p1))" "session_typed (view (world p1)) sid" "session_at (view (world p1)) sid = Some s" "sound_subs active p1"
    using assms(2-4) rs.chat_safe(3) [of i sid] A session_cong [of "view e1" sid "view (world p)", OF fr] same_subs(1) [of active p1 p] assms(7) af.store_frame(5) [of i sid "world p"]
    by (auto simp: p1_def safe_op_def)
  note J = join_in_chat [OF v1(1-3) assms(5,6) v1(4), where i = i]
  have v5: "schema_ok (view (world p5))" "chat_at (view (world p5)) i = Some cs" "in_chat view active p5 sid i" "sound_subs active p5"
    "sent (world p5) = sent (world p)"
    using J(1-3) J(4) [of "ChatPrefix @ i"] join_schema [OF v1(1), of sid i] chat_at_cong [of "view (world p5)" i "view e1"] cs in_chat_cong [OF send_view]
      af.store_frame(5) sf.store_frame(5) [of i sid "world p"] A
    by (simp_all add: p5_def send_view p1_def SessionPrefix_def ChatPrefix_def)
  have g: "get_chat E i p5 = (Some cs, p6)" using get_chat_reliable [OF v5(1), of i] v5(2) p6_def by (metis prod.collapse)
  have v6: "view (world p6) = view (world p5)" using get_chat_view [of i p5 cs] g by simp
  define p7 where "p7 = outside0 (PublishMatchNotify E (GetPartner cs sid) (notify ''accepted'' i)) p6"
  have o: "on_accept_match E c i p = with_subs (unsubscribe E (SubjectMatchNotify @ ''.'' @ sid)) p7"
    using accept_second [of E i p c e1] A n n1 g by (simp add: sid_def [symmetric] p1_def [symmetric] p5_def [symmetric] p7_def UnsubscribeMatchNotify_def)
  have v7: "view (world p7) = view (world p5)" "sound_subs active p7" "hears active p7 = hears active p5"
      "sent (world p7) = sent (world p) @ [(SubjectMatchNotify @ ''.'' @ GetPartner cs sid, notify ''accepted'' i)]"
    using v6 v5(4,5) by (simp_all add: p7_def p6_def PublishMatchNotify_def world_simps sent_Publish)
  show "in_chat view active (on_accept_match E c i p) sid i"
    unfolding o by (rule in_chat_after) (use v7 v5(3) in_chat_cong [OF v7(1,3)] in \<open>simp_all add: SubjectMatchNotify_def\<close>)
  show "chat_at (view (world (on_accept_match E c i p))) i = Some cs" using v7(1) v5(2) by (simp add: o)
  show "sent (world (on_accept_match E c i p)) = sent (world p) @ [(SubjectMatchNotify @ ''.'' @ GetPartner cs sid, notify ''accepted'' i)]"
    using v7(4) by (simp add: o)
qed

end


context listening_ws_world
begin

lemma found_hears:
  assumes "sound_subs active q"
  shows "hears active (with_subs (UnsubscribeMatchFound E sid) (with_subs (SubscribeMatchNotify E sid h) (with_subs (UnsubscribeMatchNotify E sid)
      (snd (WriteMessage E d data q))))) (SubjectMatchNotify @ ''.'' @ sid) (SubjectMatchNotify @ ''.'' @ sid) h"
proof -
  have "sound_subs active (snd (WriteMessage E d data q))"
    using assms by (subst same_subs(1) [of _ _ q]) (simp_all add: WriteMessage_def net_active)
  moreover have "SubjectMatchNotify @ ''.'' @ sid \<noteq> SubjectMatchFound @ ''.'' @ sid" by (simp add: SubjectMatchNotify_def SubjectMatchFound_def)
  ultimately show ?thesis
    unfolding nats_wrappers by (intro unsubscribe_hears Subscribe_hears)
qed

end

section \<open>Properties\<close>

text \<open>
  C6.  A search reaches the queue.  When the services answer, the limiter lets the request pass, the user is not waiting yet and every interest is
  valid UTF-8, not empty and without a comma, the server that gets \<open>find_match\<close> publishes one request and listens for the result, and the
  matcher that gets the request adds the user to the queue, with exactly the interests that passed the filter and the time at which it got the request.
  The queue keeps the interests as one text with commas between them, so a comma would split an interest; a second search of a user who waits is
  the subject of \<open>Weaknesses.second_search_leaves_index\<close>.
\<close>

theorem search_reaches_queue:
  fixes p :: "'e app" and g :: 'm
  assumes "listening_ws_world E view active sent" and "reliable_world M mview mactive msent"
    and "fst (fst (Allow (env_redis E) (conn_ID (heap p c)) RuleMatch (world p)))" and "sound_subs active p"
    and "coherent (mview g)" and "waiting (mview g) (conn_ID (heap p c)) = None" and "ValidString (conn_ID (heap p c))"
    and "\<forall>t \<in> set tags. ValidString t \<and> t \<noteq> [] \<and> CHR '','' \<notin> set t"
  shows "\<exists>data. sent (world (on_find_match E c (Some tags) p)) = sent (world p) @ [(SubjectMatchRequest, data)] \<and>
    hears active (on_find_match E c (Some tags) p) (SubjectMatchFound @ ''.'' @ conn_ID (heap p c))
      (SubjectMatchFound @ ''.'' @ conn_ID (heap p c)) (HMatchFound (conn_ID (heap p c))) \<and>
    coherent (mview (handleMatchRequest M data g)) \<and>
    waiting (mview (handleMatchRequest M data g)) = (waiting (mview g))(conn_ID (heap p c) \<mapsto>
      new_entry (UnixMilli M g) (conn_ID (heap p c)) (CheckInterests (app_unicode E) (contentFilter E) tags))"
proof -
  let ?clean = "CheckInterests (app_unicode E) (contentFilter E) tags"
  have r: "reliable_ws_world E view active sent" using assms(1) by (rule listening_ws_world.axioms(1))
  have "set ?clean \<subseteq> set tags" by (auto simp: CheckInterests_def)
  then have "interests_ok ?clean" "list_all ValidString ?clean" using assms(8) by (auto simp: interests_ok_def list_all_iff)
  from reliable_world.handleMatchRequest_enqueues [OF assms(2,5,6) this(1) assms(7) this(2)]
    reliable_ws_world.find_match_publishes [OF r assms(3), of "Some tags"] listening_ws_world.find_match_hears [OF assms(1,3,4), of "Some tags"]
  show ?thesis by (auto simp: Let_def)
qed

text \<open>Ann, who is connected, searches with one interest; nobody waits.\<close>

definition empty_room :: "bool ref_world" where
  "empty_room = \<lparr>nw_active = [], nw_sent = [], wd_keys = Map.empty, wd_now = 5 * Millisecond, wd_next = 7\<rparr>"

lemma hi_clean: "CheckInterests u lenient [''hi''] = [''hi'']"
  using hi_may [of u] by (simp add: CheckInterests_def may_send_def app_ref_net)

lemma ann_allowed: "fst (fst (Allow (env_redis (app_ref f u)) ''ann'' RuleMatch ann_chats))"
  by (simp add: Allow_def app_ref_env env_ref_sel RuleMatch_def ann_chats_def ChatPrefix_def Let_def)

lemma ann_subs: "sound_subs active ann_server"
  by (simp add: sound_subs_def ann_server_def)

theorem search_reaches_queue_witness:
  "\<exists>data. nw_sent (world (on_find_match (app_ref lenient ascii_unicode) 0 (Some [''hi'']) ann_server)) = [(''match.request'', data)] \<and>
    waiting (wd_keys (handleMatchRequest env_ref data empty_room)) = [''ann'' \<mapsto> new_entry 5 ''ann'' [''hi'']]"
proof -
  let ?E = "app_ref lenient ascii_unicode"
  have w: "waiting (wd_keys empty_room) = Map.empty" using coherent_empty(2) by (simp add: empty_room_def fun_eq_iff)
  have sid: "conn_ID (heap ann_server 0) = ''ann''" "world ann_server = ann_chats" "nw_sent ann_chats = []"
    by (simp_all add: ann_server_def ann_chats_def)
  have "\<exists>data. nw_sent (world (on_find_match ?E 0 (Some [''hi'']) ann_server)) = nw_sent (world ann_server) @ [(SubjectMatchRequest, data)] \<and>
    hears (\<lambda>w. map_of (nw_active w)) (on_find_match ?E 0 (Some [''hi'']) ann_server) (SubjectMatchFound @ ''.'' @ conn_ID (heap ann_server 0))
      (SubjectMatchFound @ ''.'' @ conn_ID (heap ann_server 0)) (HMatchFound (conn_ID (heap ann_server 0))) \<and>
    coherent (wd_keys (handleMatchRequest env_ref data empty_room)) \<and>
    waiting (wd_keys (handleMatchRequest env_ref data empty_room)) = (waiting (wd_keys empty_room))(conn_ID (heap ann_server 0) \<mapsto>
      new_entry (UnixMilli env_ref empty_room) (conn_ID (heap ann_server 0)) (CheckInterests (app_unicode ?E) (contentFilter ?E) [''hi'']))"
    by (rule search_reaches_queue [OF arefl.listening_ws_world_axioms wref.reliable_world_axioms])
       (simp_all add: sid w ann_allowed ann_subs coherent_empty empty_room_def valid_ascii byte_def)
  moreover have "UnixMilli env_ref empty_room = 5" by (simp add: UnixMilli_def env_ref_sel empty_room_def)
  ultimately show ?thesis by (auto simp: sid w app_ref_net hi_clean SubjectMatchRequest_def)
qed

text \<open>
  C5.  A match is announced to both users.  When the services answer, the matcher publishes the result of a match once for each of the
  two users, and any server that gets it for the session of a connected user writes one frame to the user's connection, with the
  identifier of the chat, the common interests and fifteen seconds to accept, and listens for the decision of the other user.
\<close>

theorem match_announced:
  fixes g :: 'm and q :: "'f app"
  assumes "reliable_match_world M mview mactive msent ord" and "tidy (mview g)" and "SessionA m \<noteq> SessionB m"
    and "ValidString (fst (env_uuid M g))" and "ValidString (SessionA m)" and "ValidString (SessionB m)" and "list_all ValidString (SharedInterests m)"
    and "listening_ws_world F view active sent" and "sound_subs active q" and "Connections.Get sid q = Some d" and "sid \<in> {SessionA m, SessionB m}"
  shows "\<exists>data. msent (handleMatch M m g) = msent g @ map (\<lambda>u. (SubjectMatchFound @ ''.'' @ u, data u)) [SessionA m, SessionB m] \<and>
    deliver F (HMatchFound sid) (data sid) q =
      with_subs (UnsubscribeMatchFound F sid) (with_subs (SubscribeMatchNotify F sid (HMatchNotify sid)) (with_subs (UnsubscribeMatchNotify F sid)
        (snd (WriteMessage F d (resp TypeMatchFound
          (MatchFoundMsg (fst (env_uuid M g)) (some_interests (Some (SharedInterests m))) 15)) q)))) \<and>
    hears active (deliver F (HMatchFound sid) (data sid) q) (SubjectMatchNotify @ ''.'' @ sid) (SubjectMatchNotify @ ''.'' @ sid) (HMatchNotify sid)"
proof -
  let ?i = "fst (env_uuid M g)"
  let ?r = "\<lambda>u. \<lparr>res_Timeout = False, res_ChatID = ?i, res_PartnerID = if u = SessionA m then SessionB m else SessionA m,
    res_SharedInterests = Some (SharedInterests m), res_AcceptDeadline = 15\<rparr>"
  have "msent (handleMatch M m g) = msent g @ match_msgs ?i m"
    by (rule reliable_match_world.handleMatch_reliable [OF assms(1-3)]) simp
  also have "match_msgs ?i m = map (\<lambda>u. (SubjectMatchFound @ ''.'' @ u, marshal_MatchResult (?r u))) [SessionA m, SessionB m]"
    using assms(3) by (simp add: match_msgs_def)
  finally have s: "msent (handleMatch M m g) = msent g @ map (\<lambda>u. (SubjectMatchFound @ ''.'' @ u, marshal_MatchResult (?r u))) [SessionA m, SessionB m]" .
  have "ValidString (if sid = SessionA m then SessionB m else SessionA m)" using assms(5,6) by simp
  note d = deliver_found [OF refl assms(4) this assms(7,10), of F]
  show ?thesis
    by (intro exI [of _ "\<lambda>u. marshal_MatchResult (?r u)"] conjI s d)
       (unfold d, rule listening_ws_world.found_hears [OF assms(8,9)])
qed

text \<open>The matcher pairs Ann and Bob, and Bob's server gets the result.\<close>

theorem match_announced_witness:
  "\<exists>data. map fst (nw_sent (handleMatch env_ref \<lparr>SessionA = ''ann'', SessionB = ''bob'', SharedInterests = [''go'']\<rparr> waiting_room)) =
      [''match.found.ann'', ''match.found.bob''] \<and>
    nw_sent (handleMatch env_ref \<lparr>SessionA = ''ann'', SessionB = ''bob'', SharedInterests = [''go'']\<rparr> waiting_room) ! 1 = (''match.found.bob'', data) \<and>
    net_out (world (deliver (app_ref lenient ascii_unicode) (HMatchFound ''bob'') data ann_server)) =
      [(1, TextFrame (resp TypeMatchFound (MatchFoundMsg ''7'' (Some [''go'']) 15)))]"
proof -
  let ?F = "app_ref lenient ascii_unicode" and ?m = "\<lparr>SessionA = ''ann'', SessionB = ''bob'', SharedInterests = [''go'']\<rparr>"
  have u: "fst (env_uuid env_ref waiting_room) = ''7''" by (simp add: env_ref_sel waiting_room_def show_nat.simps digit_char_def, code_simp)
  obtain data where d: "nw_sent (handleMatch env_ref ?m waiting_room) =
      nw_sent waiting_room @ map (\<lambda>u. (SubjectMatchFound @ ''.'' @ u, data u)) [SessionA ?m, SessionB ?m]"
    "deliver ?F (HMatchFound ''bob'') (data ''bob'') ann_server =
      with_subs (UnsubscribeMatchFound ?F ''bob'') (with_subs (SubscribeMatchNotify ?F ''bob'' (HMatchNotify ''bob'')) (with_subs (UnsubscribeMatchNotify ?F ''bob'')
        (snd (WriteMessage ?F 1 (resp TypeMatchFound (MatchFoundMsg (fst (env_uuid env_ref waiting_room)) (some_interests (Some (SharedInterests ?m))) 15)) ann_server))))"
    using match_announced [OF wrefm.reliable_match_world_axioms tidy_room _ _ _ _ _ arefl.listening_ws_world_axioms ann_subs, of ?m "''bob''" 1 lenient ascii_unicode] u
    by (auto simp: valid_ascii byte_def Connections.Get_def ann_server_def)
  have n: "net_out (snd (snd (unsubscribe ?F k subs w))) = net_out w" "net_out (snd (snd (Subscribe ?F k h subs w))) = net_out w" for k h subs w
    by (simp_all add: unsubscribe_def Subscribe_def app_ref_env env_ref_sel nats_ref_def Let_def split: option.split)
  have "net_out (world (deliver ?F (HMatchFound ''bob'') (data ''bob'') ann_server)) = [(1, TextFrame (resp TypeMatchFound (MatchFoundMsg ''7'' (Some [''go'']) 15)))]"
    unfolding d(2) u by (simp add: aref.nats_wrappers n WriteMessage_def app_ref_net some_interests_def) (simp add: ann_server_def ann_chats_def)
  with d(1) show ?thesis by (intro exI [of _ "data ''bob''"]) (simp add: SubjectMatchFound_def waiting_room_def)
qed

text \<open>
  C4.  Two acceptances start a chat.  When the services answer and the second of the two users accepts, the chat becomes active, the server
  of this user puts the user into the chat and publishes one notification, for the other user, and any server that gets it for the session
  of the connected other user does exactly this: it puts that user into the chat too, then writes one frame to the user's connection, which says
  so, and stops listening for notifications.  A server that puts a user into a chat (\<open>join_chat\<close>, which writes no frame) notes the chat in the session
  and listens to it.
\<close>

theorem acceptances_start_chat:
  fixes p :: "'e app" and q :: "'f app"
  assumes "listening_ws_world E view active sent" and "listening_ws_world F fview factive fsent"
    and "schema_ok (view (world p))" and "session_typed (view (world p)) (conn_ID (heap p c))"
    and "session_at (view (world p)) (conn_ID (heap p c)) = Some s" and "conn_ID (heap p c) \<noteq> []"
    and "\<And>e. int64 (Unix E e)" and "sound_subs active p"
    and "chat_wf (view (world p)) i" and "accept_spec (chat_at (view (world p)) i) (conn_ID (heap p c)) = (1, Some cs)" and "ValidString i"
    and "schema_ok (fview (world q))" and "session_typed (fview (world q)) (GetPartner cs (conn_ID (heap p c)))"
    and "session_at (fview (world q)) (GetPartner cs (conn_ID (heap p c))) = Some t" and "GetPartner cs (conn_ID (heap p c)) \<noteq> []"
    and "\<And>e. int64 (Unix F e)" and "sound_subs factive q" and "Connections.Get (GetPartner cs (conn_ID (heap p c))) q = Some d"
  shows "\<exists>data. let sid = conn_ID (heap p c); partner = GetPartner cs sid; p' = on_accept_match E c i p; q' = deliver F (HMatchNotify partner) data q in
    sent (world p') = sent (world p) @ [(SubjectMatchNotify @ ''.'' @ partner, data)] \<and>
    chat_at (view (world p')) i = Some cs \<and> Status cs = StatusActive \<and>
    in_chat view active p' sid i \<and> in_chat fview factive q' partner i \<and>
    q' = with_subs (UnsubscribeMatchNotify F partner) (snd (WriteMessage F d (resp TypeMatchAccepted (MatchAcceptedMsg i)) (join_chat F partner i q)))"
proof -
  let ?sid = "conn_ID (heap p c)"
  let ?partner = "GetPartner cs ?sid"
  note A = listening_ws_world.second_acceptance [OF assms(1,3-10)]
  have d: "deliver F (HMatchNotify ?partner) (notify ''accepted'' i) q =
      with_subs (UnsubscribeMatchNotify F ?partner) (send F ?partner TypeMatchAccepted (MatchAcceptedMsg i) (join_chat F ?partner i q))"
    by (rule deliver_accepted [OF assms(11)])
  have w: "send F ?partner TypeMatchAccepted (MatchAcceptedMsg i) (join_chat F ?partner i q) =
      snd (WriteMessage F d (resp TypeMatchAccepted (MatchAcceptedMsg i)) (join_chat F ?partner i q))"
    using assms(18) by (simp add: send_def SendMessage_def join_chat_registry)
  have st: "Status cs = StatusActive" using assms(10) by (auto simp: accept_spec_def Let_def split: option.splits if_splits)
  show ?thesis
    unfolding Let_def using A st d w listening_ws_world.accepted_in_chat [OF assms(2,12-17), of i]
    by (intro exI [of _ "notify ''accepted'' i"]) simp
qed

text \<open>Ann has accepted; Bob does, on the same server.\<close>

definition bob_decides :: "app_world app" where
  "bob_decides = ann_server\<lparr>world := ann_chats\<lparr>wd_keys :=
     [ChatPrefix @ ''c'' \<mapsto> (VHash [''user_a'' \<mapsto> ''ann'', ''user_b'' \<mapsto> ''bob'', ''status'' \<mapsto> StatusPendingAccept, ''accepted_a'' \<mapsto> ''true''], None),
      SessionPrefix @ ''ann'' \<mapsto> (VHash [''id'' \<mapsto> ''ann'', ''status'' \<mapsto> StatusMatching], None),
      SessionPrefix @ ''bob'' \<mapsto> (VHash [''id'' \<mapsto> ''bob'', ''status'' \<mapsto> StatusMatching], None)]\<rparr>\<rparr>"

lemma bob_decides_sel:
  "conn_ID (heap bob_decides 1) = ''bob''" "nw_sent (world bob_decides) = []" "Connections.Get ''ann'' bob_decides = Some 0"
  "sound_subs active bob_decides" "schema_ok (wd_keys (world bob_decides))" "chat_wf (wd_keys (world bob_decides)) ''c''"
  by (auto simp: bob_decides_def ann_server_def ann_chats_def Connections.Get_def sound_subs_def schema_ok_def kind_ok_def chat_wf_def
      ChatPrefix_def SessionPrefix_def app_kind_def)

lemma bob_decides_session:
  assumes "sid \<in> {''ann'', ''bob''}"
  shows "session_typed (wd_keys (world bob_decides)) sid \<and> (\<exists>s. session_at (wd_keys (world bob_decides)) sid = Some s)"
proof -
  let ?h = "[''id'' \<mapsto> sid, ''status'' \<mapsto> StatusMatching]"
  have h: "session_hash (wd_keys (world bob_decides)) sid = Some ?h"
    using assms by (auto simp: session_hash_def bob_decides_def ChatPrefix_def SessionPrefix_def)
  have "scan_session ?h = Inr \<lparr>sess_ID = sid, sess_Status = StatusMatching, sess_ChatID = [], sess_Server = [], sess_Interests = [],
    sess_Fingerprint = [], sess_CreatedAt = 0, sess_LastActive = 0\<rparr>"
    by (simp add: scan_session_def scan_int64_def field_def)
  with h assms show ?thesis by (auto simp: session_typed_def scannable_def session_at_hash [OF h])
qed

theorem acceptances_start_chat_witness:
  "\<exists>data. nw_sent (world (on_accept_match (app_ref lenient ascii_unicode) 1 ''c'' bob_decides)) = [(''match.notify.ann'', data)] \<and>
    map_option Status (chat_at (wd_keys (world (on_accept_match (app_ref lenient ascii_unicode) 1 ''c'' bob_decides))) ''c'') = Some StatusActive \<and>
    in_chat wd_keys (\<lambda>w. map_of (nw_active w)) (deliver (app_ref lenient ascii_unicode) (HMatchNotify ''ann'') data bob_decides) ''ann'' ''c''"
proof -
  let ?E = "app_ref lenient ascii_unicode" and ?h = "[''user_a'' \<mapsto> ''ann'', ''user_b'' \<mapsto> ''bob'', ''status'' \<mapsto> StatusPendingAccept, ''accepted_a'' \<mapsto> ''true'']"
  define cs where "cs = chat_of_hash ''c'' ?h\<lparr>AcceptedB := True, Status := StatusActive\<rparr>"
  have u: "int64 (Unix ?E e)" for e
  proof -
    have "0 \<le> wd_now e mod 2 ^ 63" "wd_now e mod 2 ^ 63 < 2 ^ 63" by simp_all
    then have "\<bar>Unix ?E e\<bar> < 2 ^ 63" unfolding Unix_def app_ref_env by simp
    then show ?thesis by (simp add: int64_def abs_less_iff)
  qed
  have "chat_at (wd_keys (world bob_decides)) ''c'' = Some (chat_of_hash ''c'' ?h)"
    by (simp add: chat_at_def bob_decides_def SessionPrefix_def ChatPrefix_def)
  then have a: "accept_spec (chat_at (wd_keys (world bob_decides)) ''c'') ''bob'' = (1, Some cs)"
    by (simp add: accept_spec_def chat_of_hash_def IsParticipant_def accepted_def field_def cs_def)
  have g: "GetPartner cs ''bob'' = ''ann''" by (simp add: GetPartner_def chat_of_hash_def field_def cs_def)
  obtain s t where s: "session_at (wd_keys (world bob_decides)) ''bob'' = Some s" "session_at (wd_keys (world bob_decides)) ''ann'' = Some t"
    "session_typed (wd_keys (world bob_decides)) ''bob''" "session_typed (wd_keys (world bob_decides)) ''ann''"
    using bob_decides_session [of "''bob''"] bob_decides_session [of "''ann''"] by auto
  note L = arefl.listening_ws_world_axioms [of lenient ascii_unicode]
  note T = acceptances_start_chat [OF L L, of bob_decides 1 s "''c''" cs bob_decides t 0, unfolded Let_def bob_decides_sel g append_Nil]
  have ne: "''ann'' \<noteq> []" "''bob'' \<noteq> []" "ValidString ''c''" by (simp_all add: valid_ascii byte_def)
  obtain data where "nw_sent (world (on_accept_match ?E 1 ''c'' bob_decides)) = [(SubjectMatchNotify @ ''.'' @ ''ann'', data)]"
    "chat_at (wd_keys (world (on_accept_match ?E 1 ''c'' bob_decides))) ''c'' = Some cs" "Status cs = StatusActive"
    "in_chat wd_keys (\<lambda>w. map_of (nw_active w)) (deliver ?E (HMatchNotify ''ann'') data bob_decides) ''ann'' ''c''"
    using T [OF bob_decides_sel(5) s(3,1) ne(2) u bob_decides_sel(4,6) a ne(3) bob_decides_sel(5) s(4,2) ne(1) u bob_decides_sel(4) refl] by blast
  then show ?thesis by (intro exI [of _ data]) (simp add: SubjectMatchNotify_def)
qed

text \<open>
  A search that is cancelled leaves the queue: when the services answer, the server that gets \<open>cancel_match\<close> publishes one request, and the
  matcher that gets it removes exactly this user from the queue.
\<close>

lemma cancel_leaves_queue:
  fixes p :: "'e app" and g :: 'm
  assumes "reliable_ws_world E view active sent" and "reliable_world M mview mactive msent"
    and "tidy (mview g)" and "ValidString (conn_ID (heap p c))"
  shows "\<exists>data. sent (world (on_cancel_match E c p)) = sent (world p) @ [(SubjectMatchCancel, data)] \<and>
    waiting (mview (handleCancelRequest M data g)) = (waiting (mview g))(conn_ID (heap p c) := None)"
  using reliable_ws_world.cancel_publishes [OF assms(1)] reliable_world.handleCancelRequest_dequeues(2) [OF assms(2-4)] by blast

end
