(* ===== verification/Handshake.thy ===== *)
theory Handshake
  imports Application MatchService
begin

text \<open>
  The handshake of a proposed chat against the clock.  \<open>CreatePending\<close> of \<open>internal/chat/store.go\<close> notes a deadline fifteen seconds ahead and the key expires after a
  minute; the users accept with the script of \<open>AcceptMatch\<close>; the clean-up of \<open>internal/matching/cleanup.go\<close> deletes a chat that is still pending at its
  deadline.  The theory lets these run against each other in any order and shows what becomes of the chat.
\<close>

section \<open>Time\<close>




section \<open>Runs\<close>



section \<open>The layout of the keys\<close>








section \<open>A chat in time\<close>



lemma both_simps [simp]:
  "both a b (insert (Elapse d) H) = both a b H" "both a b H \<Longrightarrow> both a b (insert x H)"
  by (auto simp: both_def)






section \<open>A chat that is late\<close>






section \<open>Properties\<close>






end
