(* ===== verification/LoadTest.thy ===== *)
theory LoadTest
  imports Protocol
begin

text \<open>
  The load test's own logic: the simulated client (\<open>loadtest/client/client.go\<close>) and the statistics
  (\<open>loadtest/stats/stats.go\<close>).  The handlers registered with \<open>On\<close>, writing to the socket and the clock are parameters; a read of the
  read loop is given by its result.  An index out of range is \<open>None\<close>.
\<close>

section \<open>The client\<close>

record Metrics =
  ConnectLatency :: Duration
  FirstMsgLatency :: Duration
  MessagesReceived :: int
  MessagesSent :: int
  met_Errors :: int

record 'e Client =
  cl_sessionID :: string
  cl_metrics :: Metrics
  cl_done :: bool
  cl_closed :: bool
  cl_firstMsg :: "int option"
  cl_world :: 'e

type_synonym 'e client_handlers = "string \<Rightarrow> (string \<Rightarrow> 'e Client \<Rightarrow> 'e Client) option"

type_synonym 'e client_write = "string \<Rightarrow> 'e \<Rightarrow> error option \<times> 'e"

definition NewClient :: "Duration \<Rightarrow> 'e \<Rightarrow> 'e Client" where
  "NewClient latency e =
     \<lparr>cl_sessionID = [], cl_metrics = \<lparr>ConnectLatency = latency, FirstMsgLatency = 0, MessagesReceived = 0, MessagesSent = 0, met_Errors = 0\<rparr>,
      cl_done = False, cl_closed = False, cl_firstMsg = None, cl_world = e\<rparr>"

text \<open>\<open>New\<close> with the result of dialling and the time it took.\<close>

definition New :: "(error + 'e) \<Rightarrow> Duration \<Rightarrow> error + 'e Client" where
  "New dialled latency = (case dialled of Inl err \<Rightarrow> Inl (ErrWrap ''dial'' err) | Inr e \<Rightarrow> Inr (NewClient latency e))"

definition SessionID :: "'e Client \<Rightarrow> string" where
  "SessionID c = cl_sessionID c"

definition GetMetrics :: "'e Client \<Rightarrow> Metrics" where
  "GetMetrics c = cl_metrics c"

text \<open>\<open>Send\<close> of a value whose JSON document is given.\<close>

definition Send :: "'e client_write \<Rightarrow> json \<Rightarrow> 'e Client \<Rightarrow> error option \<times> 'e Client" where
  "Send wr msg c =
     (let c1 = c\<lparr>cl_metrics := (cl_metrics c)\<lparr>MessagesSent := MessagesSent (cl_metrics c) + 1\<rparr>\<rparr>;
          (err, e) = wr (json_text msg) (cl_world c1)
      in (err, c1\<lparr>cl_world := e\<rparr>))"

definition On :: "string \<Rightarrow> (string \<Rightarrow> 'e Client \<Rightarrow> 'e Client) \<Rightarrow> 'e client_handlers \<Rightarrow> 'e client_handlers" where
  "On msgType handler handlers = handlers(msgType \<mapsto> handler)"

definition CloseClient :: "('e \<Rightarrow> error option \<times> 'e) \<Rightarrow> 'e Client \<Rightarrow> error option \<times> 'e Client" where
  "CloseClient close_conn c =
     (if cl_closed c then (None, c)
      else (let (err, e) = close_conn (cl_world c) in (err, c\<lparr>cl_closed := True, cl_done := True, cl_world := e\<rparr>)))"

text \<open>A map with string values, whose keys \<open>encoding/json\<close> sorts.\<close>

definition string_map :: "(string \<times> string) list \<Rightarrow> json" where
  "string_map m = JObj (sort_key fst (map (\<lambda>(k, v). (k, JStr v)) m))"

definition handshake :: "'e client_write \<Rightarrow> string \<Rightarrow> 'e Client \<Rightarrow> 'e Client option" where
  "handshake wr data c =
     (case Unmarshal [(''type'', FStr []), (''session_id'', FStr [])] data of
        Inl err \<Rightarrow> Some c
      | Inr msg \<Rightarrow>
          if str_field msg ''session_id'' = [] then Some c
          else
            (let c1 = c\<lparr>cl_sessionID := str_field msg ''session_id''\<rparr>
             in if length (cl_sessionID c1) < 8 then None
                else Some (snd (Send wr (string_map [(''type'', TypeSetFingerprint),
                       (''fingerprint'', ''loadtest-'' @ take 8 (cl_sessionID c1))]) c1))))"

text \<open>The part of the loop after a message has been read, at the times \<open>now\<close> and \<open>later\<close>.\<close>

definition handle_frame ::
    "'e client_write \<Rightarrow> 'e client_handlers \<Rightarrow> int \<Rightarrow> int \<Rightarrow> string \<Rightarrow> 'e Client \<Rightarrow> 'e Client option" where
  "handle_frame wr handlers now later data c =
     (let c1 = (case cl_firstMsg c of
            None \<Rightarrow> c\<lparr>cl_firstMsg := Some now,
              cl_metrics := (cl_metrics c)\<lparr>FirstMsgLatency := ConnectLatency (cl_metrics c) + (later - now)\<rparr>\<rparr>
          | Some _ \<Rightarrow> c);
          c2 = c1\<lparr>cl_metrics := (cl_metrics c1)\<lparr>MessagesReceived := MessagesReceived (cl_metrics c1) + 1\<rparr>\<rparr>
      in case Unmarshal [(''type'', FStr [])] data of
           Inl err \<Rightarrow> Some c2
         | Inr envelope \<Rightarrow>
             (let ty = str_field envelope ''type''
              in case (if ty = TypeSessionCreated then handshake wr data c2 else Some c2) of
                   None \<Rightarrow> None
                 | Some c3 \<Rightarrow> Some (case handlers ty of None \<Rightarrow> c3 | Some handler \<Rightarrow> handler data c3)))"

text \<open>
  The loop over the results of its reads, each with whether \<open>Close\<close> was called while it waited for the message and the two times.
\<close>

fun readLoop ::
    "'e client_write \<Rightarrow> 'e client_handlers \<Rightarrow> (string result \<times> bool \<times> int \<times> int) list \<Rightarrow> 'e Client \<Rightarrow> 'e Client option" where
  "readLoop wr handlers [] c = Some c"
| "readLoop wr handlers ((r, closing, now, later) # rs) c =
     (if cl_done c then Some c
      else
        (let c0 = c\<lparr>cl_done := closing\<rparr>
         in case r of
              Inl err \<Rightarrow>
                Some (if cl_done c0 then c0 else c0\<lparr>cl_metrics := (cl_metrics c0)\<lparr>met_Errors := met_Errors (cl_metrics c0) + 1\<rparr>\<rparr>)
            | Inr data \<Rightarrow>
                (case handle_frame wr handlers now later data c0 of
                   None \<Rightarrow> None
                 | Some c1 \<Rightarrow> readLoop wr handlers rs c1)))"

text \<open>
  \<open>WaitForSession\<close> over the outcomes of its \<open>select\<close>: the context ends, the client is closed, or a tick finds the session ID as it is then.
  \<open>None\<close> is still waiting.
\<close>

datatype wait_event = CtxDone error | ClientClosed | Tick string

fun WaitForSession :: "wait_event list \<Rightarrow> error option option" where
  "WaitForSession [] = None"
| "WaitForSession (CtxDone err # es) = Some (Some err)"
| "WaitForSession (ClientClosed # es) = Some (Some (ErrText ''connection closed before session was created''))"
| "WaitForSession (Tick sid # es) = (if sid \<noteq> [] then Some None else WaitForSession es)"

section \<open>Statistics\<close>

record Collector =
  connectLatencies :: "Duration list"
  msgLatencies :: "Duration list"
  col_errors :: int
  col_connections :: int

definition NewCollector :: Collector where
  "NewCollector = \<lparr>connectLatencies = [], msgLatencies = [], col_errors = 0, col_connections = 0\<rparr>"

definition AddConnect :: "Duration \<Rightarrow> Collector \<Rightarrow> Collector" where
  "AddConnect d c = c\<lparr>connectLatencies := connectLatencies c @ [d], col_connections := col_connections c + 1\<rparr>"

definition AddMsgLatency :: "Duration \<Rightarrow> Collector \<Rightarrow> Collector" where
  "AddMsgLatency d c = c\<lparr>msgLatencies := msgLatencies c @ [d]\<rparr>"

definition AddError :: "Collector \<Rightarrow> Collector" where
  "AddError c = c\<lparr>col_errors := col_errors c + 1\<rparr>"

definition ConnectionCount :: "Collector \<Rightarrow> int" where
  "ConnectionCount c = col_connections c"

definition ErrorCount :: "Collector \<Rightarrow> int" where
  "ErrorCount c = col_errors c"

text \<open>
  \<open>int(math.Ceil(float64(n)*x))\<close> for a constant \<open>x\<close> whose nearest \<open>float64\<close> is \<open>m / 2 ^ 52\<close>: the product is rounded to 53
  significant bits.
\<close>

definition ceil_mul :: "nat \<Rightarrow> nat \<Rightarrow> nat" where
  "ceil_mul m n = (float_nat (n * m) + (2 ^ 52 - 1)) div 2 ^ 52"

definition index :: "'a list \<Rightarrow> int \<Rightarrow> 'a option" where
  "index xs i = (if 0 \<le> i \<and> i < int (length xs) then Some (xs ! nat i) else None)"

text \<open>The numbers \<open>printPercentiles\<close> prints, before rounding to microseconds: average, the percentiles and the maximum.\<close>

definition printPercentiles :: "Duration list \<Rightarrow> (Duration \<times> Duration \<times> Duration \<times> Duration \<times> Duration) option" where
  "printPercentiles durations =
     (let ds = sort durations; n = length ds; total = foldl (\<lambda>s d. wrap64 (s + d)) 0 ds
      in case (index ds (int (n div 2)), index ds (int (ceil_mul 4278419646001971 n) - 1), index ds (int (ceil_mul 4458563631096791 n) - 1)) of
           (Some p50, Some p95, Some p99) \<Rightarrow>
             (if n = 0 then None
              else (case index ds (int n - 1) of
                      None \<Rightarrow> None
                    | Some longest \<Rightarrow> Some (if total < 0 then - ((- total) div int n) else total div int n, p50, p95, p99, longest)))
         | _ \<Rightarrow> None)"

text \<open>
  The numbers of the report: connections, errors and the percentiles of both kinds of latency, if there are any.  An index out of range would
  be a panic, \<open>None\<close>.  The error rate, a quotient of the first two, and the durations are only printed.
\<close>

definition percentiles_of :: "Duration list \<Rightarrow> (Duration \<times> Duration \<times> Duration \<times> Duration \<times> Duration) option option" where
  "percentiles_of ds = (if ds = [] then Some None else map_option Some (printPercentiles ds))"

definition Report :: "Collector \<Rightarrow> (int \<times> int \<times> (Duration \<times> Duration \<times> Duration \<times> Duration \<times> Duration) option \<times>
    (Duration \<times> Duration \<times> Duration \<times> Duration \<times> Duration) option) option" where
  "Report c =
     (case (percentiles_of (connectLatencies c), percentiles_of (msgLatencies c)) of
        (Some p, Some q) \<Rightarrow> Some (col_connections c, col_errors c, p, q)
      | _ \<Rightarrow> None)"

section \<open>The percentiles are well defined\<close>

lemma bit_len_le: "n < 2 ^ j \<Longrightarrow> bit_len n \<le> j"
proof (induction j arbitrary: n)
  case 0
  then show ?case by (simp add: bit_len.simps)
next
  case (Suc j)
  then show ?case by (subst bit_len.simps) (simp add: less_mult_imp_div_less mult.commute)
qed

lemma float_nat_le:
  assumes "a \<le> b * 2 ^ j" "bit_len a \<le> 53 + j"
  shows "float_nat a \<le> b * 2 ^ j"
proof (cases "a < 2 ^ 53")
  case True
  with assms(1) show ?thesis by (simp add: float_nat_def)
next
  case False
  define k where "k = bit_len a - 53"
  have k: "k \<le> j" using assms(2) by (simp add: k_def)
  define b' where "b' = b * 2 ^ (j - k)"
  have b': "b * 2 ^ j = b' * 2 ^ k" using k by (simp add: b'_def flip: power_add)
  have q: "a div 2 ^ k + (if a mod 2 ^ k = 0 then 0 else 1) \<le> b'"
  proof (cases "a mod 2 ^ k = 0")
    case True
    with assms(1) b' show ?thesis by (simp add: div_le_mono2 less_eq_div_iff_mult_less_eq[symmetric]) (metis div_le_mono nonzero_mult_div_cancel_right power_eq_0_iff zero_neq_numeral)
  next
    case False
    have "a div 2 ^ k < b'"
    proof (rule ccontr)
      assume "\<not> a div 2 ^ k < b'"
      then have "b' * 2 ^ k \<le> a div 2 ^ k * 2 ^ k" by (intro mult_right_mono) auto
      moreover have "a div 2 ^ k * 2 ^ k + a mod 2 ^ k = a" by (rule div_mult_mod_eq)
      ultimately show False using assms(1) b' False by linarith
    qed
    with False show ?thesis by simp
  qed
  have "float_nat a \<le> (a div 2 ^ k + (if a mod 2 ^ k = 0 then 0 else 1)) * 2 ^ k"
    using False by (auto simp: float_nat_def Let_def k_def [symmetric])
  also have "\<dots> \<le> b' * 2 ^ k" using q by (intro mult_right_mono) auto
  finally show ?thesis using b' by simp
qed

lemma float_nat_pos: "0 < a \<Longrightarrow> 0 < float_nat a"
proof (cases "a < 2 ^ 53")
  case False
  have len: "n < 2 ^ bit_len n \<and> (0 < n \<longrightarrow> 2 ^ (bit_len n - 1) \<le> n)" for n
  proof (induction n rule: bit_len.induct)
    case (1 n)
    show ?case
    proof (cases "n < 2")
      case True
      then have "n = 0 \<or> n = 1" by auto
      then show ?thesis by (auto simp: bit_len.simps [of 0] bit_len.simps [of "Suc 0"])
    next
      case False
      then have b: "bit_len n = Suc (bit_len (n div 2))" "0 < bit_len (n div 2)" by (simp_all add: bit_len.simps [of n] bit_len.simps [of "n div 2"])
      have "n div 2 < 2 ^ bit_len (n div 2)" "2 ^ (bit_len (n div 2) - 1) \<le> n div 2" using 1 False by auto
      moreover have "(2 :: nat) ^ bit_len (n div 2) = 2 * 2 ^ (bit_len (n div 2) - 1)" using b(2) by (cases "bit_len (n div 2)") auto
      moreover have "n = 2 * (n div 2) + n mod 2" "n mod 2 < 2" by simp_all
      ultimately have "n < 2 * 2 ^ bit_len (n div 2) \<and> 2 ^ bit_len (n div 2) \<le> n" by linarith
      then show ?thesis unfolding b(1) by simp
    qed
  qed
  assume "0 < a"
  then have "2 ^ (bit_len a - 1) \<le> a" using len [of a] by simp
  moreover have "(2 :: nat) ^ (bit_len a - 53) \<le> 2 ^ (bit_len a - 1)" by (rule power_increasing) simp_all
  ultimately have "2 ^ (bit_len a - 53) \<le> a" by (rule order_trans [rotated])
  then have "0 < a div 2 ^ (bit_len a - 53)" by (simp add: div_greater_zero_iff)
  with False show ?thesis by (simp add: float_nat_def Let_def)
qed (simp add: float_nat_def)

lemma ceil_mul_range:
  assumes "0 < m" "m \<le> 2 ^ 52" "0 < n" "n < 2 ^ 52"
  shows "0 < ceil_mul m n" "ceil_mul m n \<le> n"
proof -
  have "n * m < 2 ^ 52 * 2 ^ 53" using assms by (intro mult_strict_mono) auto
  then have "n * m < 2 ^ 105" by simp
  then have "bit_len (n * m) \<le> 53 + 52" using bit_len_le [of "n * m" 105] by simp
  then have "float_nat (n * m) \<le> n * 2 ^ 52" using assms(2) by (intro float_nat_le) auto
  then show "ceil_mul m n \<le> n" by (simp add: ceil_mul_def)
  show "0 < ceil_mul m n" using float_nat_pos [of "n * m"] assms by (simp add: ceil_mul_def div_greater_zero_iff)
qed

text \<open>
  With at least one measurement, the percentiles exist, are measurements, and the maximum bounds them all: rounding in the floating-point
  product never leads out of the slice.
\<close>

theorem percentiles_ordered:
  assumes "durations \<noteq> []" and "length durations < 2 ^ 52"
  shows "\<exists>avg p50 p95 p99 longest. printPercentiles durations = Some (avg, p50, p95, p99, longest) \<and>
    {p50, p95, p99, longest} \<subseteq> set durations \<and> p95 \<le> longest \<and> p99 \<le> longest \<and> p50 \<le> longest \<and> (\<forall>d \<in> set durations. d \<le> longest)"
proof -
  let ?ds = "sort durations" and ?n = "length durations"
  let ?i = "ceil_mul 4278419646001971 ?n" and ?j = "ceil_mul 4458563631096791 ?n"
  have n: "0 < ?n" using assms(1) by simp
  have r: "0 < ?i" "?i \<le> ?n" "0 < ?j" "?j \<le> ?n" using ceil_mul_range [OF _ _ n assms(2)] by simp_all
  have le: "?ds ! k \<le> ?ds ! (?n - Suc 0)" if "k < ?n" for k using that by (intro sorted_nth_mono) simp_all
  have top: "d \<le> ?ds ! (?n - Suc 0)" if "d \<in> set durations" for d
    using that le by (metis in_set_conv_nth length_sort set_sort)
  have mem: "?ds ! k \<in> set durations" if "k < ?n" for k using that nth_mem [of k ?ds] by simp
  have ix: "index ?ds (int k - 1) = Some (?ds ! (k - 1))" if "0 < k" "k \<le> ?n" for k
    using that by (simp add: index_def nat_diff_distrib')
  have mid: "index ?ds (int (?n div 2)) = Some (?ds ! (?n div 2))" using n by (simp add: index_def)
  show ?thesis
    unfolding printPercentiles_def Let_def length_sort ix [OF r(1,2)] ix [OF r(3,4)] mid using ix [OF n] n r
    by (auto intro!: mem le top)
qed

text \<open>So the report never panics.\<close>

lemma Report_total:
  assumes "length (connectLatencies c) < 2 ^ 52" "length (msgLatencies c) < 2 ^ 52"
  shows "\<exists>p q. Report c = Some (ConnectionCount c, ErrorCount c, p, q) \<and> (p = None \<longleftrightarrow> connectLatencies c = []) \<and> (q = None \<longleftrightarrow> msgLatencies c = [])"
proof -
  have "\<exists>p. percentiles_of ds = Some p \<and> (p = None \<longleftrightarrow> ds = [])" if "length ds < 2 ^ 52" for ds
    using percentiles_ordered [OF _ that] by (cases "ds = []") (auto simp: percentiles_of_def)
  from this [OF assms(1)] this [OF assms(2)] show ?thesis by (auto simp: Report_def ConnectionCount_def ErrorCount_def)
qed

section \<open>The client against the server\<close>

lemma session_created_text:
  assumes "ValidString sid"
  shows "NewServerMessage TypeSessionCreated (SessionCreatedMsg sid) =
    Inr (json_text (JObj [(''session_id'', JStr sid), (''type'', JStr TypeSessionCreated)]))"
  using marshal_server_props [of "SessionCreatedMsg sid"] assms
  by (simp add: NewServerMessage_def Let_def json_parse_text del: json_text.simps)

lemma fingerprint_frame:
  "string_map [(''type'', TypeSetFingerprint), (''fingerprint'', fp)] =
     JObj [(''fingerprint'', JStr fp), (''type'', JStr TypeSetFingerprint)]"
  by (simp add: string_map_def)

lemma fingerprint_understood:
  assumes "ValidString fp"
  shows "ParseClientMessage (json_text (JObj [(''fingerprint'', JStr fp), (''type'', JStr TypeSetFingerprint)])) =
    (TypeSetFingerprint, Inr (SetFingerprintMsg fp))"
proof -
  let ?j = "JObj [(''fingerprint'', JStr fp), (''type'', JStr TypeSetFingerprint)]"
  have w: "wf_json 10000 ?j" using assms by (simp add: valid_ascii byte_def TypeSetFingerprint_def)
  have "decode_doc [(''type'', FStr [])] ?j = Inr [(''type'', FStr TypeSetFingerprint)]"
    by (simp add: decode_doc_def find_field_def [of "''type''"] other_field)
  then have "unmarshal_envelope (json_text ?j) = Inr \<lparr>Type = TypeSetFingerprint, Raw = json_text ?j\<rparr>"
    using w by (simp add: unmarshal_envelope_def json_parse_text UnmarshalJSON_def Unmarshal_text str_field_def trim_json TypeSetFingerprint_def
        del: json_text.simps)
  moreover have "decode_doc [(''type'', FStr []), (''fingerprint'', FStr [])] ?j =
      Inr [(''type'', FStr TypeSetFingerprint), (''fingerprint'', FStr fp)]"
    by (simp add: decode_doc_def find_field_def)
  ultimately show ?thesis
    using w by (simp add: ParseClientMessage_def payload_fields_def payload_msg_def Unmarshal_text str_field_def del: json_text.simps)
qed

text \<open>
  The handshake of the load test: the client understands the server's first message, keeps the session ID and answers with exactly one
  frame, which the server's parser reads as the fingerprint made of the ID's first eight bytes.
\<close>

theorem loadtest_handshake:
  assumes "list_all (\<lambda>b. byte b < 128) sid" and "8 \<le> length sid"
  shows "\<exists>out frame. NewServerMessage TypeSessionCreated (SessionCreatedMsg sid) = Inr out \<and>
    ParseClientMessage frame = (TypeSetFingerprint, Inr (SetFingerprintMsg (''loadtest-'' @ take 8 sid))) \<and>
    (\<forall>wr now later c. \<exists>c'. handle_frame wr Map.empty now later out c = Some c' \<and>
       cl_sessionID c' = sid \<and> cl_world c' = snd (wr frame (cl_world c)) \<and>
       MessagesSent (cl_metrics c') = MessagesSent (cl_metrics c) + 1)"
proof -
  let ?j = "JObj [(''session_id'', JStr sid), (''type'', JStr TypeSessionCreated)]" and ?fp = "''loadtest-'' @ take 8 sid"
  let ?f = "JObj [(''fingerprint'', JStr ?fp), (''type'', JStr TypeSetFingerprint)]"
  have "list_all (\<lambda>b. byte b < 128) (take 8 sid)" using assms(1) set_take_subset [of 8 sid] by (auto simp: list_all_iff)
  then have "list_all (\<lambda>b. byte b < 128) ?fp" unfolding list_all_append by (simp add: byte_def)
  then have v: "ValidString sid" "ValidString ?fp" using assms(1) by (simp_all only: valid_ascii)
  have w: "wf_json 10000 ?j" using v(1) by (simp add: valid_ascii byte_def TypeSessionCreated_def)
  have env: "Unmarshal [(''type'', FStr [])] (json_text ?j) = Inr [(''type'', FStr TypeSessionCreated)]"
    unfolding Unmarshal_text [OF w]
    by (simp add: decode_doc_def find_field_def fold_name_def runes_ascii byte_def fold_rune_def)
  have msg: "Unmarshal [(''type'', FStr []), (''session_id'', FStr [])] (json_text ?j) =
      Inr [(''type'', FStr TypeSessionCreated), (''session_id'', FStr sid)]"
    unfolding Unmarshal_text [OF w] by (simp add: decode_doc_def find_field_def)
  have "sid \<noteq> []" using assms(2) by auto
  then have h: "handshake wr (json_text ?j) c = Some (snd (Send wr ?f (c\<lparr>cl_sessionID := sid\<rparr>)))" for wr c
    using assms(2) by (simp add: handshake_def msg str_field_def fingerprint_frame Let_def del: json_text.simps)
  have "\<exists>c'. handle_frame wr Map.empty now later (json_text ?j) c = Some c' \<and>
       cl_sessionID c' = sid \<and> cl_world c' = snd (wr (json_text ?f) (cl_world c)) \<and>
       MessagesSent (cl_metrics c') = MessagesSent (cl_metrics c) + 1" for wr now later c
    by (simp add: handle_frame_def env h Send_def Let_def str_field_def case_prod_unfold del: json_text.simps split: option.split)
  with session_created_text [OF v(1)] fingerprint_understood [OF v(2)] show ?thesis by blast
qed

text \<open>
  Two faults of the client.  A session ID of fewer than eight bytes stops it with a panic; and what it reports as the time to the first
  message is the connect time and the time between two readings of the clock after the message has arrived.
\<close>

theorem handshake_short:
  assumes "list_all (\<lambda>b. byte b < 128) sid" and "sid \<noteq> []" and "length sid < 8"
  shows "\<exists>out. NewServerMessage TypeSessionCreated (SessionCreatedMsg sid) = Inr out \<and> handshake wr out c = None"
proof -
  let ?j = "JObj [(''session_id'', JStr sid), (''type'', JStr TypeSessionCreated)]"
  have v: "ValidString sid" using assms(1) by (rule valid_ascii)
  then have w: "wf_json 10000 ?j" by (simp add: valid_ascii byte_def TypeSessionCreated_def)
  have "handshake wr (json_text ?j) c = None"
    unfolding handshake_def Unmarshal_text [OF w] using assms(2,3) by (simp add: decode_doc_def find_field_def str_field_def)
  with session_created_text [OF v] show ?thesis by blast
qed

theorem first_latency_is_connect_latency:
  assumes "cl_firstMsg c = None" and "handle_frame wr Map.empty now later data c = Some c'"
  shows "FirstMsgLatency (cl_metrics c') = ConnectLatency (cl_metrics c) + (later - now)"
  using assms by (auto simp: handle_frame_def handshake_def Send_def Let_def case_prod_unfold split: sum.splits if_splits option.splits)

end
