(* ===== verification/RampUp.thy ===== *)
theory RampUp
  imports LoadTest
begin

text \<open>
  The load test's command (\<open>loadtest/cmd/loadtest\<close>): the choice of a scenario, and the phase all three scenarios begin with, in which one
  goroutine per client connects it, not more at a time than there are slots.  The phase is a step relation in which the main goroutine and
  the attempts interleave; an attempt is known by its position in the list of those started, and so is its client.  An
  attempt that fails may do so at any time, and the ticker may fire at any time.  Progress lines are left out.
\<close>

section \<open>Settings\<close>

text \<open>Division of integers in Go rounds towards zero.\<close>

definition go_div :: "int \<Rightarrow> int \<Rightarrow> int" where
  "go_div a b = sgn a * sgn b * (\<bar>a\<bar> div \<bar>b\<bar>)"

text \<open>The pause between two attempts; a division by zero panics.\<close>

definition ramp_interval :: "Duration \<Rightarrow> int \<Rightarrow> Duration option" where
  "ramp_interval rampUp n =
     (if n = 0 then None
      else (let interval = go_div rampUp n in Some (if interval \<le> 0 then Millisecond else interval)))"

section \<open>The goroutines\<close>

datatype task = Dialing | Waiting | Ready | Counted | Ending | Released | Over

datatype ramp_main = Ramping | Acquiring | Joining | RampedUp

record ramp =
  ramp_pc :: ramp_main
  launched :: int
  interrupted :: bool
  wg :: nat
  sem :: nat
  tasks :: "task list"
  collector :: Collector
  clients :: "nat list"
  client_shut :: "nat list"

definition ramp_start :: "int \<Rightarrow> int \<Rightarrow> ramp option" where
  "ramp_start n concurrency =
     (if n \<le> 0 \<or> concurrency < 0 then None
      else Some \<lparr>ramp_pc = Ramping, launched = 0, interrupted = False, wg = 0, sem = 0, tasks = [], collector = NewCollector,
        clients = [], client_shut = []\<rparr>)"

text \<open>The three scenarios: the pause between two attempts and the state before the first.  Each may panic.\<close>

definition connect_setup :: "int \<Rightarrow> Duration \<Rightarrow> int \<Rightarrow> (Duration \<times> ramp) option" where
  "connect_setup n rampUp concurrency =
     (case ramp_interval rampUp n of None \<Rightarrow> None | Some interval \<Rightarrow> map_option (Pair interval) (ramp_start n concurrency))"

definition saturate_setup :: "int \<Rightarrow> Duration \<Rightarrow> int \<Rightarrow> (Duration \<times> ramp) option" where
  "saturate_setup connections = connect_setup connections"

definition match_setup :: "int \<Rightarrow> Duration \<Rightarrow> int \<Rightarrow> (Duration \<times> ramp) option" where
  "match_setup pairs = connect_setup (wrap64 (pairs * 2))"

definition chat_setup :: "int \<Rightarrow> Duration \<Rightarrow> int \<Rightarrow> (Duration \<times> ramp) option" where
  "chat_setup pairs = connect_setup (wrap64 (pairs * 2))"

text \<open>The goroutines, for the number of clients, the number of slots and the connect latency of each client.\<close>

inductive ramp_step :: "int \<Rightarrow> int \<Rightarrow> (nat \<Rightarrow> Duration) \<Rightarrow> ramp \<Rightarrow> ramp \<Rightarrow> bool"
  for n concurrency :: int and lat :: "nat \<Rightarrow> Duration" where
  tick: "ramp_pc r = Ramping \<Longrightarrow> launched r < n \<Longrightarrow>
    ramp_step n concurrency lat r (r\<lparr>ramp_pc := Acquiring, launched := launched r + 1, wg := Suc (wg r)\<rparr>)"
| interrupt: "ramp_pc r = Ramping \<Longrightarrow> launched r < n \<Longrightarrow>
    ramp_step n concurrency lat r (r\<lparr>launched := n, interrupted := True\<rparr>)"
| acquire: "ramp_pc r = Acquiring \<Longrightarrow> int (sem r) < concurrency \<Longrightarrow>
    ramp_step n concurrency lat r (r\<lparr>ramp_pc := Ramping, sem := Suc (sem r), tasks := tasks r @ [Dialing]\<rparr>)"
| loop_end: "ramp_pc r = Ramping \<Longrightarrow> \<not> launched r < n \<Longrightarrow> ramp_step n concurrency lat r (r\<lparr>ramp_pc := Joining\<rparr>)"
| joined: "ramp_pc r = Joining \<Longrightarrow> wg r = 0 \<Longrightarrow> ramp_step n concurrency lat r (r\<lparr>ramp_pc := RampedUp\<rparr>)"
| dial_failed: "i < length (tasks r) \<Longrightarrow> tasks r ! i = Dialing \<Longrightarrow>
    ramp_step n concurrency lat r (r\<lparr>tasks := (tasks r)[i := Ending], collector := AddError (collector r)\<rparr>)"
| dialed: "i < length (tasks r) \<Longrightarrow> tasks r ! i = Dialing \<Longrightarrow> ramp_step n concurrency lat r (r\<lparr>tasks := (tasks r)[i := Waiting]\<rparr>)"
| no_session: "i < length (tasks r) \<Longrightarrow> tasks r ! i = Waiting \<Longrightarrow>
    ramp_step n concurrency lat r
      (r\<lparr>tasks := (tasks r)[i := Ending], collector := AddError (collector r), client_shut := i # client_shut r\<rparr>)"
| session: "i < length (tasks r) \<Longrightarrow> tasks r ! i = Waiting \<Longrightarrow> ramp_step n concurrency lat r (r\<lparr>tasks := (tasks r)[i := Ready]\<rparr>)"
| counted: "i < length (tasks r) \<Longrightarrow> tasks r ! i = Ready \<Longrightarrow>
    ramp_step n concurrency lat r (r\<lparr>tasks := (tasks r)[i := Counted], collector := AddConnect (lat i) (collector r)\<rparr>)"
| listed: "i < length (tasks r) \<Longrightarrow> tasks r ! i = Counted \<Longrightarrow>
    ramp_step n concurrency lat r (r\<lparr>tasks := (tasks r)[i := Ending], clients := clients r @ [i]\<rparr>)"
| released: "i < length (tasks r) \<Longrightarrow> tasks r ! i = Ending \<Longrightarrow>
    ramp_step n concurrency lat r (r\<lparr>tasks := (tasks r)[i := Released], sem := sem r - 1\<rparr>)"
| finished: "i < length (tasks r) \<Longrightarrow> tasks r ! i = Released \<Longrightarrow>
    ramp_step n concurrency lat r (r\<lparr>tasks := (tasks r)[i := Over], wg := wg r - 1\<rparr>)"

text \<open>The same loop in the other two scenarios, with two clients per pair.\<close>

definition match_ramp_step :: "int \<Rightarrow> int \<Rightarrow> (nat \<Rightarrow> Duration) \<Rightarrow> ramp \<Rightarrow> ramp \<Rightarrow> bool" where
  "match_ramp_step pairs = ramp_step (wrap64 (pairs * 2))"

definition chat_ramp_step :: "int \<Rightarrow> int \<Rightarrow> (nat \<Rightarrow> Duration) \<Rightarrow> ramp \<Rightarrow> ramp \<Rightarrow> bool" where
  "chat_ramp_step pairs = ramp_step (wrap64 (pairs * 2))"

section \<open>Accounting\<close>

definition tally :: "('a \<Rightarrow> bool) \<Rightarrow> 'a list \<Rightarrow> nat" where
  "tally P xs = length (filter P xs)"

lemma tally_simps [simp]: "tally P [] = 0" "tally P (xs @ [x]) = tally P xs + (if P x then 1 else 0)"
  by (simp_all add: tally_def)

lemma tally_update:
  "i < length xs \<Longrightarrow> tally P (xs[i := y]) + (if P (xs ! i) then 1 else 0) = tally P xs + (if P y then 1 else 0)"
proof (induction xs arbitrary: i)
  case (Cons x xs)
  then show ?case by (cases i) (auto simp: tally_def)
qed simp

lemma tally_pos: "i < length xs \<Longrightarrow> P (xs ! i) \<Longrightarrow> 0 < tally P xs"
  by (auto simp: tally_def filter_empty_conv)

lemma tally_0: "tally P xs = 0 \<longleftrightarrow> (\<forall>x \<in> set xs. \<not> P x)"
  by (auto simp: tally_def filter_empty_conv)

text \<open>An attempt that has failed or has been counted; one that holds a slot; one that is not over.\<close>

definition decided :: "task \<Rightarrow> bool" where "decided t \<longleftrightarrow> t \<in> {Counted, Ending, Released, Over}"
definition holds_slot :: "task \<Rightarrow> bool" where "holds_slot t \<longleftrightarrow> t \<notin> {Released, Over}"
definition unlisted :: "task \<Rightarrow> bool" where "unlisted t \<longleftrightarrow> t = Counted"

lemmas task_defs = decided_def holds_slot_def unlisted_def

lemma int_tally_update:
  "i < length xs \<Longrightarrow> int (tally P (xs[i := y])) = int (tally P xs) + of_bool (P y) - of_bool (P (xs ! i))"
  using tally_update [of i xs P y] by (simp split: if_splits)

definition launch_inv :: "int \<Rightarrow> ramp \<Rightarrow> bool" where
  "launch_inv n r \<longleftrightarrow> launched r \<le> n \<and>
     int (length (tasks r)) + of_bool (ramp_pc r = Acquiring) \<le> launched r \<and>
     (\<not> interrupted r \<longrightarrow> launched r = int (length (tasks r)) + of_bool (ramp_pc r = Acquiring)) \<and>
     (ramp_pc r \<in> {Joining, RampedUp} \<longrightarrow> launched r = n)"

definition slot_inv :: "int \<Rightarrow> ramp \<Rightarrow> bool" where
  "slot_inv concurrency r \<longleftrightarrow> int (sem r) \<le> concurrency \<and> int (sem r) = int (tally holds_slot (tasks r)) \<and>
     int (wg r) = int (tally (\<lambda>t. t \<noteq> Over) (tasks r)) + of_bool (ramp_pc r = Acquiring) \<and> (ramp_pc r = RampedUp \<longrightarrow> wg r = 0)"

definition count_inv :: "ramp \<Rightarrow> bool" where
  "count_inv r \<longleftrightarrow>
     ConnectionCount (collector r) + ErrorCount (collector r) = int (tally decided (tasks r)) \<and>
     ConnectionCount (collector r) = int (length (clients r)) + int (tally unlisted (tasks r)) \<and>
     ConnectionCount (collector r) = int (length (connectLatencies (collector r)))"

lemma launch_step: "ramp_step n concurrency lat r r' \<Longrightarrow> launch_inv n r \<Longrightarrow> launch_inv n r'"
  by (induction rule: ramp_step.induct) (simp_all add: launch_inv_def, auto)

lemma slot_step:
  assumes "ramp_step n concurrency lat r r'" "slot_inv concurrency r"
  shows "slot_inv concurrency r'"
  using assms
proof (induction rule: ramp_step.induct)
  case (released i r)
  then have "0 < tally holds_slot (tasks r)" by (intro tally_pos [of i]) (simp_all add: task_defs)
  with released show ?case by (simp add: slot_inv_def int_tally_update task_defs)
next
  case (finished i r)
  then have "0 < tally (\<lambda>t. t \<noteq> Over) (tasks r)" by (intro tally_pos [of i]) simp_all
  with finished show ?case by (cases "ramp_pc r = Acquiring") (auto simp: slot_inv_def int_tally_update task_defs)
qed (simp_all add: slot_inv_def int_tally_update task_defs)

lemma count_step: "ramp_step n concurrency lat r r' \<Longrightarrow> count_inv r \<Longrightarrow> count_inv r'"
  by (induction rule: ramp_step.induct)
     (simp_all add: count_inv_def int_tally_update task_defs ConnectionCount_def ErrorCount_def AddError_def AddConnect_def)


definition ramp_reach :: "int \<Rightarrow> int \<Rightarrow> (nat \<Rightarrow> Duration) \<Rightarrow> ramp \<Rightarrow> bool" where
  "ramp_reach n concurrency lat r \<longleftrightarrow> (\<exists>r0. ramp_start n concurrency = Some r0 \<and> (ramp_step n concurrency lat)\<^sup>*\<^sup>* r0 r)"

lemma ramp_inv:
  assumes "ramp_reach n concurrency lat r"
  shows "launch_inv n r \<and> slot_inv concurrency r \<and> count_inv r"
proof -
  obtain r0 where r0: "ramp_start n concurrency = Some r0" "(ramp_step n concurrency lat)\<^sup>*\<^sup>* r0 r"
    using assms by (auto simp: ramp_reach_def)
  have "launch_inv n r0 \<and> slot_inv concurrency r0 \<and> count_inv r0"
    using r0(1) by (auto simp: ramp_start_def launch_inv_def slot_inv_def count_inv_def NewCollector_def ConnectionCount_def ErrorCount_def split: if_splits)
  with r0(2) show ?thesis by (induction rule: rtranclp_induct) (auto intro: launch_step slot_step count_step)
qed

section \<open>The phase ends\<close>

fun task_left :: "task \<Rightarrow> nat" where
  "task_left Dialing = 6"
| "task_left Waiting = 5"
| "task_left Ready = 4"
| "task_left Counted = 3"
| "task_left Ending = 2"
| "task_left Released = 1"
| "task_left Over = 0"

definition ramp_left :: "int \<Rightarrow> ramp \<Rightarrow> nat" where
  "ramp_left n r = 9 * nat (n - launched r) + (case ramp_pc r of Ramping \<Rightarrow> 2 | Acquiring \<Rightarrow> 10 | Joining \<Rightarrow> 1 | RampedUp \<Rightarrow> 0) +
     sum_list (map task_left (tasks r))"

lemma task_left_update:
  "i < length ts \<Longrightarrow> task_left t < task_left (ts ! i) \<Longrightarrow> sum_list (map task_left (ts[i := t])) < sum_list (map task_left ts)"
proof (induction ts arbitrary: i)
  case (Cons t ts)
  then show ?case by (cases i) simp_all
qed simp

lemma ramp_step_left: "ramp_step n concurrency lat r r' \<Longrightarrow> ramp_left n r' < ramp_left n r"
  by (induction rule: ramp_step.induct) (simp_all add: ramp_left_def task_left_update)

lemma task_progress:
  assumes "i < length (tasks r)" "tasks r ! i \<noteq> Over"
  shows "\<exists>r'. ramp_step n concurrency lat r r'"
  using assms by (cases "tasks r ! i") (blast intro: ramp_step.intros)+

lemma ramp_progress:
  assumes "ramp_reach n concurrency lat r" "ramp_pc r \<noteq> RampedUp" "0 < concurrency"
  shows "\<exists>r'. ramp_step n concurrency lat r r'"
proof (cases "\<exists>i < length (tasks r). tasks r ! i \<noteq> Over")
  case True
  then show ?thesis using task_progress by blast
next
  case False
  then have "\<forall>t \<in> set (tasks r). t = Over" by (metis in_set_conv_nth)
  then have "tally holds_slot (tasks r) = 0" "tally (\<lambda>t. t \<noteq> Over) (tasks r) = 0" unfolding tally_0 by (auto simp: task_defs)
  with ramp_inv [OF assms(1)] have s: "sem r = 0" "ramp_pc r \<noteq> Acquiring \<Longrightarrow> wg r = 0" by (auto simp: slot_inv_def)
  show ?thesis
    using assms(2,3) s acquire [of r concurrency n lat] loop_end [of r n concurrency lat] tick [of r n concurrency lat]
      joined [of r n concurrency lat] by (cases "ramp_pc r") (simp_all, blast+)
qed

text \<open>
  C37.  The ramp-up of a load test ends and its books balance.  With at least one slot, every run of the connection phase stops after a bounded
  number of steps, whatever the attempts come to, and it stops only when the phase is complete; then every attempt has
  been counted exactly once, as a connection or as an error, the clients kept are as many as the connections counted, and without an
  interrupt there have been as many attempts as asked for.  There are never more attempts under way than slots.
\<close>

theorem ramp_up_accounts:
  assumes "ramp_reach n concurrency lat r" and "0 < concurrency"
  shows "int (tally holds_slot (tasks r)) \<le> concurrency \<and>
    (\<forall>k r'. ((ramp_step n concurrency lat) ^^ k) r r' \<longrightarrow> k \<le> ramp_left n r) \<and>
    ((\<nexists>r'. ramp_step n concurrency lat r r') \<longleftrightarrow> ramp_pc r = RampedUp) \<and>
    (ramp_pc r = RampedUp \<longrightarrow>
       ConnectionCount (collector r) + ErrorCount (collector r) = int (length (tasks r)) \<and>
       ConnectionCount (collector r) = int (length (clients r)) \<and> (\<not> interrupted r \<longrightarrow> int (length (tasks r)) = n))"
proof -
  note I = ramp_inv [OF assms(1)]
  have bound: "((ramp_step n concurrency lat) ^^ k) r r' \<Longrightarrow> k + ramp_left n r' \<le> ramp_left n r" for k r'
  proof (induction k arbitrary: r')
    case (Suc k)
    then obtain s where "((ramp_step n concurrency lat) ^^ k) r s" "ramp_step n concurrency lat s r'" by auto
    with Suc.IH [of s] ramp_step_left [of n concurrency lat s r'] show ?case by simp
  qed simp
  have over: "t = Over" if "ramp_pc r = RampedUp" "t \<in> set (tasks r)" for t
    using that I by (auto simp: slot_inv_def tally_0)
  have stop: "\<nexists>r'. ramp_step n concurrency lat r r'" if "ramp_pc r = RampedUp"
  proof -
    have "tasks r ! i = Over" if "i < length (tasks r)" for i using over \<open>ramp_pc r = RampedUp\<close> that by simp
    with that show ?thesis by (auto elim!: ramp_step.cases)
  qed
  have "tally decided (tasks r) = length (tasks r)" "tally unlisted (tasks r) = 0" if "ramp_pc r = RampedUp"
    using over [OF that] by (auto simp: tally_def task_defs filter_id_conv filter_empty_conv)
  then have "ramp_pc r = RampedUp \<longrightarrow> ConnectionCount (collector r) + ErrorCount (collector r) = int (length (tasks r)) \<and>
       ConnectionCount (collector r) = int (length (clients r)) \<and> (\<not> interrupted r \<longrightarrow> int (length (tasks r)) = n)"
    using I by (auto simp: count_inv_def launch_inv_def)
  moreover have "int (tally holds_slot (tasks r)) \<le> concurrency" using I by (simp add: slot_inv_def)
  ultimately show ?thesis using bound stop ramp_progress [OF assms(1) _ assms(2)] by (meson add_leE)
qed


text \<open>One connection, whose attempt succeeds.\<close>

definition one_client :: ramp where
  "one_client = \<lparr>ramp_pc = RampedUp, launched = 1, interrupted = False, wg = 0, sem = 0, tasks = [Over],
     collector = AddConnect 7 NewCollector, clients = [0], client_shut = []\<rparr>"

lemma one_client_reach: "ramp_reach 1 1 (\<lambda>i. 7) one_client"
proof -
  let ?r = "\<lambda>pc l w s ts c cs. \<lparr>ramp_pc = pc, launched = l, interrupted = False, wg = w, sem = s, tasks = ts, collector = c, clients = cs, client_shut = []\<rparr>"
  let ?S = "ramp_step 1 1 (\<lambda>i. 7)" and ?c = "AddConnect 7 NewCollector"
  note [trans] = rtranclp.rtrancl_into_rtrancl
  have "?S\<^sup>*\<^sup>* (?r Ramping 0 0 0 [] NewCollector []) (?r Ramping 0 0 0 [] NewCollector [])" by simp
  also have "?S \<dots> (?r Acquiring 1 1 0 [] NewCollector [])" using tick [of "?r Ramping 0 0 0 [] NewCollector []"] by simp
  also have "?S \<dots> (?r Ramping 1 1 1 [Dialing] NewCollector [])" using acquire [of "?r Acquiring 1 1 0 [] NewCollector []"] by simp
  also have "?S \<dots> (?r Ramping 1 1 1 [Waiting] NewCollector [])" using dialed [of 0 "?r Ramping 1 1 1 [Dialing] NewCollector []"] by simp
  also have "?S \<dots> (?r Ramping 1 1 1 [Ready] NewCollector [])" using session [of 0 "?r Ramping 1 1 1 [Waiting] NewCollector []"] by simp
  also have "?S \<dots> (?r Ramping 1 1 1 [Counted] ?c [])" using counted [of 0 "?r Ramping 1 1 1 [Ready] NewCollector []" 1 1 "\<lambda>i. 7"] by simp
  also have "?S \<dots> (?r Ramping 1 1 1 [Ending] ?c [0])" using listed [of 0 "?r Ramping 1 1 1 [Counted] ?c []"] by simp
  also have "?S \<dots> (?r Ramping 1 1 0 [Released] ?c [0])" using released [of 0 "?r Ramping 1 1 1 [Ending] ?c [0]"] by simp
  also have "?S \<dots> (?r Ramping 1 0 0 [Over] ?c [0])" using finished [of 0 "?r Ramping 1 1 0 [Released] ?c [0]"] by simp
  also have "?S \<dots> (?r Joining 1 0 0 [Over] ?c [0])" using loop_end [of "?r Ramping 1 0 0 [Over] ?c [0]"] by simp
  also have "?S \<dots> (?r RampedUp 1 0 0 [Over] ?c [0])" using joined [of "?r Joining 1 0 0 [Over] ?c [0]"] by simp
  finally show ?thesis by (auto simp: ramp_reach_def ramp_start_def one_client_def)
qed

theorem ramp_up_accounts_witness: "ConnectionCount (collector one_client) + ErrorCount (collector one_client) = 1"
  using ramp_up_accounts [OF one_client_reach] by (simp add: one_client_def)

text \<open>
  Without a slot, which the flag \<open>-concurrency 0\<close> asks for, the first attempt waits for ever: the semaphore is a channel without a buffer
  from which nobody receives.  With no connections to make, the calculation of the pause panics.
\<close>

lemma no_slot_hangs:
  assumes "ramp_start n 0 = Some r0" "(ramp_step n 0 lat)\<^sup>*\<^sup>* r0 r"
  shows "tasks r = [] \<and> (ramp_pc r = Acquiring \<longrightarrow> (\<nexists>r'. ramp_step n 0 lat r r'))"
proof -
  have "tasks r = []"
    using assms(2,1) by (induction rule: rtranclp_induct) (auto simp: ramp_start_def split: if_splits elim!: ramp_step.cases)
  then show ?thesis by (auto elim!: ramp_step.cases)
qed

lemma no_connections_panics: "saturate_setup 0 rampUp k = None" "match_setup 0 rampUp k = None" "chat_setup 0 rampUp k = None"
  by (simp_all add: saturate_setup_def match_setup_def chat_setup_def connect_setup_def ramp_interval_def wrap64_def)

lemma ramp_interval_positive: "ramp_interval rampUp n = Some d \<Longrightarrow> 0 < d"
  by (auto simp: ramp_interval_def Let_def split: if_splits)

section \<open>Holding the connections\<close>

text \<open>A status report: the connections without a read error, and how many of those there were at the beginning are gone.\<close>

definition hold_status :: "int \<Rightarrow> Metrics list \<Rightarrow> int \<times> int" where
  "hold_status initialAlive ms =
     (let alive = int (length (filter (\<lambda>m. met_Errors m = 0) ms)) in (alive, initialAlive - alive))"

datatype hold_event = HoldInterrupted | HoldOver | StatusTick "Metrics list"

text \<open>The number of dropped connections the hold loop ends with; \<open>None\<close> while it goes on.\<close>

fun holdLoop :: "int \<Rightarrow> hold_event list \<Rightarrow> int \<Rightarrow> int option" where
  "holdLoop initialAlive [] dropped = None"
| "holdLoop initialAlive (HoldInterrupted # es) dropped = Some dropped"
| "holdLoop initialAlive (HoldOver # es) dropped = Some dropped"
| "holdLoop initialAlive (StatusTick ms # es) dropped = holdLoop initialAlive es (snd (hold_status initialAlive ms))"

definition cleanup :: "('e \<Rightarrow> error option \<times> 'e) \<Rightarrow> 'e Client list \<Rightarrow> 'e Client list" where
  "cleanup close_conn cs = map (\<lambda>c. snd (CloseClient close_conn c)) cs"

lemma cleanup_closes: "list_all cl_closed (cleanup close_conn cs)"
  by (auto simp: cleanup_def CloseClient_def list_all_iff case_prod_beta Let_def)

section \<open>The command\<close>

datatype load_command = RunSaturate "string list" | RunMatch "string list" | RunChat "string list" | PrintUsage int

text \<open>The arguments after the program's name; the usage is printed before an exit with the given code.\<close>

fun load_main :: "string list \<Rightarrow> load_command" where
  "load_main [] = PrintUsage 1"
| "load_main (cmd # args) =
     (if cmd = ''saturate'' then RunSaturate args
      else if cmd = ''match'' then RunMatch args
      else if cmd = ''chat'' then RunChat args
      else if cmd \<in> {''help'', ''-h'', ''--help''} then PrintUsage 0
      else PrintUsage 1)"

end
