(* ===== verification/Scenarios.thy ===== *)
theory Scenarios
  imports RampUp Moderation Validator
begin

text \<open>
  What the scenarios of the load test do once their clients are connected (\<open>loadtest/cmd/loadtest/match.go\<close> and \<open>chat.go\<close>): the frames
  they send, which the server's parser understands; the matching of all clients; and the life of a pair from the
  search to the end of the chat, with the goroutines that send and receive.  Printed lines are left out.
\<close>

section \<open>What the clients send\<close>

text \<open>A message of the client as \<open>encoding/json\<close> writes a map: the keys in alphabetical order, the type last.\<close>

definition client_frame :: "client_msg \<Rightarrow> json" where
  "client_frame m = JObj (client_fields m @ [(''type'', JStr (client_type m))])"

definition find_match_map :: "string list \<Rightarrow> json" where
  "find_match_map interests = JObj (sort_key fst [(''type'', JStr TypeFindMatch), (''interests'', JStrs (Some interests))])"

definition accept_match_map :: "string \<Rightarrow> json" where
  "accept_match_map chatID = string_map [(''type'', TypeAcceptMatch), (''chat_id'', chatID)]"

definition message_map :: "string \<Rightarrow> string \<Rightarrow> json" where
  "message_map chatID txt = string_map [(''type'', TypeMessage), (''chat_id'', chatID), (''text'', txt)]"

definition end_chat_map :: "string \<Rightarrow> json" where
  "end_chat_map chatID = string_map [(''type'', TypeEndChat), (''chat_id'', chatID)]"

lemma maps_are_frames:
  "find_match_map ts = client_frame (FindMatchMsg (Some ts))" "accept_match_map i = client_frame (AcceptMatchMsg i)"
  "message_map i t = client_frame (ChatMsg i t)" "end_chat_map i = client_frame (EndChatMsg i)"
  by (simp_all add: find_match_map_def accept_match_map_def message_map_def end_chat_map_def client_frame_def string_map_def)

lemma client_frame_understood:
  assumes "valid_client m"
  shows "ParseClientMessage (json_text (client_frame m)) = (client_type m, Inr m)"
proof -
  have w: "wf_json 10000 (client_frame m)"
    using assms by (cases m) (auto simp: client_frame_def client_types valid_ascii byte_def split: option.splits)
  have "client_type m \<noteq> []" by (cases m) (simp_all add: client_types)
  moreover have "decode_doc [(''type'', FStr [])] (client_frame m) = Inr [(''type'', FStr (client_type m))]"
    by (cases m) (simp_all add: client_frame_def decode_doc_def find_field_def [of "''type''"] other_field)
  ultimately have env: "unmarshal_envelope (json_text (client_frame m)) = Inr \<lparr>Type = client_type m, Raw = json_text (client_frame m)\<rparr>"
    using w by (simp add: unmarshal_envelope_def json_parse_text UnmarshalJSON_def Unmarshal_text str_field_def client_frame_def trim_json
        del: json_text.simps)
  note simps = payload_fields_def payload_msg_def client_types client_frame_def decode_doc_def find_field_def field_simps
  have "\<exists>fs fs'. payload_fields (client_type m) = Some fs \<and> decode_doc fs (client_frame m) = Inr fs' \<and>
      payload_msg (client_type m) fs' = m"
  proof (cases m)
    case (FindMatchMsg y)
    obtain x where "decode_val (FStrs None) (JStrs y) = (FStrs x, True)" "map_option (\<lambda>(n, arr). take n arr) x = y"
      using decode_JStrs by blast
    with FindMatchMsg show ?thesis by (simp add: simps)
  qed (simp_all add: simps)
  then show ?thesis using env w by (auto simp: ParseClientMessage_def Unmarshal_text)
qed

text \<open>The interests given on the command line.\<close>

definition interest_tags :: "string \<Rightarrow> string list" where
  "interest_tags interests =
     (if interests = [] then [] else filter (\<lambda>tag. tag \<noteq> []) (map TrimSpace (split_on CHR '','' interests)))"

text \<open>The text of the messages; repeating and slicing panic on a negative size.\<close>

definition msg_payload :: "int \<Rightarrow> string option" where
  "msg_payload msgSize =
     (if msgSize < 0 then None
      else Some (take (nat msgSize) (concat (replicate (nat (msgSize div 8 + 1)) ''abcdefgh''))))"

lemma payload_valid:
  assumes "0 < msgSize"
  shows "\<exists>t. msg_payload msgSize = Some t \<and> (ValidateMessage t = None \<longleftrightarrow> msgSize \<le> 2000)"
proof -
  let ?all = "concat (replicate (nat (msgSize div 8 + 1)) ''abcdefgh'')"
  let ?t = "take (nat msgSize) ?all"
  have "length (concat (replicate k ''abcdefgh'')) = 8 * k" for k by (induction k) simp_all
  then have l: "length ?t = nat msgSize" using assms by simp
  have "list_all (\<lambda>c. byte c < 128) (concat (replicate k ''abcdefgh''))" for k by (induction k) (simp_all add: byte_def)
  then have a: "list_all (\<lambda>c. byte c < 128) ?t" by (metis list_all_append append_take_drop_id)
  have "ValidateMessage ?t = None \<longleftrightarrow> msgSize \<le> 2000"
    using assms l valid_ascii [OF a] unfolding ValidateMessage_def RuneCountInString_def runes_ascii [OF a] length_map
    by (simp add: MaxMessageBytes_def MaxTextChars_def del: length_take)
  with assms show ?thesis by (auto simp: msg_payload_def)
qed

section \<open>The exchange of messages\<close>

text \<open>
  The goroutines of a pair: a sender and a receiver for each of the two clients, \<open>False\<close> and \<open>True\<close>, and the handlers of arriving messages.
  \<open>result.msgSent++\<close> and \<open>result.msgRecv++\<close> are not synchronised: they read and write in separate steps.  The totals are what
  this pair adds to the atomic counters while the chat lasts.
\<close>

datatype sender = SSelect | SSend | SLoad | SStore int | SGone
datatype receiver = RSelect | RLoad | RStore int | RLatency | RGone

record chat_phase =
  cp_expired :: bool
  cp_sender :: "bool \<Rightarrow> sender"
  cp_receiver :: "bool \<Rightarrow> receiver"
  cp_queue :: "bool \<Rightarrow> nat"
  cp_lastSend :: "bool \<Rightarrow> int"
  cp_msgSent :: int
  cp_msgRecv :: int
  cp_totalSent :: int
  cp_totalRecv :: int
  cp_errors :: int
  cp_collector :: Collector

definition chat_phase_start :: "Collector \<Rightarrow> chat_phase" where
  "chat_phase_start col = \<lparr>cp_expired = False, cp_sender = (\<lambda>d. SSelect), cp_receiver = (\<lambda>d. RSelect), cp_queue = (\<lambda>d. 0),
     cp_lastSend = (\<lambda>d. 0), cp_msgSent = 0, cp_msgRecv = 0, cp_totalSent = 0, cp_totalRecv = 0, cp_errors = 0, cp_collector = col\<rparr>"

inductive chat_step :: "chat_phase \<Rightarrow> chat_phase \<Rightarrow> bool" where
  expire: "chat_step s (s\<lparr>cp_expired := True\<rparr>)"
| send_tick: "cp_sender s d = SSelect \<Longrightarrow>
    chat_step s (s\<lparr>cp_sender := (cp_sender s)(d := SSend), cp_lastSend := (cp_lastSend s)(d := now)\<rparr>)"
| sent: "cp_sender s d = SSend \<Longrightarrow> chat_step s (s\<lparr>cp_sender := (cp_sender s)(d := SLoad), cp_totalSent := cp_totalSent s + 1\<rparr>)"
| send_failed: "cp_sender s d = SSend \<Longrightarrow>
    chat_step s (s\<lparr>cp_sender := (cp_sender s)(d := SGone), cp_errors := cp_errors s + 1, cp_collector := AddError (cp_collector s)\<rparr>)"
| sent_load: "cp_sender s d = SLoad \<Longrightarrow> chat_step s (s\<lparr>cp_sender := (cp_sender s)(d := SStore (cp_msgSent s))\<rparr>)"
| sent_store: "cp_sender s d = SStore n \<Longrightarrow> chat_step s (s\<lparr>cp_sender := (cp_sender s)(d := SSelect), cp_msgSent := n + 1\<rparr>)"
| sender_ends: "cp_sender s d = SSelect \<Longrightarrow> cp_expired s \<Longrightarrow> chat_step s (s\<lparr>cp_sender := (cp_sender s)(d := SGone)\<rparr>)"
| arrives: "chat_step s (s\<lparr>cp_totalRecv := cp_totalRecv s + 1, cp_queue := (cp_queue s)(d := min 100 (cp_queue s d + 1))\<rparr>)"
| takes: "cp_receiver s d = RSelect \<Longrightarrow> 0 < cp_queue s d \<Longrightarrow>
    chat_step s (s\<lparr>cp_receiver := (cp_receiver s)(d := RLoad), cp_queue := (cp_queue s)(d := cp_queue s d - 1)\<rparr>)"
| recv_load: "cp_receiver s d = RLoad \<Longrightarrow> chat_step s (s\<lparr>cp_receiver := (cp_receiver s)(d := RStore (cp_msgRecv s))\<rparr>)"
| recv_store: "cp_receiver s d = RStore n \<Longrightarrow> chat_step s (s\<lparr>cp_receiver := (cp_receiver s)(d := RLatency), cp_msgRecv := n + 1\<rparr>)"
| recv_latency: "cp_receiver s d = RLatency \<Longrightarrow>
    chat_step s (s\<lparr>cp_receiver := (cp_receiver s)(d := RSelect),
      cp_collector := if 0 < cp_lastSend s d then AddMsgLatency (now - cp_lastSend s d) (cp_collector s) else cp_collector s\<rparr>)"
| receiver_ends: "cp_receiver s d = RSelect \<Longrightarrow> cp_expired s \<Longrightarrow> chat_step s (s\<lparr>cp_receiver := (cp_receiver s)(d := RGone)\<rparr>)"

definition chat_over :: "chat_phase \<Rightarrow> bool" where
  "chat_over s \<longleftrightarrow> (\<forall>d. cp_sender s d = SGone \<and> cp_receiver s d = RGone)"

text \<open>The increments that are due, and the messages that wait in the channels.\<close>

fun send_due :: "sender \<Rightarrow> int" where
  "send_due SLoad = 1" | "send_due (SStore n) = 1" | "send_due _ = 0"

fun recv_due :: "receiver \<Rightarrow> int" where
  "recv_due RLoad = 1" | "recv_due (RStore n) = 1" | "recv_due _ = 0"

definition sent_bound :: "chat_phase \<Rightarrow> int" where
  "sent_bound s = cp_totalSent s - (\<Sum>d \<in> UNIV. send_due (cp_sender s d))"

definition recv_bound :: "chat_phase \<Rightarrow> int" where
  "recv_bound s = cp_totalRecv s - (\<Sum>d \<in> UNIV. recv_due (cp_receiver s d)) - (\<Sum>d \<in> UNIV. int (cp_queue s d))"

lemma sum_side: "(\<Sum>x \<in> UNIV. f (if x = d then y else g x)) = (\<Sum>x \<in> UNIV. f (g x)) + f y - f (g d)" for f :: "'a \<Rightarrow> int" and d :: bool
  by (cases d) (simp_all add: UNIV_bool)

definition sent_ok :: "chat_phase \<Rightarrow> bool" where
  "sent_ok s \<longleftrightarrow> cp_msgSent s \<le> sent_bound s \<and> (\<forall>d n. cp_sender s d = SStore n \<longrightarrow> n \<le> sent_bound s)"

definition recv_ok :: "chat_phase \<Rightarrow> bool" where
  "recv_ok s \<longleftrightarrow> cp_msgRecv s \<le> recv_bound s \<and> (\<forall>d n. cp_receiver s d = RStore n \<longrightarrow> n \<le> recv_bound s)"

lemma sent_ok_step: "chat_step s s' \<Longrightarrow> sent_ok s \<Longrightarrow> sent_ok s'"
  by (induction rule: chat_step.induct) (auto simp: sent_ok_def sent_bound_def sum_side, fastforce)

lemma recv_mono:
  "recv_ok s \<Longrightarrow> cp_receiver s' = cp_receiver s \<Longrightarrow> cp_msgRecv s' = cp_msgRecv s \<Longrightarrow> recv_bound s \<le> recv_bound s' \<Longrightarrow> recv_ok s'"
  unfolding recv_ok_def by (metis order_trans)

lemma recv_ok_step: "chat_step s s' \<Longrightarrow> recv_ok s \<Longrightarrow> recv_ok s'"
proof (induction rule: chat_step.induct)
  case (arrives s d)
  have "int (min 99 (cp_queue s d)) \<le> int (cp_queue s d)" by simp
  then show ?case by (intro recv_mono [OF arrives]) (simp_all add: recv_bound_def sum_side)
qed (auto simp: recv_ok_def recv_bound_def sum_side of_nat_diff, fastforce+)


lemma due_nonneg: "0 \<le> send_due x" "0 \<le> recv_due y"
  by (cases x; simp) (cases y; simp)

text \<open>
  The counts a pair reports are never too high: in every interleaving of its goroutines the numbers in the result are at most the
  numbers of messages sent and received.
\<close>

lemma chat_counts_bounded:
  assumes "chat_step\<^sup>*\<^sup>* (chat_phase_start col) s"
  shows "cp_msgSent s \<le> cp_totalSent s \<and> cp_msgRecv s \<le> cp_totalRecv s"
proof -
  have "sent_ok (chat_phase_start col) \<and> recv_ok (chat_phase_start col)"
    by (simp add: chat_phase_start_def sent_ok_def sent_bound_def recv_ok_def recv_bound_def)
  with assms have "sent_ok s \<and> recv_ok s" by (induction rule: rtranclp_induct) (auto intro: sent_ok_step recv_ok_step)
  then have "cp_msgSent s \<le> sent_bound s" "cp_msgRecv s \<le> recv_bound s" by (simp_all add: sent_ok_def recv_ok_def)
  moreover have "sent_bound s \<le> cp_totalSent s" "recv_bound s \<le> cp_totalRecv s"
    using sum_nonneg [of UNIV "\<lambda>d. send_due (cp_sender s d)"] sum_nonneg [of UNIV "\<lambda>d. recv_due (cp_receiver s d)"]
      sum_nonneg [of UNIV "\<lambda>d. int (cp_queue s d)"] due_nonneg by (simp_all add: sent_bound_def recv_bound_def)
  ultimately show ?thesis by simp
qed

text \<open>They may be too low: two messages are sent and one is counted, because both senders read the count before either writes it.\<close>

definition lost_update :: chat_phase where
  "lost_update = (chat_phase_start NewCollector)\<lparr>cp_totalSent := 2, cp_msgSent := 1, cp_lastSend := (\<lambda>d. 5)\<rparr>"

definition sides :: "'a \<Rightarrow> 'a \<Rightarrow> bool \<Rightarrow> 'a" where
  "sides x y d = (if d then y else x)"

lemma sides_simps: "(sides x y)(False := z) = sides z y" "(sides x y)(True := z) = sides x z" "sides x y False = x" "sides x y True = y"
  by (auto simp: sides_def fun_eq_iff)

lemma lost_update_reached: "chat_step\<^sup>*\<^sup>* (chat_phase_start NewCollector) lost_update"
proof -
  let ?r = "\<lambda>x y l m t n. (chat_phase_start NewCollector)\<lparr>cp_totalSent := t, cp_msgSent := n, cp_sender := sides x y, cp_lastSend := sides l m\<rparr>"
  note [trans] = rtranclp.rtrancl_into_rtrancl
  have "chat_step\<^sup>*\<^sup>* (chat_phase_start NewCollector) (?r SSelect SSelect 0 0 0 0)" by (simp add: chat_phase_start_def sides_def [abs_def])
  also have "chat_step \<dots> (?r SSend SSelect 5 0 0 0)" using send_tick [of "?r SSelect SSelect 0 0 0 0" False 5] by (simp add: sides_simps chat_phase_start_def)
  also have "chat_step \<dots> (?r SLoad SSelect 5 0 1 0)" using sent [of "?r SSend SSelect 5 0 0 0" False] by (simp add: sides_simps chat_phase_start_def)
  also have "chat_step \<dots> (?r (SStore 0) SSelect 5 0 1 0)" using sent_load [of "?r SLoad SSelect 5 0 1 0" False] by (simp add: sides_simps chat_phase_start_def)
  also have "chat_step \<dots> (?r (SStore 0) SSend 5 5 1 0)" using send_tick [of "?r (SStore 0) SSelect 5 0 1 0" True 5] by (simp add: sides_simps chat_phase_start_def)
  also have "chat_step \<dots> (?r (SStore 0) SLoad 5 5 2 0)" using sent [of "?r (SStore 0) SSend 5 5 1 0" True] by (simp add: sides_simps chat_phase_start_def)
  also have "chat_step \<dots> (?r (SStore 0) (SStore 0) 5 5 2 0)" using sent_load [of "?r (SStore 0) SLoad 5 5 2 0" True] by (simp add: sides_simps chat_phase_start_def)
  also have "chat_step \<dots> (?r SSelect (SStore 0) 5 5 2 1)" using sent_store [of "?r (SStore 0) (SStore 0) 5 5 2 0" False 0] by (simp add: sides_simps chat_phase_start_def)
  also have "chat_step \<dots> (?r SSelect SSelect 5 5 2 1)" using sent_store [of "?r SSelect (SStore 0) 5 5 2 1" True 0] by (simp add: sides_simps chat_phase_start_def)
  finally show ?thesis by (simp add: lost_update_def chat_phase_start_def sides_def [abs_def])
qed

lemma lost_update_undercounts: "cp_totalSent lost_update = 2 \<and> cp_msgSent lost_update = 1"
  by (simp add: lost_update_def)


section \<open>A pair\<close>

record pairResult =
  pr_matched :: bool
  pr_chatStarted :: bool
  pr_msgSent :: int
  pr_msgRecv :: int
  pr_endedCleanly :: bool
  pr_matchLatency :: Duration

definition no_result :: pairResult where
  "no_result = \<lparr>pr_matched = False, pr_chatStarted = False, pr_msgSent = 0, pr_msgRecv = 0, pr_endedCleanly = False, pr_matchLatency = 0\<rparr>"

record pair_totals =
  totalMsgSent :: int
  totalMsgRecv :: int
  activePairCount :: int
  completedPairs :: int
  errorCount :: int
  pair_collector :: Collector

text \<open>
  What a pair gets from its two clients and the clock: the result of a \<open>Send\<close>, the chat a \<open>match_found\<close> brings before the deadline,
  whether \<open>match_accepted\<close> comes before it, the time since the search began, the state in which the goroutines of the chat
  end, and whether \<open>partner_left\<close> comes within five seconds.
\<close>

record 'e match_env =
  pe_send :: "bool \<Rightarrow> json \<Rightarrow> 'e \<Rightarrow> error option \<times> 'e"
  pe_found :: "bool \<Rightarrow> 'e \<Rightarrow> string option \<times> 'e"
  pe_accepted :: "bool \<Rightarrow> 'e \<Rightarrow> bool \<times> 'e"

record 'e pair_env = "'e match_env" +
  pe_elapsed :: "'e \<Rightarrow> Duration"
  pe_chat :: "string \<Rightarrow> string \<Rightarrow> Collector \<Rightarrow> 'e \<Rightarrow> chat_phase \<times> 'e"
  pe_left :: "'e \<Rightarrow> bool \<times> 'e"

definition pair_error :: "pair_totals \<Rightarrow> pair_totals" where
  "pair_error t = t\<lparr>errorCount := errorCount t + 1, pair_collector := AddError (pair_collector t)\<rparr>"

text \<open>The deferred increment.\<close>

definition pair_return :: "pairResult \<Rightarrow> pair_totals \<Rightarrow> 'e \<Rightarrow> pairResult \<times> pair_totals \<times> 'e" where
  "pair_return r t e = (r, t\<lparr>completedPairs := completedPairs t + 1\<rparr>, e)"

definition pair_match :: "string list \<Rightarrow> ('e, 'z) match_env_scheme \<Rightarrow> 'e \<Rightarrow> (string \<times> string) option \<times> 'e" where
  "pair_match tags P e =
     (case pe_send P False (find_match_map tags) e of
        (Some err, e1) \<Rightarrow> (None, e1)
      | (None, e1) \<Rightarrow>
     (case pe_send P True (find_match_map tags) e1 of
        (Some err, e2) \<Rightarrow> (None, e2)
      | (None, e2) \<Rightarrow>
     (case pe_found P False e2 of
        (None, e3) \<Rightarrow> (None, e3)
      | (Some chatID1, e3) \<Rightarrow>
     (case pe_found P True e3 of
        (None, e4) \<Rightarrow> (None, e4)
      | (Some chatID2, e4) \<Rightarrow>
     (case pe_send P False (accept_match_map chatID1) e4 of
        (Some err, e5) \<Rightarrow> (None, e5)
      | (None, e5) \<Rightarrow>
     (case pe_send P True (accept_match_map chatID2) e5 of
        (Some err, e6) \<Rightarrow> (None, e6)
      | (None, e6) \<Rightarrow>
     (case pe_accepted P False e6 of
        (False, e7) \<Rightarrow> (None, e7)
      | (True, e7) \<Rightarrow>
     (case pe_accepted P True e7 of
        (False, e8) \<Rightarrow> (None, e8)
      | (True, e8) \<Rightarrow> (Some (chatID1, chatID2), e8)))))))))"

definition pair_end :: "'e pair_env \<Rightarrow> string \<Rightarrow> pairResult \<Rightarrow> pair_totals \<Rightarrow> 'e \<Rightarrow> pairResult \<times> pair_totals \<times> 'e" where
  "pair_end P chatID1 r t e =
     (case pe_send P False (end_chat_map chatID1) e of
        (Some err, e1) \<Rightarrow> (r, pair_error t, e1)
      | (None, e1) \<Rightarrow>
          (case pe_left P e1 of
             (True, e2) \<Rightarrow> (r\<lparr>pr_endedCleanly := True\<rparr>, t, e2)
           | (False, e2) \<Rightarrow> (r, pair_error t, e2)))"

definition runPair :: "'e pair_env \<Rightarrow> pair_totals \<Rightarrow> 'e \<Rightarrow> pairResult \<times> pair_totals \<times> 'e" where
  "runPair P t e =
     (case pair_match [] P e of
        (None, e1) \<Rightarrow> pair_return no_result (pair_error t) e1
      | (Some (chatID1, chatID2), e1) \<Rightarrow>
          (let latency = pe_elapsed P e1;
               r1 = no_result\<lparr>pr_matched := True, pr_matchLatency := latency, pr_chatStarted := True\<rparr>;
               t1 = t\<lparr>pair_collector := AddMsgLatency latency (pair_collector t), activePairCount := activePairCount t + 1\<rparr>;
               (s, e2) = pe_chat P chatID1 chatID2 (pair_collector t1) e1;
               r2 = r1\<lparr>pr_msgSent := cp_msgSent s, pr_msgRecv := cp_msgRecv s\<rparr>;
               t2 = t1\<lparr>totalMsgSent := totalMsgSent t1 + cp_totalSent s, totalMsgRecv := totalMsgRecv t1 + cp_totalRecv s,
                  errorCount := errorCount t1 + cp_errors s, pair_collector := cp_collector s\<rparr>;
               (r3, t3, e3) = pair_end P chatID1 r2 t2 e2
           in pair_return r3 (t3\<lparr>activePairCount := activePairCount t3 - 1\<rparr>) e3))"

lemma chat_errors:
  "chat_step s s' \<Longrightarrow> 0 \<le> cp_errors s \<and> ErrorCount (cp_collector s) = k + cp_errors s \<Longrightarrow>
   0 \<le> cp_errors s' \<and> ErrorCount (cp_collector s') = k + cp_errors s'"
  by (induction rule: chat_step.induct) (simp_all add: ErrorCount_def AddError_def AddMsgLatency_def)

lemma chat_phase_errors:
  assumes "chat_step\<^sup>*\<^sup>* (chat_phase_start col) s"
  shows "0 \<le> cp_errors s \<and> ErrorCount (cp_collector s) = ErrorCount col + cp_errors s"
proof -
  have "0 \<le> cp_errors (chat_phase_start col) \<and> ErrorCount (cp_collector (chat_phase_start col)) = ErrorCount col + cp_errors (chat_phase_start col)"
    by (simp add: chat_phase_start_def)
  with assms show ?thesis by (induction rule: rtranclp_induct) (auto dest: chat_errors)
qed

text \<open>
  C38.  What a pair of the load test reports is right.  If the goroutines of the chat take one of their possible courses, then, whatever
  the clients see, the pair is counted as completed once and as active no longer, both error counters have grown by the same number, they
  have grown unless the chat ended cleanly, a chat that ended cleanly was matched and started, and the messages reported are at most those
  that were sent and received.
\<close>

theorem runPair_reports:
  assumes "\<And>i j col e. chat_step\<^sup>*\<^sup>* (chat_phase_start col) (fst (pe_chat P i j col e))" and "runPair P t e = (r, t', e')"
  shows "completedPairs t' = completedPairs t + 1 \<and> activePairCount t' = activePairCount t \<and>
    ErrorCount (pair_collector t') - ErrorCount (pair_collector t) = errorCount t' - errorCount t \<and> errorCount t \<le> errorCount t' \<and>
    (\<not> pr_endedCleanly r \<longrightarrow> errorCount t < errorCount t') \<and> (pr_endedCleanly r \<longrightarrow> pr_matched r \<and> pr_chatStarted r) \<and>
    pr_msgSent r \<le> totalMsgSent t' - totalMsgSent t \<and> pr_msgRecv r \<le> totalMsgRecv t' - totalMsgRecv t"
proof (cases "fst (pair_match [] P e)")
  case None
  with assms(2) show ?thesis
    by (auto simp: runPair_def pair_return_def pair_error_def no_result_def ErrorCount_def AddError_def split: prod.splits)
next
  case (Some ids)
  obtain i j e1 where m: "pair_match [] P e = (Some (i, j), e1)" using Some by (cases "pair_match [] P e"; cases ids) auto
  let ?col = "AddMsgLatency (pe_elapsed P e1) (pair_collector t)"
  obtain s e2 where s: "pe_chat P i j ?col e1 = (s, e2)" by fastforce
  then have reach: "chat_step\<^sup>*\<^sup>* (chat_phase_start ?col) s" using assms(1) [of ?col i j e1] by simp
  have c: "ErrorCount ?col = ErrorCount (pair_collector t)" by (simp add: ErrorCount_def AddMsgLatency_def)
  note F = chat_phase_errors [OF reach, unfolded c] chat_counts_bounded [OF reach]
  from assms(2) F show ?thesis
    by (auto simp: runPair_def m s pair_end_def pair_return_def pair_error_def no_result_def ErrorCount_def AddError_def Let_def
        split: prod.splits option.splits bool.splits)
qed


text \<open>A pair that is matched, sends two messages of which one is counted, and ends.\<close>

definition pair_ref :: "unit pair_env" where
  "pair_ref = \<lparr>pe_send = (\<lambda>d j e. (None, e)), pe_found = (\<lambda>d e. (Some ''c'', e)), pe_accepted = (\<lambda>d e. (True, e)), pe_elapsed = (\<lambda>e. 9),
     pe_chat = (\<lambda>i j col e. (if col = NewCollector then lost_update else chat_phase_start col, e)), pe_left = (\<lambda>e. (True, e))\<rparr>"

definition no_totals :: pair_totals where
  "no_totals = \<lparr>totalMsgSent = 0, totalMsgRecv = 0, activePairCount = 0, completedPairs = 0, errorCount = 0, pair_collector = NewCollector\<rparr>"

theorem runPair_reports_witness:
  "\<exists>r t e. runPair pair_ref no_totals () = (r, t, e) \<and> pr_endedCleanly r \<and> pr_matched r \<and> completedPairs t = 1 \<and> errorCount t = 0"
proof -
  obtain r t e where p: "runPair pair_ref no_totals () = (r, t, e)" by (cases "runPair pair_ref no_totals ()") auto
  have c: "chat_step\<^sup>*\<^sup>* (chat_phase_start col) (fst (pe_chat pair_ref i j col u))" for i j col u
    using lost_update_reached by (simp add: pair_ref_def)
  have e: "pr_endedCleanly r" "errorCount t = 0"
    using p by (auto simp: runPair_def pair_match_def pair_end_def pair_return_def pair_ref_def no_totals_def chat_phase_start_def Let_def
        lost_update_def AddMsgLatency_def NewCollector_def split: if_splits)
  with runPair_reports [OF c p] p show ?thesis by (simp add: no_totals_def)
qed

text \<open>The clients a chat test works with, the one it closes when their number is odd, and the pairs.\<close>

definition pair_up :: "'c list \<Rightarrow> ('c \<times> 'c) list \<times> 'c list" where
  "pair_up cs =
     (let n = length cs; kept = (if n mod 2 \<noteq> 0 then take (n - 1) cs else cs); extra = (if n mod 2 \<noteq> 0 then [cs ! (n - 1)] else [])
      in (map (\<lambda>i. (kept ! (i * 2), kept ! (i * 2 + 1))) [0..<length kept div 2], extra))"

lemma pair_up_disjoint:
  assumes "distinct cs" "fst (pair_up cs) ! i = (a, b)" "fst (pair_up cs) ! j = (c, d)" "i < j" "j < length (fst (pair_up cs))"
  shows "{a, b} \<inter> {c, d} = {} \<and> a \<noteq> b \<and> c \<noteq> d"
proof -
  define k where "k = (if length cs mod 2 \<noteq> 0 then take (length cs - 1) cs else cs)"
  have k: "distinct k" using assms(1) by (simp add: k_def)
  have p: "fst (pair_up cs) = map (\<lambda>i. (k ! (i * 2), k ! (i * 2 + 1))) [0..<length k div 2]" by (simp add: pair_up_def k_def Let_def)
  have j: "j < length k div 2" using assms(5) by (simp add: p)
  then have "j * 2 + 1 < length k" by linarith
  moreover have "a = k ! (i * 2)" "b = k ! (i * 2 + 1)" "c = k ! (j * 2)" "d = k ! (j * 2 + 1)" using assms(2-4) j by (simp_all add: p)
  ultimately show ?thesis using k assms(4) by (auto simp: nth_eq_iff_index_eq)
qed

text \<open>The totals of the final report: clean ends, messages sent and received, pairs matched, the sum of their latencies.\<close>

fun chat_summary :: "pairResult list \<Rightarrow> int \<times> int \<times> int \<times> int \<times> Duration" where
  "chat_summary [] = (0, 0, 0, 0, 0)"
| "chat_summary (r # rs) =
     (let (ended, sent, recv, matched, latency) = chat_summary rs
      in (if pr_endedCleanly r then ended + 1 else ended, sent + pr_msgSent r, recv + pr_msgRecv r,
          if pr_matched r then matched + 1 else matched, if pr_matched r then latency + pr_matchLatency r else latency))"

definition avg_match :: "pairResult list \<Rightarrow> Duration option" where
  "avg_match rs = (let (ended, sent, recv, matched, latency) = chat_summary rs in if 0 < matched then Some (go_div latency matched) else None)"

lemma chat_summary_bounds:
  "list_all (\<lambda>r. pr_endedCleanly r \<longrightarrow> pr_matched r) rs \<Longrightarrow> chat_summary rs = (ended, sent, recv, matched, latency) \<Longrightarrow>
   0 \<le> ended \<and> ended \<le> matched \<and> matched \<le> int (length rs)"
proof (induction rs arbitrary: ended sent recv matched latency)
  case (Cons r rs)
  obtain a b c d l where "chat_summary rs = (a, b, c, d, l)" by (cases "chat_summary rs") auto
  with Cons show ?case by fastforce
qed simp

section \<open>Matching\<close>

text \<open>The chat that a \<open>match_found\<close> names.\<close>

definition found_chat_id :: "string \<Rightarrow> string option" where
  "found_chat_id raw =
     (case Unmarshal [(''chat_id'', FStr [])] raw of
        Inl err \<Rightarrow> None
      | Inr msg \<Rightarrow> if str_field msg ''chat_id'' \<noteq> [] then Some (str_field msg ''chat_id'') else None)"

text \<open>A handler of a pair offers to a channel with room for one value, and drops what does not fit.\<close>

definition pair_found_handler :: "string \<Rightarrow> string option \<Rightarrow> string option" where
  "pair_found_handler raw channel =
     (case found_chat_id raw of None \<Rightarrow> channel | Some chatID \<Rightarrow> (case channel of None \<Rightarrow> Some chatID | Some i \<Rightarrow> Some i))"

lemma pair_found_first: "channel \<noteq> None \<Longrightarrow> pair_found_handler raw channel = channel"
  by (auto simp: pair_found_handler_def split: option.split)

datatype match_wait = AwaitMatch | AwaitAccept | WaitOver

record match_client =
  matchDone :: bool
  acceptDone :: bool
  match_pc :: match_wait
  match_frames :: "json list"

record match_phase =
  activeClients :: "match_client list"
  matchedCount :: int
  acceptedCount :: int
  match_collector :: Collector
  match_panicked :: bool

definition update_client :: "nat \<Rightarrow> (match_client \<Rightarrow> match_client) \<Rightarrow> match_phase \<Rightarrow> match_phase" where
  "update_client i f m = m\<lparr>activeClients := (activeClients m)[i := f (activeClients m ! i)]\<rparr>"

text \<open>Closing a channel twice panics.\<close>

definition match_found_handler :: "nat \<Rightarrow> Duration \<Rightarrow> string \<Rightarrow> match_phase \<Rightarrow> match_phase" where
  "match_found_handler i latency raw m =
     (let m1 = m\<lparr>match_collector := AddMsgLatency latency (match_collector m), matchedCount := matchedCount m + 1\<rparr>;
          m2 = (case found_chat_id raw of
              None \<Rightarrow> m1
            | Some chatID \<Rightarrow> update_client i (\<lambda>c. c\<lparr>match_frames := match_frames c @ [accept_match_map chatID]\<rparr>) m1)
      in if matchDone (activeClients m2 ! i) then m2\<lparr>match_panicked := True\<rparr> else update_client i (\<lambda>c. c\<lparr>matchDone := True\<rparr>) m2)"

definition match_accepted_handler :: "nat \<Rightarrow> match_phase \<Rightarrow> match_phase" where
  "match_accepted_handler i m =
     (let m1 = m\<lparr>acceptedCount := acceptedCount m + 1\<rparr>
      in if acceptDone (activeClients m1 ! i) then m1\<lparr>match_panicked := True\<rparr> else update_client i (\<lambda>c. c\<lparr>acceptDone := True\<rparr>) m1)"

text \<open>
  The loop over the clients and what their handlers and goroutines do; \<open>n\<close> clients are connected.
\<close>

inductive match_step :: "nat \<Rightarrow> string list \<Rightarrow> match_phase \<Rightarrow> match_phase \<Rightarrow> bool" for n interestTags where
  search: "\<not> match_panicked m \<Longrightarrow> length (activeClients m) < n \<Longrightarrow> col \<in> {match_collector m, AddError (match_collector m)} \<Longrightarrow>
    match_step n interestTags m (m\<lparr>activeClients := activeClients m @
      [\<lparr>matchDone = False, acceptDone = False, match_pc = AwaitMatch, match_frames = [find_match_map interestTags]\<rparr>], match_collector := col\<rparr>)"
| match_found: "\<not> match_panicked m \<Longrightarrow> i < length (activeClients m) \<Longrightarrow> match_step n interestTags m (match_found_handler i latency raw m)"
| match_accepted: "\<not> match_panicked m \<Longrightarrow> i < length (activeClients m) \<Longrightarrow> match_step n interestTags m (match_accepted_handler i m)"
| wait_found: "\<not> match_panicked m \<Longrightarrow> i < length (activeClients m) \<Longrightarrow> match_pc (activeClients m ! i) = AwaitMatch \<Longrightarrow>
    matchDone (activeClients m ! i) \<Longrightarrow> match_step n interestTags m (update_client i (\<lambda>c. c\<lparr>match_pc := AwaitAccept\<rparr>) m)"
| wait_accepted: "\<not> match_panicked m \<Longrightarrow> i < length (activeClients m) \<Longrightarrow> match_pc (activeClients m ! i) = AwaitAccept \<Longrightarrow>
    acceptDone (activeClients m ! i) \<Longrightarrow> match_step n interestTags m (update_client i (\<lambda>c. c\<lparr>match_pc := WaitOver\<rparr>) m)"
| wait_timeout: "\<not> match_panicked m \<Longrightarrow> i < length (activeClients m) \<Longrightarrow> match_pc (activeClients m ! i) \<noteq> WaitOver \<Longrightarrow>
    match_step n interestTags m (update_client i (\<lambda>c. c\<lparr>match_pc := WaitOver\<rparr>) (m\<lparr>match_collector := AddError (match_collector m)\<rparr>))"
| wait_cancelled: "\<not> match_panicked m \<Longrightarrow> i < length (activeClients m) \<Longrightarrow> match_pc (activeClients m ! i) \<noteq> WaitOver \<Longrightarrow>
    match_step n interestTags m (update_client i (\<lambda>c. c\<lparr>match_pc := WaitOver\<rparr>) m)"

definition match_counts :: "nat \<Rightarrow> match_phase \<Rightarrow> bool" where
  "match_counts n m \<longleftrightarrow> length (activeClients m) \<le> n \<and>
     (\<not> match_panicked m \<longrightarrow>
        matchedCount m = int (tally matchDone (activeClients m)) \<and> acceptedCount m = int (tally acceptDone (activeClients m)))"

lemma match_counts_step: "match_step n tags m m' \<Longrightarrow> match_counts n m \<Longrightarrow> match_counts n m'"
  by (induction rule: match_step.induct)
     (auto simp: match_counts_def match_found_handler_def match_accepted_handler_def update_client_def int_tally_update Let_def split: option.split)


definition match_start :: "Collector \<Rightarrow> match_phase" where
  "match_start col = \<lparr>activeClients = [], matchedCount = 0, acceptedCount = 0, match_collector = col, match_panicked = False\<rparr>"

text \<open>Pairs, clients matched and clients accepted in the final report.\<close>

definition match_results :: "match_phase \<Rightarrow> int \<times> int \<times> int" where
  "match_results m = (go_div (acceptedCount m) 2, matchedCount m, acceptedCount m)"

text \<open>
  The numbers of the final report: as long as no client gets a message a second time, the clients counted as matched and as accepted are
  those that have been matched and accepted, and no more pairs are reported than there are.
\<close>

lemma match_report:
  assumes "(match_step n tags)\<^sup>*\<^sup>* (match_start col) m" "\<not> match_panicked m"
  shows "matchedCount m = int (tally matchDone (activeClients m)) \<and> acceptedCount m = int (tally acceptDone (activeClients m)) \<and>
    2 * fst (match_results m) \<le> int n"
proof -
  have "match_counts n (match_start col)" by (simp add: match_counts_def match_start_def)
  with assms(1) have c: "match_counts n m" by (induction rule: rtranclp_induct) (auto intro: match_counts_step)
  have "tally acceptDone (activeClients m) \<le> length (activeClients m)" by (simp add: tally_def)
  with c assms(2) have "acceptedCount m \<le> int n" by (simp add: match_counts_def)
  moreover have "0 \<le> acceptedCount m" using c assms(2) by (simp add: match_counts_def)
  then have "2 * fst (match_results m) \<le> acceptedCount m" by (auto simp: match_results_def go_div_def sgn_if)
  ultimately show ?thesis using c assms(2) by (simp add: match_counts_def)
qed

text \<open>A second message of either kind makes a handler close a closed channel, which ends the whole load test.\<close>

lemma second_message_panics:
  "i < length (activeClients m) \<Longrightarrow> matchDone (activeClients m ! i) \<Longrightarrow> match_panicked (match_found_handler i latency raw m)"
  "acceptDone (activeClients m ! i) \<Longrightarrow> match_panicked (match_accepted_handler i m)"
  by (simp_all add: match_found_handler_def match_accepted_handler_def update_client_def Let_def split: option.split)

lemma match_found_text:
  assumes "valid_server (MatchFoundMsg i x n)"
  shows "NewServerMessage TypeMatchFound (MatchFoundMsg i x n) =
    Inr (json_text (JObj [(''accept_deadline'', JInt n), (''chat_id'', JStr i), (''shared_interests'', JStrs x), (''type'', JStr TypeMatchFound)]))"
  using marshal_server_props [OF assms]
  by (simp add: NewServerMessage_def Let_def json_parse_text del: json_text.simps)

lemma offer_understood:
  assumes "valid_server (MatchFoundMsg i x n)" "i \<noteq> []" "NewServerMessage TypeMatchFound (MatchFoundMsg i x n) = Inr out"
  shows "found_chat_id out = Some i"
proof -
  let ?j = "JObj [(''accept_deadline'', JInt n), (''chat_id'', JStr i), (''shared_interests'', JStrs x), (''type'', JStr TypeMatchFound)]"
  have w: "wf_json 10000 ?j" using assms(1) by (simp add: valid_ascii byte_def TypeMatchFound_def)
  have "decode_doc [(''chat_id'', FStr [])] ?j = Inr [(''chat_id'', FStr i)]"
    by (simp add: decode_doc_def find_field_def fold_name_def runes_ascii byte_def fold_rune_def)
  with Unmarshal_text [OF w] match_found_text [OF assms(1)] assms(2,3) show ?thesis
    by (auto simp: found_chat_id_def str_field_def simp del: json_text.simps)
qed

text \<open>
  The load test's clients speak the server's language.  The handler of \<open>match_found\<close> understands the frame the server writes for a match and
  answers with one frame, which the server's parser reads as the acceptance of exactly this chat; and the frames with which
  the scenarios search, send and leave are read as they are meant.
\<close>

lemma client_accepts_offer:
  assumes "valid_server (MatchFoundMsg i x n)" and "i \<noteq> []" and "NewServerMessage TypeMatchFound (MatchFoundMsg i x n) = Inr out"
    and "k < length (activeClients m)" and "\<not> matchDone (activeClients m ! k)" and "ValidString txt" and "list_all ValidString tags"
  shows "\<exists>frame. match_frames (activeClients (match_found_handler k latency out m) ! k) = match_frames (activeClients m ! k) @ [frame] \<and>
    ParseClientMessage (json_text frame) = (TypeAcceptMatch, Inr (AcceptMatchMsg i)) \<and>
    ParseClientMessage (json_text (find_match_map tags)) = (TypeFindMatch, Inr (FindMatchMsg (Some tags))) \<and>
    ParseClientMessage (json_text (message_map i txt)) = (TypeMessage, Inr (ChatMsg i txt)) \<and>
    ParseClientMessage (json_text (end_chat_map i)) = (TypeEndChat, Inr (EndChatMsg i))"
proof -
  have "match_frames (activeClients (match_found_handler k latency out m) ! k) = match_frames (activeClients m ! k) @ [accept_match_map i]"
    using offer_understood [OF assms(1-3)] assms(4,5) by (simp add: match_found_handler_def update_client_def Let_def)
  then show ?thesis
    unfolding maps_are_frames using assms client_frame_understood [of "AcceptMatchMsg i"] client_frame_understood [of "FindMatchMsg (Some tags)"]
      client_frame_understood [of "ChatMsg i txt"] client_frame_understood [of "EndChatMsg i"] by auto
qed

lemma client_accepts_offer_witness:
  "\<exists>out frame. NewServerMessage TypeMatchFound (MatchFoundMsg ''c'' (Some [''go'']) 15) = Inr out \<and>
    match_frames (activeClients (match_found_handler 0 9 out (match_start NewCollector\<lparr>activeClients :=
      [\<lparr>matchDone = False, acceptDone = False, match_pc = AwaitMatch, match_frames = []\<rparr>]\<rparr>)) ! 0) = [frame] \<and>
    ParseClientMessage (json_text frame) = (TypeAcceptMatch, Inr (AcceptMatchMsg ''c''))"
proof -
  let ?m = "match_start NewCollector\<lparr>activeClients := [\<lparr>matchDone = False, acceptDone = False, match_pc = AwaitMatch, match_frames = []\<rparr>]\<rparr>"
  have v: "valid_server (MatchFoundMsg ''c'' (Some [''go'']) 15)" by (simp add: valid_ascii byte_def)
  obtain out where out: "NewServerMessage TypeMatchFound (MatchFoundMsg ''c'' (Some [''go'']) 15) = Inr out"
    using match_found_text [OF v] by simp
  from client_accepts_offer [OF v _ out, of 0 ?m "''hi''" "[]" 9] out show ?thesis by (auto simp: valid_ascii byte_def)
qed

end
