(* ===== verification/EndToEnd.thy ===== *)
theory EndToEnd
  imports Scenarios
begin

text \<open>
  The end-to-end test (\<open>loadtest/cmd/e2etest/main.go\<close>): seven scenarios against a running server, each with the outcome it reports.  The
  texts that explain an outcome are only printed and are left out, except for the errors of the HTTP helpers.
\<close>

section \<open>The surroundings\<close>

text \<open>
  What the test gets from its clients, given by the index of the client, from the clock and from the HTTP server.  A wait ends with what has
  arrived, or with nothing when the time is over.  \<open>http_get\<close> gives an error, or the status and what reading the body gives.
\<close>

record ('c, 'e) e2e_env =
  e2e_new :: "'e \<Rightarrow> (error + 'c) \<times> 'e"
  e2e_session :: "'c \<Rightarrow> 'e \<Rightarrow> error option \<times> 'e"
  e2e_sid :: "'c \<Rightarrow> 'e \<Rightarrow> string"
  e2e_send :: "'c \<Rightarrow> json \<Rightarrow> 'e \<Rightarrow> error option \<times> 'e"
  e2e_close :: "'c \<Rightarrow> 'e \<Rightarrow> 'e"
  e2e_found :: "'c \<Rightarrow> 'e \<Rightarrow> string option \<times> 'e"
  e2e_accepted :: "'c \<Rightarrow> 'e \<Rightarrow> bool \<times> 'e"
  e2e_text :: "'c \<Rightarrow> 'e \<Rightarrow> string option \<times> 'e"
  e2e_left :: "'c \<Rightarrow> 'e \<Rightarrow> bool \<times> 'e"
  e2e_limited :: "'c \<Rightarrow> 'e \<Rightarrow> bool \<times> 'e"
  e2e_blocked :: "'c \<Rightarrow> 'e \<Rightarrow> bool \<times> 'e"
  http_get :: "string \<Rightarrow> 'e \<Rightarrow> (error + int \<times> string result) \<times> 'e"

section \<open>Scenarios\<close>

datatype resultKind = resultPass | resultFail | resultInfo

record scenarioResult =
  sr_name :: string
  sr_kind :: resultKind

definition tag :: "scenarioResult \<Rightarrow> string" where
  "tag r = (case sr_kind r of resultPass \<Rightarrow> ''PASS'' | resultFail \<Rightarrow> ''FAIL'' | resultInfo \<Rightarrow> ''INFO'')"

abbreviation scenario :: "string \<Rightarrow> resultKind \<Rightarrow> scenarioResult" where
  "scenario name kind \<equiv> \<lparr>sr_name = name, sr_kind = kind\<rparr>"

definition httpGetExpectOK :: "('c, 'e) e2e_env \<Rightarrow> string \<Rightarrow> 'e \<Rightarrow> error option \<times> 'e" where
  "httpGetExpectOK E url e =
     (case http_get E url e of
        (Inl err, e1) \<Rightarrow> (Some (ErrWrap (''GET '' @ url) err), e1)
      | (Inr (status, body), e1) \<Rightarrow>
          (if status \<noteq> 200 then Some (ErrText (''GET '' @ url @ '': status '' @ show_int status)) else None, e1))"

definition httpGetBody :: "('c, 'e) e2e_env \<Rightarrow> string \<Rightarrow> 'e \<Rightarrow> string result \<times> 'e" where
  "httpGetBody E url e =
     (case http_get E url e of
        (Inl err, e1) \<Rightarrow> (Inl (ErrWrap (''GET '' @ url) err), e1)
      | (Inr (status, body), e1) \<Rightarrow>
          (if status \<noteq> 200 then Inl (ErrText (''GET '' @ url @ '': status '' @ show_int status))
           else (case body of Inl err \<Rightarrow> Inl (ErrWrap ''read body'' err) | Inr b \<Rightarrow> Inr b), e1))"

definition truncateID :: "string \<Rightarrow> string" where
  "truncateID i = (if 8 < length i then take 8 i else i)"

definition scenario1HealthCheck :: "('c, 'e) e2e_env \<Rightarrow> string \<Rightarrow> 'e \<Rightarrow> scenarioResult \<times> 'e" where
  "scenario1HealthCheck E apiBase e =
     (let name = ''Scenario 1: Health Check''
      in case httpGetExpectOK E (apiBase @ ''/health'') e of
           (Some err, e1) \<Rightarrow> (scenario name resultFail, e1)
         | (None, e1) \<Rightarrow>
        (case httpGetBody E (apiBase @ ''/api/online'') e1 of
           (Inl err, e2) \<Rightarrow> (scenario name resultFail, e2)
         | (Inr body, e2) \<Rightarrow>
        (case Unmarshal [(''count'', FInt 0)] body of
           Inl err \<Rightarrow> (scenario name resultFail, e2)
         | Inr onlineResp \<Rightarrow>
        (case httpGetBody E (apiBase @ ''/metrics'') e2 of
           (Inl err, e3) \<Rightarrow> (scenario name resultFail, e3)
         | (Inr metricsBody, e3) \<Rightarrow>
             (scenario name (if \<not> Contains metricsBody ''whisper_connections_total'' then resultFail else resultPass), e3)))))"

text \<open>A deferred call of \<open>Close\<close> runs after the rest of the function.\<close>

definition deferred :: "('c, 'e) e2e_env \<Rightarrow> 'c \<Rightarrow> 'r \<times> 'e \<Rightarrow> 'r \<times> 'e" where
  "deferred E c x = (fst x, e2e_close E c (snd x))"

definition two_clients :: "('c, 'e) e2e_env \<Rightarrow> 'r \<Rightarrow> ('c \<Rightarrow> 'c \<Rightarrow> 'e \<Rightarrow> 'r \<times> 'e) \<Rightarrow> 'e \<Rightarrow> 'r \<times> 'e" where
  "two_clients E fail rest e =
     (case e2e_new E e of
        (Inl err, e1) \<Rightarrow> (fail, e1)
      | (Inr clientA, e1) \<Rightarrow> deferred E clientA
          (case e2e_new E e1 of
             (Inl err, e2) \<Rightarrow> (fail, e2)
           | (Inr clientB, e2) \<Rightarrow> deferred E clientB
               (case e2e_session E clientA e2 of
                  (Some err, e3) \<Rightarrow> (fail, e3)
                | (None, e3) \<Rightarrow>
                    (case e2e_session E clientB e3 of
                       (Some err, e4) \<Rightarrow> (fail, e4)
                     | (None, e4) \<Rightarrow> rest clientA clientB e4))))"

definition scenario2ConnectHandshake :: "('c, 'e) e2e_env \<Rightarrow> 'e \<Rightarrow> scenarioResult \<times> 'e" where
  "scenario2ConnectHandshake E e =
     (let name = ''Scenario 2: Connect and Handshake''
      in two_clients E (scenario name resultFail)
           (\<lambda>clientA clientB e4.
              (scenario name (if e2e_sid E clientA e4 = [] \<or> e2e_sid E clientB e4 = [] then resultFail else resultPass), e4)) e)"

definition pair_of :: "('c, 'e) e2e_env \<Rightarrow> 'c \<Rightarrow> 'c \<Rightarrow> 'e match_env" where
  "pair_of E clientA clientB = \<lparr>pe_send = (\<lambda>d. e2e_send E (if d then clientB else clientA)), pe_found = (\<lambda>d. e2e_found E (if d then clientB else clientA)),
     pe_accepted = (\<lambda>d. e2e_accepted E (if d then clientB else clientA))\<rparr>"

text \<open>One message from a client to the other, which must arrive as it was sent.\<close>

definition e2e_message :: "('c, 'e) e2e_env \<Rightarrow> 'c \<Rightarrow> 'c \<Rightarrow> string \<Rightarrow> string \<Rightarrow> 'e \<Rightarrow> bool \<times> 'e" where
  "e2e_message E sender receiver chatID txt e =
     (case e2e_send E sender (message_map chatID txt) e of
        (Some err, e1) \<Rightarrow> (False, e1)
      | (None, e1) \<Rightarrow>
          (case e2e_text E receiver e1 of
             (None, e2) \<Rightarrow> (False, e2)
           | (Some received, e2) \<Rightarrow> (received = txt, e2)))"

definition scenario345MatchChatEnd :: "('c, 'e) e2e_env \<Rightarrow> 'e \<Rightarrow> (scenarioResult \<times> scenarioResult \<times> scenarioResult) \<times> 'e" where
  "scenario345MatchChatEnd E e =
     (let s3Name = ''Scenario 3: Matching Flow''; s4Name = ''Scenario 4: Chat Messages''; s5Name = ''Scenario 5: End Chat'';
          failAll = (scenario s3Name resultFail, scenario s4Name resultFail, scenario s5Name resultFail);
          s3Result = scenario s3Name resultPass; s4Result = scenario s4Name resultPass;
          chatFailed = (s3Result, scenario s4Name resultFail, scenario s5Name resultFail);
          endFailed = (s3Result, s4Result, scenario s5Name resultFail)
      in two_clients E failAll
           (\<lambda>clientA clientB e0.
              (case pair_match [''music'', ''gaming''] (pair_of E clientA clientB) e0 of
                 (None, e1) \<Rightarrow> (failAll, e1)
               | (Some (chatIDA, chatIDB), e1) \<Rightarrow>
              (case e2e_message E clientA clientB chatIDA ''Hello from A'' e1 of
                 (False, e2) \<Rightarrow> (chatFailed, e2)
               | (True, e2) \<Rightarrow>
              (case e2e_message E clientB clientA chatIDB ''Hello from B'' e2 of
                 (False, e3) \<Rightarrow> (chatFailed, e3)
               | (True, e3) \<Rightarrow>
              (case e2e_send E clientA (end_chat_map chatIDA) e3 of
                 (Some err, e4) \<Rightarrow> (endFailed, e4)
               | (None, e4) \<Rightarrow>
              (case e2e_left E clientB e4 of
                 (False, e5) \<Rightarrow> (endFailed, e5)
               | (True, e5) \<Rightarrow>
                   ((s3Result, s4Result, scenario s5Name resultPass), e2e_close E clientB (e2e_close E clientA e5)))))))) e)"

definition connectAndMatch :: "('c, 'e) e2e_env \<Rightarrow> 'e \<Rightarrow> ('c \<times> 'c \<times> string \<times> string) option \<times> 'e" where
  "connectAndMatch E e =
     (case e2e_new E e of
        (Inl err, e1) \<Rightarrow> (None, e1)
      | (Inr clientA, e1) \<Rightarrow>
     (case e2e_new E e1 of
        (Inl err, e2) \<Rightarrow> (None, e2e_close E clientA e2)
      | (Inr clientB, e2) \<Rightarrow>
          (let abort = (\<lambda>e'. (None, e2e_close E clientB (e2e_close E clientA e')))
           in case e2e_session E clientA e2 of
                (Some err, e3) \<Rightarrow> abort e3
              | (None, e3) \<Rightarrow>
             (case e2e_session E clientB e3 of
                (Some err, e4) \<Rightarrow> abort e4
              | (None, e4) \<Rightarrow>
             (case pair_match [] (pair_of E clientA clientB) e4 of
                (None, e5) \<Rightarrow> abort e5
              | (Some (chatIDA, chatIDB), e5) \<Rightarrow> (Some (clientA, clientB, chatIDA, chatIDB), e5))))))"

text \<open>Up to \<open>n\<close> messages, until one cannot be sent; the number sent.\<close>

fun rapid :: "('c, 'e) e2e_env \<Rightarrow> 'c \<Rightarrow> string \<Rightarrow> nat \<Rightarrow> nat \<Rightarrow> 'e \<Rightarrow> nat \<times> 'e" where
  "rapid E c chatID i 0 e = (i, e)"
| "rapid E c chatID i (Suc n) e =
     (case e2e_send E c (message_map chatID (''rapid message '' @ show_nat (i + 1))) e of
        (Some err, e1) \<Rightarrow> (i, e1)
      | (None, e1) \<Rightarrow> rapid E c chatID (i + 1) n e1)"

definition scenario6RateLimiting :: "('c, 'e) e2e_env \<Rightarrow> 'e \<Rightarrow> scenarioResult \<times> 'e" where
  "scenario6RateLimiting E e =
     (let name = ''Scenario 6: Rate Limiting''
      in case connectAndMatch E e of
           (None, e1) \<Rightarrow> (scenario name resultInfo, e1)
         | (Some (clientA, clientB, chatIDA, chatIDB), e1) \<Rightarrow>
             deferred E clientA (deferred E clientB
               (let (sentCount, e2) = rapid E clientA chatIDA 0 10 e1; (limited, e3) = e2e_limited E clientA e2
                in (scenario name resultInfo, e3))))"

definition scenario7ContentFiltering :: "('c, 'e) e2e_env \<Rightarrow> 'e \<Rightarrow> scenarioResult \<times> 'e" where
  "scenario7ContentFiltering E e =
     (let name = ''Scenario 7: Content Filtering''
      in case connectAndMatch E e of
           (None, e1) \<Rightarrow> (scenario name resultInfo, e1)
         | (Some (clientA, clientB, chatIDA, chatIDB), e1) \<Rightarrow>
             deferred E clientA (deferred E clientB
               (case e2e_send E clientA (message_map chatIDA ''hey you should kill yourself'') e1 of
                  (Some err, e2) \<Rightarrow> (scenario name resultInfo, e2)
                | (None, e2) \<Rightarrow> (let (blocked, e3) = e2e_blocked E clientA e2 in (scenario name resultInfo, e3)))))"

definition e2e_main :: "('c, 'e) e2e_env \<Rightarrow> string \<Rightarrow> 'e \<Rightarrow> scenarioResult list \<times> int \<times> 'e" where
  "e2e_main E apiBase e =
     (let (s1, e1) = scenario1HealthCheck E apiBase e;
          (s2, e2) = scenario2ConnectHandshake E e1;
          ((s3, s4, s5), e3) = scenario345MatchChatEnd E e2;
          (s6, e4) = scenario6RateLimiting E e3;
          (s7, e5) = scenario7ContentFiltering E e4;
          results = [s1, s2, s3, s4, s5, s6, s7];
          failed = length (filter (\<lambda>r. sr_kind r = resultFail) results)
      in (results, if 0 < failed then 1 else 0, e5))"

section \<open>No connection is left open\<close>

text \<open>\<open>opened\<close> gives the connections that are open.\<close>

locale e2e_world =
  fixes E :: "('c, 'e) e2e_env" and opened :: "'e \<Rightarrow> 'c set"
  assumes new_ok: "e2e_new E e = (Inr c, e') \<Longrightarrow> c \<notin> opened e \<and> opened e' = insert c (opened e)"
    and new_err: "e2e_new E e = (Inl err, e') \<Longrightarrow> opened e' = opened e"
    and close_ok: "opened (e2e_close E c e) = opened e - {c}"
    and calls_keep: "opened (snd (e2e_session E c e)) = opened e" "opened (snd (e2e_send E c j e)) = opened e"
      "opened (snd (e2e_found E c e)) = opened e" "opened (snd (e2e_accepted E c e)) = opened e" "opened (snd (e2e_text E c e)) = opened e"
      "opened (snd (e2e_left E c e)) = opened e" "opened (snd (e2e_limited E c e)) = opened e" "opened (snd (e2e_blocked E c e)) = opened e"
      "opened (snd (http_get E url e)) = opened e"
begin

lemma pair_match_keeps: "opened (snd (pair_match tags (pair_of E a b) e)) = opened e"
  by (simp add: pair_match_def pair_of_def case_prod_beta calls_keep split: option.split bool.split)

lemma e2e_message_keeps: "opened (snd (e2e_message E a b i t e)) = opened e"
  by (simp add: e2e_message_def case_prod_beta calls_keep split: option.split)

lemma rapid_keeps: "opened (snd (rapid E c i k n e)) = opened e"
  by (induction n arbitrary: k e) (simp_all add: case_prod_beta calls_keep split: option.split)

lemma two_clients_close:
  assumes "\<And>a b e'. opened (snd (rest a b e')) \<subseteq> opened e' \<and> opened e' - {a, b} \<subseteq> opened (snd (rest a b e'))"
  shows "opened (snd (two_clients E fail rest e)) = opened e"
proof (cases "e2e_new E e")
  case (Pair x e1)
  show ?thesis
  proof (cases x)
    case (Inl err)
    with Pair new_err show ?thesis by (simp add: two_clients_def)
  next
    case (Inr a)
    have a: "a \<notin> opened e" "opened e1 = insert a (opened e)" using new_ok Pair Inr by auto
    obtain y e2 where y: "e2e_new E e1 = (y, e2)" by fastforce
    show ?thesis
    proof (cases y)
      case (Inl err)
      with Pair Inr y a new_err [of e1] show ?thesis by (simp add: two_clients_def deferred_def close_ok)
    next
      case (Inr b)
      have b: "b \<notin> opened e1" "opened e2 = insert b (opened e1)" using new_ok y Inr by auto
      define z where "z = (case e2e_session E a e2 of (Some err, e3) \<Rightarrow> (fail, e3)
        | (None, e3) \<Rightarrow> (case e2e_session E b e3 of (Some err, e4) \<Rightarrow> (fail, e4) | (None, e4) \<Rightarrow> rest a b e4))"
      have "opened (snd z) \<subseteq> opened e2 \<and> opened e2 - {a, b} \<subseteq> opened (snd z)"
        unfolding z_def using assms [of a b "snd (e2e_session E b (snd (e2e_session E a e2)))"]
        by (simp add: case_prod_beta calls_keep Diff_subset split: option.split)
      moreover have "two_clients E fail rest e = deferred E a (deferred E b z)"
        using Pair \<open>x = Inr a\<close> y Inr by (simp add: two_clients_def z_def)
      ultimately show ?thesis using a b by (auto simp: deferred_def close_ok)
    qed
  qed
qed


lemma connectAndMatch_opens:
  "case connectAndMatch E e of
     (None, e') \<Rightarrow> opened e' = opened e
   | (Some (a, b, i, j), e') \<Rightarrow> opened e' = opened e \<union> {a, b} \<and> a \<notin> opened e \<and> b \<notin> opened e"
proof -
  obtain x e1 where x: "e2e_new E e = (x, e1)" by fastforce
  show ?thesis
  proof (cases x)
    case (Inl err)
    with x new_err show ?thesis by (simp add: connectAndMatch_def)
  next
    case (Inr a)
    have a: "a \<notin> opened e" "opened e1 = insert a (opened e)" using new_ok x Inr by auto
    obtain y e2 where y: "e2e_new E e1 = (y, e2)" by fastforce
    show ?thesis
    proof (cases y)
      case (Inl err)
      with x \<open>x = Inr a\<close> y a new_err [of e1] show ?thesis by (simp add: connectAndMatch_def close_ok)
    next
      case (Inr b)
      have b: "b \<notin> opened e1" "opened e2 = insert b (opened e1)" using new_ok y Inr by auto
      have shut: "opened (e2e_close E b (e2e_close E a e')) = opened e" if "opened e' = opened e2" for e'
        using that a b by (auto simp: close_ok)
      have "insert b (insert a (opened e)) = opened e \<union> {a, b}" by auto
      with x \<open>x = Inr a\<close> y Inr a b shut show ?thesis
        by (simp add: connectAndMatch_def Let_def case_prod_beta calls_keep pair_match_keeps split: option.split)
    qed
  qed
qed

lemma scenario_closes:
  "opened (snd (scenario1HealthCheck E api e)) = opened e" "opened (snd (scenario2ConnectHandshake E e)) = opened e"
  "opened (snd (scenario345MatchChatEnd E e)) = opened e" "opened (snd (scenario6RateLimiting E e)) = opened e"
  "opened (snd (scenario7ContentFiltering E e)) = opened e"
proof -
  show "opened (snd (scenario1HealthCheck E api e)) = opened e"
    by (simp add: scenario1HealthCheck_def httpGetExpectOK_def httpGetBody_def Let_def case_prod_beta calls_keep split: sum.split option.split)
  show "opened (snd (scenario2ConnectHandshake E e)) = opened e"
    unfolding scenario2ConnectHandshake_def Let_def by (rule two_clients_close) auto
  show "opened (snd (scenario345MatchChatEnd E e)) = opened e"
    unfolding scenario345MatchChatEnd_def Let_def
    by (rule two_clients_close)
       (simp add: case_prod_beta calls_keep pair_match_keeps e2e_message_keeps close_ok Diff_subset split: option.split bool.split, blast)
  show "opened (snd (scenario6RateLimiting E e)) = opened e" "opened (snd (scenario7ContentFiltering E e)) = opened e"
    using connectAndMatch_opens [of e]
    by (auto simp: scenario6RateLimiting_def scenario7ContentFiltering_def deferred_def close_ok case_prod_beta calls_keep rapid_keeps Let_def
        split: option.splits)
qed

lemma main_closes: "opened (snd (snd (e2e_main E api e))) = opened e"
  by (simp add: e2e_main_def Let_def case_prod_beta scenario_closes)

end

text \<open>The clients of the load test, with sockets that accept everything and a server that never answers.\<close>

definition client_ref :: "(nat, unit Client list) e2e_env" where
  "client_ref = \<lparr>e2e_new = (\<lambda>cs. (Inr (length cs), cs @ [NewClient 7 ()])),
     e2e_session = (\<lambda>c cs. (case WaitForSession [Tick ''s1''] of None \<Rightarrow> Some ErrNil | Some r \<Rightarrow> r, cs)), e2e_sid = (\<lambda>c cs. cl_sessionID (cs ! c)),
     e2e_send = (\<lambda>c j cs. if c < length cs then (let (err, cl) = Send (\<lambda>d e. (None, e)) j (cs ! c) in (err, cs[c := cl])) else (Some ErrNil, cs)),
     e2e_close = (\<lambda>c cs. if c < length cs then cs[c := snd (CloseClient (\<lambda>e. (None, e)) (cs ! c))] else cs),
     e2e_found = (\<lambda>c cs. (None, cs)), e2e_accepted = (\<lambda>c cs. (False, cs)), e2e_text = (\<lambda>c cs. (None, cs)), e2e_left = (\<lambda>c cs. (False, cs)),
     e2e_limited = (\<lambda>c cs. (False, cs)), e2e_blocked = (\<lambda>c cs. (False, cs)), http_get = (\<lambda>url cs. (Inl ErrNil, cs))\<rparr>"

definition open_clients :: "unit Client list \<Rightarrow> nat set" where
  "open_clients cs = {c. c < length cs \<and> \<not> cl_closed (cs ! c)}"

interpretation cref2: e2e_world client_ref open_clients
proof unfold_locales
  show "open_clients (e2e_close client_ref c cs) = open_clients cs - {c}" for c cs
    by (auto simp: client_ref_def open_clients_def CloseClient_def nth_list_update Let_def split: if_splits)
  show "open_clients (snd (e2e_send client_ref c j cs)) = open_clients cs" for c j cs
    by (auto simp: client_ref_def open_clients_def Send_def nth_list_update Let_def)
qed (auto simp: client_ref_def open_clients_def NewClient_def nth_append split: if_splits)

section \<open>Properties\<close>

text \<open>
  C39.  The end-to-end test leaves no connection behind: whatever fails in a run, the connections that are open at the end are those
  that were open at the beginning.  It fails exactly if one of the five required scenarios fails.
\<close>

theorem e2e_leaks_nothing:
  assumes "e2e_world E opened" and "e2e_main E apiBase e = (results, code, e')"
  shows "opened e' = opened e \<and> (code = 1 \<longleftrightarrow> (\<exists>r \<in> set (take 5 results). sr_kind r = resultFail)) \<and> code \<in> {0, 1}"
proof -
  have "opened e' = opened e" using e2e_world.main_closes [OF assms(1), of apiBase e] assms(2) by simp
  moreover have "sr_kind (fst (scenario6RateLimiting E x)) = resultInfo" "sr_kind (fst (scenario7ContentFiltering E x)) = resultInfo" for x
    by (simp_all add: scenario6RateLimiting_def scenario7ContentFiltering_def deferred_def Let_def case_prod_beta split: option.split)
  moreover obtain s1 s2 s3 s4 s5 x y where "results = [s1, s2, s3, s4, s5, fst (scenario6RateLimiting E x), fst (scenario7ContentFiltering E y)]"
      "code = (if 0 < length (filter (\<lambda>r. sr_kind r = resultFail) results) then 1 else 0)"
    using assms(2) by (auto simp: e2e_main_def Let_def split: prod.splits) (metis fst_conv)
  ultimately show ?thesis by (auto split: if_splits)
qed

theorem e2e_leaks_nothing_witness:
  "\<exists>results cs. e2e_main client_ref ''http://localhost:8080'' [] = (results, 1, cs) \<and> list_all cl_closed cs"
proof -
  let ?api = "''http://localhost:8080''"
  obtain results code cs where m: "e2e_main client_ref ?api [] = (results, code, cs)" by (cases "e2e_main client_ref ?api []") auto
  note L = e2e_leaks_nothing [OF cref2.e2e_world_axioms m]
  have "sr_kind (fst (scenario1HealthCheck client_ref ?api [])) = resultFail"
    by (simp add: scenario1HealthCheck_def httpGetExpectOK_def client_ref_def Let_def)
  moreover have "results ! 0 = fst (scenario1HealthCheck client_ref ?api [])" "length results = 7"
    using m by (auto simp: e2e_main_def Let_def split: prod.splits)
  moreover have "results ! 0 \<in> set (take 5 results)" if "length results = 7" using that by (cases results) auto
  ultimately have "code = 1" using L by metis
  moreover have "open_clients cs = {}" using L by (simp add: open_clients_def)
  then have "list_all cl_closed cs" by (auto simp: open_clients_def list_all_length)
  ultimately show ?thesis using m by simp
qed

end
