(* ===== verification/Startup.thy ===== *)
theory Startup
  imports ServerLoop EndToEnd
begin

text \<open>
  How the chat server starts: \<open>Start\<close> of \<open>server.go\<close> with the paths it serves, the epoll instance of \<open>epoll.go\<close>, and what the health
  check of the end-to-end test finds.
\<close>

section \<open>The epoll instance\<close>

text \<open>The descriptor, from the result of the system call, and the empty map of connections.\<close>

definition NewEpoll :: "(error + int) \<Rightarrow> error + int \<times> (int \<times> nat) list" where
  "NewEpoll created = (case created of Inl err \<Rightarrow> Inl err | Inr fd \<Rightarrow> Inr (fd, []))"

definition epoll_Close :: "error option \<Rightarrow> ('e, 'z) server_scheme \<Rightarrow> error option \<times> ('e, 'z) server_scheme" where
  "epoll_Close closed p = (closed, p\<lparr>epoll_conns := []\<rparr>)"

text \<open>
  The descriptor of a socket: the connection may not give access to one, the access may fail, and when \<open>Control\<close> fails its callback has not
  run, so that the descriptor is 0.
\<close>

definition socketFD :: "(error + int option) option \<Rightarrow> int" where
  "socketFD access =
     (case access of
        None \<Rightarrow> -1
      | Some (Inl err) \<Rightarrow> -1
      | Some (Inr None) \<Rightarrow> 0
      | Some (Inr (Some sfd)) \<Rightarrow> sfd)"

section \<open>The server\<close>

datatype endpoint = HandleUpgrade | HandleHealth | HandleOnlineCount | HandleMetrics

definition routes :: "(string \<times> endpoint) list" where
  "routes = [(''/ws'', HandleUpgrade), (''/health'', HandleHealth), (''/api/online'', HandleOnlineCount), (''/metrics'', HandleMetrics)]"

definition ErrServerClosed :: error where
  "ErrServerClosed = ErrText ''http: Server closed''"

text \<open>What \<open>Start\<close> returns, from the result of creating the epoll instance and that of \<open>ListenAndServe\<close>.\<close>

definition Start_server :: "(error + int) \<Rightarrow> error option \<Rightarrow> error option" where
  "Start_server created served =
     (case NewEpoll created of
        Inl err \<Rightarrow> Some (ErrWrap ''ws: failed to create epoll'' err)
      | Inr _ \<Rightarrow>
          (case served of
             None \<Rightarrow> None
           | Some err \<Rightarrow> if err \<noteq> ErrServerClosed then Some (ErrWrap ''ws: http server error'' err) else None))"

definition isEINTR :: "error option \<Rightarrow> bool" where
  "isEINTR e = (case e of None \<Rightarrow> False | Some err \<Rightarrow> error_text err = ''interrupted system call'' \<or> error_text err = ''errno 4'')"

text \<open>What \<open>ListenAndServe\<close> returns after a shutdown does not count as an error.\<close>

lemma Start_server_ok: "Start_server (Inr fd) served = None \<longleftrightarrow> served = None \<or> served = Some ErrServerClosed"
  by (auto simp: Start_server_def NewEpoll_def split: option.split)

section \<open>The health check\<close>

lemma online_count_parsed: "Unmarshal [(''count'', FInt m)] (handleOnlineCount p) = Inr [(''count'', FInt (Count p))]" if "Count p < 2 ^ 63"
proof -
  have "wf_json 10000 (JObj [(''count'', JInt (Count p))])" by (simp add: valid_ascii byte_def)
  from json_parse_line [OF this] that show ?thesis
    by (simp add: Unmarshal_def handleOnlineCount_def decode_doc_def find_field_def decode_JInt Count_def del: json_text.simps)
qed

text \<open>A server answers on its paths; what Prometheus writes for \<open>/metrics\<close> is not the program's.\<close>

definition answers :: "('c, 'e) e2e_env \<Rightarrow> string \<Rightarrow> Duration \<Rightarrow> ('f, 'z) server_scheme \<Rightarrow> string \<Rightarrow> bool" where
  "answers E apiBase uptime p metricsBody \<longleftrightarrow> (\<forall>path kind e. map_of routes path = Some kind \<longrightarrow> kind \<noteq> HandleUpgrade \<longrightarrow>
     fst (http_get E (apiBase @ path) e) = Inr (200, Inr
       (case kind of HandleHealth \<Rightarrow> handleHealth uptime p | HandleOnlineCount \<Rightarrow> handleOnlineCount p | _ \<Rightarrow> metricsBody)))"

text \<open>
  The health check of the end-to-end test passes against the server exactly if the metrics name the number of connections: the server's own
  two answers are always understood.
\<close>

lemma health_check_passes:
  assumes "answers E apiBase uptime p metricsBody" "Count p < 2 ^ 63"
  shows "sr_kind (fst (scenario1HealthCheck E apiBase e)) = (if Contains metricsBody ''whisper_connections_total'' then resultPass else resultFail)"
proof -
  have a: "fst (http_get E (apiBase @ ''/health'') e') = Inr (200, Inr (handleHealth uptime p))"
    "fst (http_get E (apiBase @ ''/api/online'') e') = Inr (200, Inr (handleOnlineCount p))"
    "fst (http_get E (apiBase @ ''/metrics'') e') = Inr (200, Inr metricsBody)" for e'
    using assms(1) [unfolded answers_def, rule_format] by (simp_all add: routes_def)
  show ?thesis
    using a by (simp add: scenario1HealthCheck_def httpGetExpectOK_def httpGetBody_def Let_def case_prod_beta online_count_parsed [OF assms(2)])
qed

end
