(* ===== verification/Floats.thy ===== *)
theory Floats
  imports Complex_Main Moderation
begin

text \<open>
  The 64-bit floating point numbers of Go, as far as the program computes with them, and \<open>strconv.ParseFloat\<close>.  A finite number is the
  rational it stands for.  Zero has no sign here, since the program never divides by zero and only prints could tell.
\<close>

section \<open>Numbers\<close>

datatype float64 = NaN | PosInf | NegInf | Fin rat

text \<open>
  The finite numbers are multiples of a power of two, the unit \<open>2 ^ k / 2 ^ 1074\<close>, by an integer below \<open>2 ^ 53\<close>.  \<open>unit_index\<close> finds the smallest unit a number
  fits; at most 2045, with which every finite number is below \<open>2 ^ 1024\<close>.  Rounding goes to the nearest multiple, in the middle to the even one.
\<close>

definition half_even :: "rat \<Rightarrow> int" where
  "half_even x = (let n = \<lfloor>x\<rfloor>; d = x - of_int n in if d < 1 / 2 \<or> d = 1 / 2 \<and> even n then n else n + 1)"

definition unit_of :: "nat \<Rightarrow> rat" where
  "unit_of k = 2 ^ k / 2 ^ 1074"

function unit_index :: "rat \<Rightarrow> nat \<Rightarrow> nat" where
  "unit_index x k = (if 2045 \<le> k \<or> \<bar>x\<bar> < 2 ^ 53 * unit_of k then k else unit_index x (Suc k))"
  by auto
termination by (relation "measure (\<lambda>(x, k). 2045 - k)") auto

declare unit_index.simps [simp del]

definition round64 :: "rat \<Rightarrow> float64" where
  "round64 x =
     (let u = unit_of (unit_index x 0); r = of_int (half_even (x / u)) * u
      in if \<bar>r\<bar> < 2 ^ 1024 then Fin r else if 0 < x then PosInf else NegInf)"

fun float_add :: "float64 \<Rightarrow> float64 \<Rightarrow> float64" where
  "float_add NaN _ = NaN"
| "float_add _ NaN = NaN"
| "float_add (Fin a) (Fin b) = round64 (a + b)"
| "float_add (Fin a) y = y"
| "float_add x (Fin b) = x"
| "float_add x y = (if x = y then x else NaN)"

fun float_neg :: "float64 \<Rightarrow> float64" where
  "float_neg NaN = NaN"
| "float_neg PosInf = NegInf"
| "float_neg NegInf = PosInf"
| "float_neg (Fin a) = Fin (- a)"

abbreviation float_sub :: "float64 \<Rightarrow> float64 \<Rightarrow> float64" where
  "float_sub x y \<equiv> float_add x (float_neg y)"

fun float_less :: "float64 \<Rightarrow> float64 \<Rightarrow> bool" where
  "float_less NaN _ = False"
| "float_less _ NaN = False"
| "float_less (Fin a) (Fin b) = (a < b)"
| "float_less x y = (x \<noteq> y \<and> (x = NegInf \<or> y = PosInf))"

text \<open>A quotient, for a divisor above zero.\<close>

fun float_div :: "float64 \<Rightarrow> float64 \<Rightarrow> float64" where
  "float_div (Fin a) (Fin b) = round64 (a / b)"
| "float_div (Fin a) PosInf = Fin 0"
| "float_div PosInf (Fin b) = PosInf"
| "float_div NegInf (Fin b) = NegInf"
| "float_div _ _ = NaN"

subsection \<open>Rounding\<close>

lemma half_even_int [simp]: "half_even (of_int n) = n"
  by (simp add: half_even_def)

lemma half_even_near: "\<bar>of_int (half_even x) - x\<bar> \<le> 1 / 2"
proof -
  have "of_int \<lfloor>x\<rfloor> \<le> x" "x < of_int \<lfloor>x\<rfloor> + 1" by linarith+
  then show ?thesis unfolding half_even_def Let_def by (auto simp: abs_le_iff)
qed

lemma unit_pos [simp]: "0 < unit_of k"
  by (simp add: unit_of_def)

lemma unit_nonzero [simp]: "unit_of k \<noteq> 0"
  using unit_pos [of k] by linarith

lemma unit_index_le: "k \<le> j \<Longrightarrow> j \<le> 2045 \<Longrightarrow> \<bar>x\<bar> < 2 ^ 53 * unit_of j \<Longrightarrow> unit_index x k \<le> j"
proof (induction x k rule: unit_index.induct)
  case (1 x k)
  then show ?case by (cases "k = j") (subst unit_index.simps, simp)+
qed

lemma unit_index_bound: "unit_index x k \<le> 2045" if "k \<le> 2045"
  using that
proof (induction x k rule: unit_index.induct)
  case (1 x k)
  then show ?case by (subst unit_index.simps) auto
qed

lemma unit_le: "i \<le> j \<Longrightarrow> unit_of i \<le> unit_of j"
  by (simp add: unit_of_def divide_right_mono power_increasing)

lemma unit_multiple: "i \<le> j \<Longrightarrow> unit_of j / unit_of i = of_int (2 ^ (j - i))"
proof -
  assume "i \<le> j"
  then have "(2 :: rat) ^ j = 2 ^ (j - i) * 2 ^ i" by (simp flip: power_add)
  then show ?thesis by (simp add: unit_of_def)
qed

lemma unit_top: "2 ^ 53 * unit_of 2045 = 2 ^ 1024"
  by (simp add: unit_of_def flip: power_add power_diff)

text \<open>A number that fits a unit is itself; any other is off by at most half its unit.\<close>

lemma round64_exact:
  assumes "\<bar>m\<bar> < 2 ^ 53" "j \<le> 2045"
  shows "round64 (of_int m * unit_of j) = Fin (of_int m * unit_of j)"
proof -
  let ?x = "of_int m * unit_of j"
  define k where "k = unit_index ?x 0"
  have "\<bar>of_int m :: rat\<bar> < of_int (2 ^ 53)" using assms(1) by (simp only: of_int_abs [symmetric] of_int_less_iff)
  then have m: "\<bar>?x\<bar> < 2 ^ 53 * unit_of j" using unit_pos [of j] by (simp add: abs_mult abs_of_pos)
  with assms(2) have k: "k \<le> j" unfolding k_def by (intro unit_index_le) auto
  have q: "?x / unit_of k = of_int (m * 2 ^ (j - k))"
    using unit_multiple [OF k] by (simp flip: times_divide_eq_right)
  have "of_int (half_even (?x / unit_of k)) * unit_of k = ?x"
    unfolding q half_even_int using q by (metis nonzero_eq_divide_eq unit_nonzero)
  moreover have "\<bar>?x\<bar> < 2 ^ 1024"
    unfolding unit_top [symmetric] by (rule less_le_trans [OF m mult_left_mono [OF unit_le [OF assms(2)]]]) simp
  ultimately show ?thesis by (simp add: round64_def Let_def k_def)
qed

lemma round64_near:
  assumes "round64 x = Fin r"
  shows "\<bar>r - x\<bar> \<le> unit_of (unit_index x 0) / 2"
proof -
  let ?u = "unit_of (unit_index x 0)"
  have r: "r = of_int (half_even (x / ?u)) * ?u" using assms by (auto simp: round64_def Let_def split: if_splits)
  have "\<bar>r - x\<bar> = \<bar>of_int (half_even (x / ?u)) - x / ?u\<bar> * ?u"
    unfolding r abs_mult_pos [OF less_imp_le [OF unit_pos]] by (simp add: left_diff_distrib)
  also have "\<dots> \<le> 1 / 2 * ?u" using half_even_near [of "x / ?u"] by (intro mult_right_mono) (auto intro: less_imp_le)
  finally show ?thesis by simp
qed

lemma round64_int: "\<bar>n\<bar> < 2 ^ 53 \<Longrightarrow> round64 (of_int n) = Fin (of_int n)"
  using round64_exact [of n 1074] by (simp add: unit_of_def)

lemma round64_nat: "n < 2 ^ 53 \<Longrightarrow> round64 (of_nat n) = Fin (of_nat n)"
  using round64_int [of "int n"] by simp

lemma float_add_nat: "m + n < 2 ^ 53 \<Longrightarrow> float_add (Fin (of_nat m)) (Fin (of_nat n)) = Fin (of_nat (m + n))"
  using round64_nat [of "m + n"] by simp

lemma float_sub_nat:
  assumes "m < 2 ^ 53" "n < 2 ^ 53"
  shows "float_sub (Fin (of_nat m)) (Fin (of_nat n)) = Fin (of_int (int m - int n))"
  using round64_int [of "int m - int n"] assms by (simp add: abs_if)

lemma float_less_trans: "float_less x y \<Longrightarrow> float_less y z \<Longrightarrow> float_less x z"
  by (cases x; cases y; cases z) auto

lemma float_less_irrefl [simp]: "\<not> float_less x x"
  by (cases x) auto

lemma float_less_linear: "x \<noteq> NaN \<Longrightarrow> y \<noteq> NaN \<Longrightarrow> float_less x y \<or> x = y \<or> float_less y x"
  by (cases x; cases y) auto

section \<open>\<open>strconv.ParseFloat\<close>\<close>

definition lower_char :: "char \<Rightarrow> char" where
  "lower_char c = (if 65 \<le> byte c \<and> byte c \<le> 90 then char_of (byte c + 32) else c)"

definition is_hex :: "char \<Rightarrow> bool" where
  "is_hex c \<longleftrightarrow> is_digit c \<or> (97 \<le> byte (lower_char c) \<and> byte (lower_char c) \<le> 102)"

definition hex_val :: "char \<Rightarrow> nat" where
  "hex_val c = (if is_digit c then digit_val c else byte (lower_char c) - 87)"

text \<open>Underscores stand between digits, or between the prefix of a base and a digit; \<open>i\<close> is the kind of the character before.\<close>

datatype last_seen = Beginning | Digit | Underscore | Other

fun underscores_from :: "bool \<Rightarrow> last_seen \<Rightarrow> string \<Rightarrow> bool" where
  "underscores_from hex i [] = (i \<noteq> Underscore)"
| "underscores_from hex i (c # s) =
     (if is_digit c \<or> hex \<and> is_hex c then underscores_from hex Digit s
      else if c = CHR ''_'' then i = Digit \<and> underscores_from hex Underscore s
      else i \<noteq> Underscore \<and> underscores_from hex Other s)"

definition cut_sign :: "string \<Rightarrow> bool \<times> string" where
  "cut_sign s = (case s of [] \<Rightarrow> (False, []) | c # t \<Rightarrow> if c = CHR ''+'' then (False, t) else if c = CHR ''-'' then (True, t) else (False, s))"

definition underscoreOK :: "string \<Rightarrow> bool" where
  "underscoreOK s0 =
     (let s = snd (cut_sign s0)
      in if 2 \<le> length s \<and> s ! 0 = CHR ''0'' \<and> lower_char (s ! 1) \<in> {CHR ''b'', CHR ''o'', CHR ''x''}
         then underscores_from (lower_char (s ! 1) = CHR ''x'') Digit (drop 2 s)
         else underscores_from False Beginning s)"

text \<open>The digits of the mantissa: their value, how many stand after the point, and whether there was a point, a digit, an underscore.\<close>

record scanned =
  man :: nat
  frac_digits :: nat
  sawdot :: bool
  sawdigits :: bool
  underscores :: bool

fun read_mantissa :: "bool \<Rightarrow> scanned \<Rightarrow> string \<Rightarrow> scanned \<times> string" where
  "read_mantissa hex a [] = (a, [])"
| "read_mantissa hex a (c # s) =
     (if c = CHR ''_'' then read_mantissa hex (a\<lparr>underscores := True\<rparr>) s
      else if c = CHR ''.'' then (if sawdot a then (a, c # s) else read_mantissa hex (a\<lparr>sawdot := True\<rparr>) s)
      else if is_digit c \<or> hex \<and> is_hex c then
        read_mantissa hex (a\<lparr>man := (if hex then 16 else 10) * man a + hex_val c, sawdigits := True,
          frac_digits := (if sawdot a then Suc (frac_digits a) else frac_digits a)\<rparr>) s
      else (a, c # s))"

fun exponent_digits :: "nat \<Rightarrow> bool \<Rightarrow> string \<Rightarrow> (nat \<times> bool) \<times> string" where
  "exponent_digits e us [] = ((e, us), [])"
| "exponent_digits e us (c # s) =
     (if c = CHR ''_'' then exponent_digits e True s
      else if is_digit c then exponent_digits (if e < 10000 then e * 10 + digit_val c else e) us s
      else ((e, us), c # s))"

text \<open>The exponent, \<open>None\<close> if it is malformed; without one it is 0, but a hexadecimal number must have one.\<close>

definition read_exponent :: "bool \<Rightarrow> string \<Rightarrow> ((int \<times> bool) \<times> string) option" where
  "read_exponent hex s =
     (case s of
        c # t \<Rightarrow>
          if lower_char c = (if hex then CHR ''p'' else CHR ''e'') then
            (case cut_sign t of
               (neg, d # r) \<Rightarrow>
                 if \<not> is_digit d then None
                 else (let ((e, us), rest) = exponent_digits 0 False (d # r) in Some ((if neg then - int e else int e, us), rest))
             | (_, []) \<Rightarrow> None)
          else if hex then None else Some ((0, False), s)
      | [] \<Rightarrow> if hex then None else Some ((0, False), []))"

definition hex_literal :: "string \<Rightarrow> bool" where
  "hex_literal s \<longleftrightarrow> 2 < length s \<and> s ! 0 = CHR ''0'' \<and> lower_char (s ! 1) = CHR ''x''"

definition readFloat :: "string \<Rightarrow> rat option" where
  "readFloat s0 =
     (let (neg, s) = cut_sign s0;
          hex = hex_literal s;
          (a, s1) = read_mantissa hex \<lparr>man = 0, frac_digits = 0, sawdot = False, sawdigits = False, underscores = False\<rparr> (if hex then drop 2 s else s)
      in if \<not> sawdigits a then None
         else case read_exponent hex s1 of
                None \<Rightarrow> None
              | Some ((e, us), s2) \<Rightarrow>
                  if s2 \<noteq> [] \<or> (underscores a \<or> us) \<and> \<not> underscoreOK s0 then None
                  else (let v = (if hex then of_nat (man a) * power_int 2 (e - 4 * int (frac_digits a))
                                 else of_nat (man a) * power_int 10 (e - int (frac_digits a)))
                        in Some (if neg then - v else v)))"

definition special :: "string \<Rightarrow> float64 option" where
  "special s =
     (let t = map lower_char s
      in if t = ''nan'' then Some NaN
         else if t \<in> {''inf'', ''+inf'', ''infinity'', ''+infinity''} then Some PosInf
         else if t \<in> {''-inf'', ''-infinity''} then Some NegInf
         else None)"

text \<open>A number beyond the finite ones is an error.\<close>

definition ParseFloat :: "string \<Rightarrow> float64 option" where
  "ParseFloat s =
     (case special s of
        Some v \<Rightarrow> Some v
      | None \<Rightarrow>
          (case readFloat s of
             None \<Rightarrow> None
           | Some x \<Rightarrow> (case round64 x of Fin r \<Rightarrow> Some (Fin r) | _ \<Rightarrow> None)))"

subsection \<open>Natural numbers\<close>

lemma digit_chars: "is_digit c \<Longrightarrow> c \<noteq> CHR ''_'' \<and> c \<noteq> CHR ''.'' \<and> c \<noteq> CHR ''+'' \<and> c \<noteq> CHR ''-'' \<and> lower_char c = c \<and> \<not> 97 \<le> byte c"
  by (auto simp: is_digit_def lower_char_def byte_def)

lemma digit_x: "\<not> is_digit (CHR ''x'')"
  by (simp add: is_digit_def)

lemma read_mantissa_digits:
  "list_all is_digit s \<Longrightarrow> \<not> sawdot a \<Longrightarrow>
   read_mantissa False a s = (a\<lparr>man := digits_val (man a) s, sawdigits := sawdigits a \<or> s \<noteq> []\<rparr>, [])"
proof (induction s arbitrary: a)
  case Nil
  then show ?case by (simp add: digits_val_def)
next
  case (Cons c s)
  then have "c \<noteq> CHR ''_''" "c \<noteq> CHR ''.''" "hex_val c = digit_val c" using digit_chars [of c] by (auto simp: hex_val_def)
  with Cons show ?case by (simp add: digits_val_def add.commute mult.commute)
qed

lemma readFloat_nat: "readFloat (show_nat n) = Some (of_nat n)"
proof -
  obtain c s where s: "show_nat n = c # s" using show_nat_digits [of n] by (cases "show_nat n") auto
  have d: "list_all is_digit (c # s)" using show_nat_digits [of n] s by simp
  then have c: "c \<noteq> CHR ''+''" "c \<noteq> CHR ''-''" using digit_chars [of c] by auto
  have h: "\<not> hex_literal (c # s)"
  proof
    assume x: "hex_literal (c # s)"
    then have "is_digit ((c # s) ! 1)" using d by (cases s) (auto simp: hex_literal_def)
    with x digit_chars [of "(c # s) ! 1"] show False by (metis digit_x hex_literal_def)
  qed
  have "digits_val 0 (c # s) = n" using digits_val_show_nat [of n] s by simp
  with d c h show ?thesis
    unfolding s by (simp add: readFloat_def cut_sign_def Let_def read_mantissa_digits [OF d] read_exponent_def del: read_mantissa.simps)
qed

lemma ParseFloat_nat:
  assumes "n < 2 ^ 53"
  shows "ParseFloat (show_nat n) = Some (Fin (of_nat n))"
proof -
  obtain c s where s: "show_nat n = c # s" using show_nat_digits [of n] by (cases "show_nat n") auto
  have "is_digit c" using show_nat_head [OF s] .
  then have "lower_char c = c" "c \<noteq> CHR ''n''" "c \<noteq> CHR ''i''" "c \<noteq> CHR ''+''" "c \<noteq> CHR ''-''"
    using digit_chars [of c] by (auto simp: is_digit_def)
  then have "special (show_nat n) = None" unfolding s by (simp add: special_def Let_def)
  with assms show ?thesis by (simp add: ParseFloat_def readFloat_nat round64_nat)
qed

end
