(* ===== verification/Scraper.thy ===== *)
theory Scraper
  imports Floats LoadTest
begin

text \<open>
  \<open>loadtest/stats/scraper.go\<close>: the load test reads the metrics of the server while it runs.  The names of the metrics are those of
  \<open>internal/metrics/metrics.go\<close>; what Prometheus writes for them is its text format.
\<close>

section \<open>The metrics of the server\<close>

datatype metric_kind = Gauge | CounterVec "string list" | Histogram

definition metrics :: "(string \<times> metric_kind) list" where
  "metrics =
     [(''whisper_connections_total'', Gauge), (''whisper_messages_total'', CounterVec [''type'']),
      (''whisper_message_latency_seconds'', Histogram), (''whisper_match_duration_seconds'', Histogram),
      (''whisper_active_chats'', Gauge), (''whisper_match_queue_size'', Gauge)]"

text \<open>The names of the lines of a metric; a histogram has three kinds of lines.\<close>

definition exposed :: "string \<times> metric_kind \<Rightarrow> string list" where
  "exposed m = (case m of (name, Histogram) \<Rightarrow> [name @ ''_bucket'', name @ ''_sum'', name @ ''_count''] | (name, _) \<Rightarrow> [name])"

section \<open>Reading a line\<close>

definition IndexByte :: "string \<Rightarrow> char \<Rightarrow> int" where
  "IndexByte s c = (if c \<in> set s then int (length (takeWhile (\<lambda>d. d \<noteq> c) s)) else -1)"

definition cut_labels :: "string \<Rightarrow> (string \<times> string) option" where
  "cut_labels line =
     (let idx = IndexByte line (CHR ''{'')
      in if idx \<noteq> -1 then
           (let name = take (nat idx) line; closing = IndexByte (drop (nat idx) line) (CHR ''}'')
            in if closing = -1 then None else Some (name, name @ drop (nat (idx + closing + 1)) line))
         else Some ([], line))"

definition parseMetricLine :: "string \<Rightarrow> (string \<times> float64) option" where
  "parseMetricLine line =
     (case cut_labels line of
        None \<Rightarrow> None
      | Some (name, raw) \<Rightarrow>
          (let fields = FieldsFunc raw IsSpace
           in if length fields < 2 then None
              else (case ParseFloat (last fields) of
                      None \<Rightarrow> None
                    | Some v \<Rightarrow> Some (if name = [] then fields ! 0 else name, v))))"

section \<open>Snapshots\<close>

record metricSnapshot =
  ms_timestamp :: int
  ms_connections :: float64
  messagesTotal :: float64
  ms_activeChats :: float64
  queueSize :: float64
  latencySum :: float64
  latencyCount :: float64
  matchSum :: float64
  matchCount :: float64

definition empty_snapshot :: "int \<Rightarrow> metricSnapshot" where
  "empty_snapshot now = \<lparr>ms_timestamp = now, ms_connections = Fin 0, messagesTotal = Fin 0, ms_activeChats = Fin 0, queueSize = Fin 0,
     latencySum = Fin 0, latencyCount = Fin 0, matchSum = Fin 0, matchCount = Fin 0\<rparr>"

definition set_metric :: "string \<Rightarrow> float64 \<Rightarrow> metricSnapshot \<Rightarrow> metricSnapshot" where
  "set_metric name v snap =
     (if name = ''whisper_connections_total'' then snap\<lparr>ms_connections := v\<rparr>
      else if name = ''whisper_messages_total'' then snap\<lparr>messagesTotal := float_add (messagesTotal snap) v\<rparr>
      else if name = ''whisper_active_chats'' then snap\<lparr>ms_activeChats := v\<rparr>
      else if name = ''whisper_match_queue_size'' then snap\<lparr>queueSize := v\<rparr>
      else if name = ''whisper_message_latency_seconds_sum'' then snap\<lparr>latencySum := v\<rparr>
      else if name = ''whisper_message_latency_seconds_count'' then snap\<lparr>latencyCount := v\<rparr>
      else if name = ''whisper_match_duration_seconds_sum'' then snap\<lparr>matchSum := v\<rparr>
      else if name = ''whisper_match_duration_seconds_count'' then snap\<lparr>matchCount := v\<rparr>
      else snap)"

definition scan_line :: "string \<Rightarrow> metricSnapshot \<Rightarrow> metricSnapshot" where
  "scan_line line snap =
     (if line = [] \<or> hd line = CHR ''#'' then snap
      else case parseMetricLine line of None \<Rightarrow> snap | Some (name, v) \<Rightarrow> set_metric name v snap)"

text \<open>
  \<open>bufio.Scanner\<close> gives the lines without their ends, and nothing for an empty rest.  It gives up on a line that does not fit its buffer of 64 KiB together
  with its end.
\<close>

definition dropCR :: "string \<Rightarrow> string" where
  "dropCR s = (if s \<noteq> [] \<and> last s = CHR 0x0D then butlast s else s)"

definition raw_lines :: "string \<Rightarrow> string list" where
  "raw_lines body = (let ls = split_on (CHR ''\<newline>'') body in if last ls = [] then butlast ls else ls)"

definition ErrTooLong :: error where
  "ErrTooLong = ErrText ''bufio.Scanner: token too long''"

text \<open>The answer is an error, or the body with the error that ended reading it early.\<close>

definition fetch :: "int \<Rightarrow> error + string \<times> error option \<Rightarrow> error + metricSnapshot" where
  "fetch now resp =
     (case resp of
        Inl err \<Rightarrow> Inl err
      | Inr (body, err) \<Rightarrow>
          if \<not> list_all (\<lambda>l. length l < 65536) (raw_lines body) then Inl ErrTooLong
          else (case err of
                  Some e \<Rightarrow> Inl e
                | None \<Rightarrow> Inr (fold scan_line (map dropCR (raw_lines body)) (empty_snapshot now))))"

section \<open>The scraper\<close>

record Scraper =
  snapshots :: "metricSnapshot list"
  sc_started :: bool
  sc_cancelled :: bool
  sc_done :: bool

definition NewScraper :: Scraper where
  "NewScraper = \<lparr>snapshots = [], sc_started = False, sc_cancelled = False, sc_done = False\<rparr>"

definition scrapeOnce :: "error + metricSnapshot \<Rightarrow> Scraper \<Rightarrow> Scraper" where
  "scrapeOnce fetched s = (case fetched of Inl err \<Rightarrow> s | Inr snap \<Rightarrow> s\<lparr>snapshots := snapshots s @ [snap]\<rparr>)"

definition Start_scraper :: "error + metricSnapshot \<Rightarrow> Scraper \<Rightarrow> Scraper" where
  "Start_scraper fetched s = scrapeOnce fetched (s\<lparr>sc_started := True\<rparr>)"

text \<open>
  The goroutine scrapes at a tick, and when the context has ended it scrapes once more and is done.  The context ends with that of the test or
  when \<open>Stop\<close> cancels it; \<open>Stop\<close> then waits until the goroutine is done.  With a tick and the end at once the choice is open.
\<close>

inductive scraper_step :: "Scraper \<Rightarrow> Scraper \<Rightarrow> bool" where
  tick: "sc_started s \<Longrightarrow> \<not> sc_done s \<Longrightarrow> scraper_step s (scrapeOnce fetched s)"
| ctx_done: "sc_started s \<Longrightarrow> sc_cancelled s \<Longrightarrow> \<not> sc_done s \<Longrightarrow> scraper_step s (scrapeOnce fetched s\<lparr>sc_done := True\<rparr>)"
| cancel: "sc_started s \<Longrightarrow> scraper_step s (s\<lparr>sc_cancelled := True\<rparr>)"

definition Stop_cancels :: "Scraper \<Rightarrow> Scraper" where
  "Stop_cancels s = (if sc_started s then s\<lparr>sc_cancelled := True\<rparr> else s)"

definition Stop_returns :: "Scraper \<Rightarrow> bool" where
  "Stop_returns s \<longleftrightarrow> (sc_started s \<longrightarrow> sc_done s)"

section \<open>The report\<close>

record gauge =
  g_label :: string
  g_initial :: float64
  g_final :: float64
  g_delta :: float64
  g_peak :: float64

definition peakValue :: "metricSnapshot list \<Rightarrow> (metricSnapshot \<Rightarrow> float64) \<Rightarrow> float64" where
  "peakValue snaps extract = fold (\<lambda>s peak. if float_less peak (extract s) then extract s else peak) snaps NegInf"

text \<open>The average and the number of observations it is taken over, if there are any.\<close>

definition printHistogramAvg :: "float64 \<Rightarrow> float64 \<Rightarrow> float64 \<Rightarrow> float64 \<Rightarrow> (float64 \<times> float64) option" where
  "printHistogramAvg sumFirst countFirst sumLast countLast =
     (let deltaSum = float_sub sumLast sumFirst; deltaCount = float_sub countLast countFirst
      in if float_less (Fin 0) deltaCount then Some (float_div deltaSum deltaCount, deltaCount) else None)"

definition gauge_of :: "string \<Rightarrow> (metricSnapshot \<Rightarrow> float64) \<Rightarrow> metricSnapshot list \<Rightarrow> gauge" where
  "gauge_of label extract snaps = \<lparr>g_label = label, g_initial = extract (hd snaps), g_final = extract (last snaps),
     g_delta = float_sub (extract (last snaps)) (extract (hd snaps)), g_peak = peakValue snaps extract\<rparr>"

text \<open>What the report prints: the number of snapshots, the time they span, the gauges and the averages; nothing without a snapshot.\<close>

definition scraper_Report :: "Scraper \<Rightarrow> (nat \<times> int \<times> gauge list \<times> (float64 \<times> float64) option \<times> (float64 \<times> float64) option) option" where
  "scraper_Report s =
     (let snaps = snapshots s
      in if snaps = [] then None
         else (let first = hd snaps; final = last snaps
               in Some (length snaps, ms_timestamp final - ms_timestamp first,
                        [gauge_of ''Connections'' ms_connections snaps, gauge_of ''Active Chats'' ms_activeChats snaps,
                         gauge_of ''Queue Size'' queueSize snaps, gauge_of ''Messages Total'' messagesTotal snaps],
                        printHistogramAvg (latencySum first) (latencyCount first) (latencySum final) (latencyCount final),
                        printHistogramAvg (matchSum first) (matchCount first) (matchSum final) (matchCount final))))"

subsection \<open>The collector with its scraper\<close>

record scraped_Collector = Collector +
  col_scraper :: "Scraper option"

definition SetScraper :: "Scraper \<Rightarrow> scraped_Collector \<Rightarrow> scraped_Collector" where
  "SetScraper s c = c\<lparr>col_scraper := Some s\<rparr>"

definition scraped_Report where
  "scraped_Report c =
     (case LoadTest.Report (Collector.truncate c) of
        None \<Rightarrow> None
      | Some numbers \<Rightarrow> Some (numbers, map_option scraper_Report (col_scraper c)))"

section \<open>Lemmas\<close>

text \<open>The report of the whole test never panics, and shows the averages of the server exactly if it observed something meanwhile.\<close>

lemma scraped_Report_total:
  assumes "length (connectLatencies c) < 2 ^ 52" "length (msgLatencies c) < 2 ^ 52"
  shows "\<exists>numbers. scraped_Report (SetScraper s c) = Some (numbers, Some (scraper_Report s)) \<and> LoadTest.Report (Collector.truncate c) = Some numbers"
  using Report_total [of "Collector.truncate c"] assms
  by (fastforce simp: scraped_Report_def SetScraper_def Collector.defs)

lemma average_shown:
  assumes "m < 2 ^ 53" "n < 2 ^ 53"
  shows "printHistogramAvg a (Fin (of_nat m)) b (Fin (of_nat n)) =
    (if m < n then Some (float_div (float_sub b a) (Fin (of_nat (n - m))), Fin (of_nat (n - m))) else None)"
proof -
  have d: "float_sub (Fin (of_nat n)) (Fin (of_nat m)) = Fin (of_int (int n - int m))" using float_sub_nat [OF assms(2,1)] .
  show ?thesis
  proof (cases "m < n")
    case True
    then have "of_int (int n - int m) = (of_nat (n - m) :: rat)" "(0 :: rat) < of_nat (n - m)" by (simp_all add: of_nat_diff)
    with d True show ?thesis unfolding printHistogramAvg_def Let_def by (simp del: float_add.simps float_neg.simps)
  next
    case False
    with d show ?thesis unfolding printHistogramAvg_def Let_def by (simp del: float_add.simps float_neg.simps)
  qed
qed

text \<open>Every name the scraper looks for is a line of a registered metric, and no two metrics share a line.\<close>

lemma exposed_names:
  "concat (map exposed metrics) =
     [''whisper_connections_total'', ''whisper_messages_total'', ''whisper_message_latency_seconds_bucket'', ''whisper_message_latency_seconds_sum'',
      ''whisper_message_latency_seconds_count'', ''whisper_match_duration_seconds_bucket'', ''whisper_match_duration_seconds_sum'',
      ''whisper_match_duration_seconds_count'', ''whisper_active_chats'', ''whisper_match_queue_size'']"
  by (simp add: metrics_def exposed_def)

lemma exposed_distinct: "distinct (concat (map exposed metrics))"
  by code_simp

lemma names_registered: "name \<notin> set (concat (map exposed metrics)) \<Longrightarrow> set_metric name v snap = snap"
  unfolding exposed_names by (simp add: set_metric_def)

text \<open>The peak is at least every value, and one of them.\<close>

lemma peak_fold:
  "(\<forall>s \<in> set snaps. \<not> float_less (fold (\<lambda>s peak. if float_less peak (f s) then f s else peak) snaps p) (f s)) \<and>
   (let q = fold (\<lambda>s peak. if float_less peak (f s) then f s else peak) snaps p in (q = p \<or> q \<in> f ` set snaps \<and> float_less p q))"
proof (induction snaps rule: rev_induct)
  case Nil
  then show ?case by simp
next
  case (snoc s snaps)
  then show ?case by (auto simp: Let_def dest: float_less_trans)
qed

lemma peakValue_max:
  "s \<in> set snaps \<Longrightarrow> \<not> float_less (peakValue snaps f) (f s)"
  "peakValue snaps f = NegInf \<or> peakValue snaps f \<in> f ` set snaps"
  using peak_fold [of snaps f NegInf] by (auto simp: peakValue_def Let_def)

text \<open>
  After \<open>Stop\<close> has cancelled the context the goroutine can always finish, and once it is done, which is when \<open>Stop\<close> returns, the snapshots stay as they are.
\<close>

lemma Stop_can_return:
  "\<exists>s'. scraper_step\<^sup>*\<^sup>* (Stop_cancels s) s' \<and> Stop_returns s'"
proof (cases "sc_started s \<and> \<not> sc_done s")
  case True
  then have "scraper_step (Stop_cancels s) (scrapeOnce (Inl ErrNil) (Stop_cancels s)\<lparr>sc_done := True\<rparr>)"
    by (intro ctx_done) (auto simp: Stop_cancels_def)
  then have "scraper_step\<^sup>*\<^sup>* (Stop_cancels s) (scrapeOnce (Inl ErrNil) (Stop_cancels s)\<lparr>sc_done := True\<rparr>)" ..
  moreover have "Stop_returns (scrapeOnce (Inl ErrNil) (Stop_cancels s)\<lparr>sc_done := True\<rparr>)" by (simp add: Stop_returns_def)
  ultimately show ?thesis by blast
next
  case False
  then show ?thesis by (intro exI [of _ "Stop_cancels s"]) (auto simp: Stop_returns_def Stop_cancels_def)
qed

lemma snapshots_final: "scraper_step\<^sup>*\<^sup>* s s' \<Longrightarrow> sc_done s \<Longrightarrow> snapshots s' = snapshots s \<and> sc_done s'"
  by (induction rule: rtranclp_induct) (auto elim!: scraper_step.cases)

section \<open>A page of metrics\<close>

text \<open>A line of the text format: a comment, or a sample with its name, perhaps labels, and the text of its value.\<close>

datatype page_line = Comment string | Sample string "string option" string

fun line_text :: "page_line \<Rightarrow> string" where
  "line_text (Comment c) = CHR ''#'' # c"
| "line_text (Sample name labels v) =
     name @ (case labels of None \<Rightarrow> [] | Some l \<Rightarrow> CHR ''{'' # l @ ''}'') @ '' '' @ v"

definition page_text :: "page_line list \<Rightarrow> string" where
  "page_text ls = concat (map (\<lambda>l. line_text l @ [CHR ''\<newline>'']) ls)"

definition plain :: "string \<Rightarrow> bool" where
  "plain s \<longleftrightarrow> s \<noteq> [] \<and> list_all (\<lambda>c. byte c < 128 \<and> \<not> IsSpace (byte c) \<and> c \<noteq> CHR ''{'') s"

fun wf_line :: "page_line \<Rightarrow> bool" where
  "wf_line (Comment c) \<longleftrightarrow> CHR ''\<newline>'' \<notin> set c \<and> length c < 65535"
| "wf_line (Sample name labels v) \<longleftrightarrow> plain name \<and> hd name \<noteq> CHR ''#'' \<and> plain v \<and> ParseFloat v \<noteq> None \<and>
     (case labels of None \<Rightarrow> True | Some l \<Rightarrow> CHR ''}'' \<notin> set l \<and> CHR ''\<newline>'' \<notin> set l) \<and> length (line_text (Sample name labels v)) < 65536"

text \<open>The values a page gives for a name, in their order.\<close>

definition values_of :: "string \<Rightarrow> page_line list \<Rightarrow> float64 list" where
  "values_of name ls = concat (map (\<lambda>l. case l of Comment _ \<Rightarrow> [] | Sample n _ v \<Rightarrow> if n = name then [the (ParseFloat v)] else []) ls)"

lemma values_of_simps [simp]:
  "values_of name [] = []" "values_of name (ls @ ks) = values_of name ls @ values_of name ks"
  "values_of name (Comment c # ls) = values_of name ls"
  "values_of name (Sample n l v # ls) = (if n = name then [the (ParseFloat v)] else []) @ values_of name ls"
  by (simp_all add: values_of_def)

lemma plain_chars: "plain s \<Longrightarrow> c \<in> set s \<Longrightarrow> byte c < 128 \<and> \<not> IsSpace (byte c) \<and> c \<noteq> CHR ''{'' \<and> c \<noteq> CHR ''\<newline>'' \<and> c \<noteq> CHR 0x0D"
proof -
  assume "plain s" "c \<in> set s"
  then have "byte c < 128 \<and> \<not> IsSpace (byte c) \<and> c \<noteq> CHR ''{''" by (simp add: plain_def list_all_iff)
  moreover have "IsSpace (byte (CHR ''\<newline>''))" "IsSpace (byte (CHR 0x0D))" by (simp_all add: IsSpace_def byte_def)
  ultimately show ?thesis by metis
qed

lemma Fields_plain: "plain s \<Longrightarrow> FieldsFunc s IsSpace = [s]"
  using fields_word_None [of "parts s" IsSpace]
  by (auto simp: FieldsFunc_def parts_ascii plain_def list_all_iff comp_def)

lemma Fields_two:
  assumes "plain a" "plain b"
  shows "FieldsFunc (a @ CHR '' '' # b) IsSpace = [a, b]"
proof -
  have "list_all (\<lambda>c. byte c < 128) (a @ CHR '' '' # b)" "IsSpace (byte (CHR '' ''))"
    using assms by (auto simp: plain_def list_all_iff byte_def IsSpace_def)
  then have "FieldsFunc (a @ CHR '' '' # b) IsSpace = FieldsFunc a IsSpace @ FieldsFunc b IsSpace"
    using assms by (simp add: FieldsFunc_def parts_ascii fields_sep plain_def list_all_iff)
  with Fields_plain [OF assms(1)] Fields_plain [OF assms(2)] show ?thesis by simp
qed

lemma takeWhile_found: "c \<notin> set a \<Longrightarrow> takeWhile (\<lambda>d. d \<noteq> c) (a @ c # b) = a"
  by (induction a) auto

lemma IndexByte_found: "c \<notin> set a \<Longrightarrow> IndexByte (a @ c # b) c = int (length a)"
  by (simp add: IndexByte_def takeWhile_found)

lemma cut_labels_sample:
  assumes "plain name" "plain v" "case labels of None \<Rightarrow> True | Some l \<Rightarrow> CHR ''}'' \<notin> set l"
  shows "cut_labels (line_text (Sample name labels v)) = Some (case labels of None \<Rightarrow> [] | Some l \<Rightarrow> name, name @ CHR '' '' # v)"
proof (cases labels)
  case None
  then show ?thesis using assms plain_chars [of name] plain_chars [of v] by (auto simp: cut_labels_def IndexByte_def)
next
  case (Some l)
  have n: "CHR ''{'' \<notin> set name" using assms(1) plain_chars by blast
  have "CHR ''}'' \<notin> set (CHR ''{'' # l)" using assms(3) Some by simp
  from IndexByte_found [OF this, of "CHR '' '' # v"] have "IndexByte (CHR ''{'' # l @ CHR ''}'' # CHR '' '' # v) (CHR ''}'') = 1 + int (length l)" by simp
  with Some show ?thesis
    by (simp add: cut_labels_def IndexByte_found [OF n] Let_def nat_add_distrib)
qed

lemma parse_sample:
  assumes "wf_line (Sample name labels v)"
  shows "parseMetricLine (line_text (Sample name labels v)) = Some (name, the (ParseFloat v))"
proof -
  have "cut_labels (line_text (Sample name labels v)) = Some (case labels of None \<Rightarrow> [] | Some l \<Rightarrow> name, name @ CHR '' '' # v)"
    using assms by (intro cut_labels_sample) (auto split: option.splits)
  with assms show ?thesis
    by (auto simp: parseMetricLine_def Fields_two plain_def simp del: line_text.simps split: option.splits)
qed

lemma raw_lines_page:
  assumes "\<forall>l \<in> set ls. CHR ''\<newline>'' \<notin> set (line_text l)"
  shows "raw_lines (page_text ls) = map line_text ls"
proof -
  have "split_on (CHR ''\<newline>'') (page_text ls) = map line_text ls @ [[]]"
    using assms by (induction ls) (simp_all add: page_text_def split_on_append_sep)
  then show ?thesis by (simp add: raw_lines_def)
qed

lemma line_no_newline: "wf_line l \<Longrightarrow> CHR ''\<newline>'' \<notin> set (line_text l)"
  by (cases l) (auto dest: plain_chars split: option.splits)

lemma scan_line_page:
  assumes "wf_line l"
  shows "scan_line (dropCR (line_text l)) snap = (case l of Comment _ \<Rightarrow> snap | Sample n _ v \<Rightarrow> set_metric n (the (ParseFloat v)) snap)"
proof (cases l)
  case (Comment c)
  then show ?thesis by (cases c rule: rev_cases) (auto simp: scan_line_def dropCR_def)
next
  case (Sample name labels v)
  then have v: "v \<noteq> []" "last v \<noteq> CHR 0x0D" and n: "name \<noteq> []" "hd name \<noteq> CHR ''#''"
    using assms plain_chars [of v "last v"] by (auto simp: plain_def)
  then have "dropCR (line_text l) = line_text l" "line_text l \<noteq> []" "hd (line_text l) \<noteq> CHR ''#''" using Sample by (auto simp: dropCR_def)
  with Sample parse_sample assms show ?thesis by (simp add: scan_line_def del: line_text.simps)
qed

lemma set_metric_sel:
  "ms_timestamp (set_metric n v s) = ms_timestamp s"
  "ms_connections (set_metric n v s) = (if n = ''whisper_connections_total'' then v else ms_connections s)"
  "messagesTotal (set_metric n v s) = (if n = ''whisper_messages_total'' then float_add (messagesTotal s) v else messagesTotal s)"
  "ms_activeChats (set_metric n v s) = (if n = ''whisper_active_chats'' then v else ms_activeChats s)"
  "queueSize (set_metric n v s) = (if n = ''whisper_match_queue_size'' then v else queueSize s)"
  "latencySum (set_metric n v s) = (if n = ''whisper_message_latency_seconds_sum'' then v else latencySum s)"
  "latencyCount (set_metric n v s) = (if n = ''whisper_message_latency_seconds_count'' then v else latencyCount s)"
  "matchSum (set_metric n v s) = (if n = ''whisper_match_duration_seconds_sum'' then v else matchSum s)"
  "matchCount (set_metric n v s) = (if n = ''whisper_match_duration_seconds_count'' then v else matchCount s)"
  by (simp_all add: set_metric_def)

lemma fold_page:
  assumes "list_all wf_line ls"
  shows "fold scan_line (map dropCR (map line_text ls)) (empty_snapshot now) =
    \<lparr>ms_timestamp = now, ms_connections = last (Fin 0 # values_of ''whisper_connections_total'' ls),
     messagesTotal = foldl float_add (Fin 0) (values_of ''whisper_messages_total'' ls),
     ms_activeChats = last (Fin 0 # values_of ''whisper_active_chats'' ls), queueSize = last (Fin 0 # values_of ''whisper_match_queue_size'' ls),
     latencySum = last (Fin 0 # values_of ''whisper_message_latency_seconds_sum'' ls),
     latencyCount = last (Fin 0 # values_of ''whisper_message_latency_seconds_count'' ls),
     matchSum = last (Fin 0 # values_of ''whisper_match_duration_seconds_sum'' ls),
     matchCount = last (Fin 0 # values_of ''whisper_match_duration_seconds_count'' ls)\<rparr>"
  using assms
proof (induction ls rule: rev_induct)
  case Nil
  then show ?case by (simp add: empty_snapshot_def)
next
  case (snoc l ls)
  then have "wf_line l" by simp
  note step = scan_line_page [OF this]
  show ?case
  proof (cases l)
    case (Comment c)
    with snoc step show ?thesis by simp
  next
    case (Sample n la v)
    with snoc step show ?thesis by (intro metricSnapshot.equality) (simp_all add: set_metric_sel)
  qed
qed

lemma sum_exact: "sum_list ns + k < 2 ^ 53 \<Longrightarrow> foldl float_add (Fin (of_nat k)) (map (\<lambda>n. Fin (of_nat n)) ns) = Fin (of_nat (k + sum_list ns))"
proof (induction ns arbitrary: k)
  case Nil
  then show ?case by simp
next
  case (Cons n ns)
  then have "float_add (Fin (of_nat k)) (Fin (of_nat n)) = Fin (of_nat (k + n))" by (intro float_add_nat) simp
  with Cons.IH [of "k + n"] Cons.prems show ?case by (simp add: add.assoc)
qed

text \<open>
  C40.  The scraper reads a page of metrics as the server means it: every gauge and histogram total is the last value the page gives for its
  name, whatever its labels, and the messages are the sum over all types, which is exact as long as it is below \<open>2 ^ 53\<close>.
\<close>

theorem scraper_reads_metrics:
  assumes "list_all wf_line ls" "values_of ''whisper_messages_total'' ls = map (\<lambda>n. Fin (of_nat n)) counts" "sum_list counts < 2 ^ 53"
  shows "fetch now (Inr (page_text ls, None)) = Inr
    \<lparr>ms_timestamp = now, ms_connections = last (Fin 0 # values_of ''whisper_connections_total'' ls),
     messagesTotal = Fin (of_nat (sum_list counts)),
     ms_activeChats = last (Fin 0 # values_of ''whisper_active_chats'' ls), queueSize = last (Fin 0 # values_of ''whisper_match_queue_size'' ls),
     latencySum = last (Fin 0 # values_of ''whisper_message_latency_seconds_sum'' ls),
     latencyCount = last (Fin 0 # values_of ''whisper_message_latency_seconds_count'' ls),
     matchSum = last (Fin 0 # values_of ''whisper_match_duration_seconds_sum'' ls),
     matchCount = last (Fin 0 # values_of ''whisper_match_duration_seconds_count'' ls)\<rparr>"
proof -
  have r: "raw_lines (page_text ls) = map line_text ls" using assms(1) line_no_newline by (intro raw_lines_page) (auto simp: list_all_iff)
  have "length (line_text l) < 65536" if "wf_line l" for l using that by (cases l) auto
  then have "list_all (\<lambda>l. length l < 65536) (map line_text ls)" using assms(1) by (auto simp: list_all_iff)
  with r fold_page [OF assms(1), of now] sum_exact [of counts 0] assms(2,3) show ?thesis by (simp add: fetch_def del: map_map)
qed

theorem scraper_reads_metrics_witness:
  "\<exists>snap. fetch 7 (Inr (page_text
      [Comment '' HELP whisper_messages_total Total'', Sample ''whisper_messages_total'' (Some ''type=sent'') (show_nat 12),
       Sample ''whisper_messages_total'' (Some ''type=blocked'') (show_nat 3), Sample ''whisper_connections_total'' None (show_nat 2)], None)) = Inr snap \<and>
    messagesTotal snap = Fin 15 \<and> ms_connections snap = Fin 2"
proof -
  let ?ls = "[Comment '' HELP whisper_messages_total Total'', Sample ''whisper_messages_total'' (Some ''type=sent'') (show_nat 12),
       Sample ''whisper_messages_total'' (Some ''type=blocked'') (show_nat 3), Sample ''whisper_connections_total'' None (show_nat 2)]"
  have s: "show_nat 12 = ''12''" "show_nat 3 = ''3''" "show_nat 2 = ''2''" by code_simp+
  have p: "ParseFloat (show_nat 12) = Some (Fin 12)" "ParseFloat (show_nat 3) = Some (Fin 3)" "ParseFloat (show_nat 2) = Some (Fin 2)"
    using ParseFloat_nat [of 12] ParseFloat_nat [of 3] ParseFloat_nat [of 2] by simp_all
  have "list_all wf_line ?ls" using p unfolding s by (simp add: plain_def byte_def IsSpace_def)
  from scraper_reads_metrics [OF this, of "[12, 3]" 7] p show ?thesis by simp
qed

text \<open>
  The status of the answer is not looked at: the page of an error, such as that of a proxy whose server is not ready, counts as a snapshot in which
  everything is zero.
\<close>

lemma error_page_recorded: "fetch now (Inr (''Bad Gateway'', None)) = Inr (empty_snapshot now)"
proof -
  have "FieldsFunc ''Bad Gateway'' IsSpace = [''Bad'', ''Gateway'']"
    using Fields_two [of "''Bad''" "''Gateway''"] by (simp add: plain_def byte_def IsSpace_def)
  moreover have "ParseFloat ''Gateway'' = None"
    by (simp add: ParseFloat_def special_def readFloat_def cut_sign_def hex_literal_def lower_char_def byte_def is_digit_def Let_def char_of_def)
  ultimately show ?thesis
    by (simp add: fetch_def raw_lines_def dropCR_def scan_line_def parseMetricLine_def cut_labels_def IndexByte_def Let_def)
qed

end
