(* ===== verification/Spec2Isabelle.thy ===== *)
theory Spec2Isabelle
  imports Weaknesses EpollOther Programs Lifecycle Handshake Startup Scraper
begin

text \<open>
  A verification library for Whisper, an anonymous chat service written in Go.

  The service consists of three programs that share Redis and NATS.  The chat server (\<open>cmd/wsserver\<close>) keeps the WebSocket
  connections, the matcher (\<open>cmd/matcher\<close>) pairs users who wait, and the moderator (\<open>cmd/moderator\<close>) checks messages
  a second time.  Sessions, chats, the queue, bans and rate limits are keys of Redis; the programs talk over NATS subjects;
  abuse reports go to PostgreSQL.

  \<^bold>\<open>Outside.\<close>  Redis, NATS, PostgreSQL, sockets, the clock, random identifiers and the Unicode tables are not part
  of the repository.  They are arguments of the definitions (\<open>'r redis\<close> in \<open>Redis\<close>, the records \<open>nats\<close> in \<open>Messaging\<close>,
  \<open>env\<close> in \<open>World\<close>, \<open>wsenv\<close> in \<open>Connections\<close>, \<open>database\<close> in \<open>ReportStore\<close>, \<open>appenv\<close> in \<open>Handlers\<close>, \<open>unicode\<close> in
  \<open>Moderation\<close>), and what the programs rely on is a locale: \<open>redis_server\<close> (a command has its documented effect and
  answer, or fails, or times out with or without its effect), \<open>reliable_redis\<close> (no failures), \<open>nats_server\<close>, \<open>world\<close>,
  \<open>reliable_world\<close>, \<open>match_world\<close>, \<open>reliable_match_world\<close>, \<open>clocked_match_world\<close>, \<open>ws_world\<close>, \<open>reliable_ws_world\<close>,
  \<open>listening_ws_world\<close> (subscribing and unsubscribing succeed), \<open>closing_world\<close> (closing a socket closes it), \<open>timed_world\<close> (the clock and the expiry of keys go on together), and \<open>e2e_world\<close> for the connections of the end-to-end test.  Each is interpreted on an executable reference, a key space with the
  effects and answers of the commands written out (\<open>rcall\<close>) and a list of the messages sent.  The Lua script of the chat store
  runs atomically on the key space.

  \<^bold>\<open>Theories\<close>, with the code they model:
  \<^item> \<open>Prelude\<close>: durations, integers as text, errors and results, shared lemmas.
  \<^item> \<open>Redis\<close>, \<open>Schema\<close>: commands, replies, the client's conversions; the kind of value each key of the program holds.
  \<^item> \<open>Window_Counter\<close>, \<open>Ban\<close> (\<open>ban/store.go\<close>), \<open>RateLimit\<close> (\<open>ratelimit/limiter.go\<close>): counters that expire.  A report
    bans when it is the third or a later one within a day; a ban lasts as long as it says; the limiter allows the first calls of a window,
    and never as many as twice the limit in a time shorter than the window.
  \<^item> \<open>ChatBuffer\<close> (\<open>chat/buffer.go\<close>), \<open>ChatStore\<close> (\<open>chat/store.go\<close>), \<open>Utf8\<close> and \<open>Validator\<close> (\<open>chat/validator.go\<close>): the ring buffer
    refines the list of the last five messages; a chat is active only if both users accepted; the validator accepts exactly
    the encodings of up to 2000 characters in up to 4096 bytes.
  \<^item> \<open>Session\<close> (\<open>session/store.go\<close>): the store refines a map from identifiers to sessions.
  \<^item> \<open>Sha256\<close>, \<open>MatchQueue\<close> (\<open>matching/queue.go\<close>), \<open>Matching\<close> (the four tiers), \<open>MatchService\<close> (\<open>service.go\<close>, \<open>publisher.go\<close>,
    \<open>cleanup.go\<close>): the queue refines a map of waiting users with all indexes agreeing; what each tier proposes; what a pass and the
    clean-ups do; that failures never mix up the kinds of keys.  \<open>MatchPass\<close>: a pass leaves nobody who has waited for half a minute and no two
    users who may be paired.  \<open>Handshake\<close>: acceptances, pauses and clean-ups in any order; a chat both users accept within fifteen seconds becomes active and stays
    so, any other is gone after the clean-up.
  \<^item> \<open>Json\<close>, \<open>Protocol\<close> (\<open>protocol/messages.go\<close>): the parts of \<open>encoding/json\<close> the program uses, with a round trip; messages
    are decoded to the type they name.
  \<^item> \<open>Messaging\<close> (\<open>messaging/nats.go\<close>), \<open>World\<close>: subscriptions held and active; the services together.
  \<^item> \<open>Regex\<close>, \<open>Moderation\<close> (\<open>moderation/\<close> and \<open>cmd/moderator\<close>): the content filter; a blocked word is found in any case and between any other
    characters, for whatever Unicode tables.
  \<^item> \<open>ReportStore\<close> (\<open>report/store.go\<close>), \<open>Connections\<close> (\<open>ws/connection.go\<close>, \<open>ws/epoll.go\<close>), \<open>WsServer\<close> (\<open>ws/server.go\<close>,
    \<open>ws/dispatcher.go\<close>, \<open>ws/heartbeat.go\<close>), \<open>Handlers\<close> (\<open>cmd/wsserver/main.go\<close>): the chat server.
  \<^item> \<open>Application\<close>, \<open>AppInvariant\<close>, \<open>Relay\<close>, \<open>Bans\<close>, \<open>Disconnect\<close>: what the chat server guarantees.  Its state stays in order in every run;
    only a message that may be sent is relayed, and it reaches the partner; a ban takes effect at once; the partner of a lost
    connection is told.
  \<^item> \<open>Lifecycle\<close>: the way from a search to a chat, across the programs.  The requests and answers of NATS survive their encoding; a search
    puts the user with filtered interests into the queue; a match is announced to the client with the subscriptions the chat will need; two
    acceptances start the chat, and the user who accepted first is told with one frame.
  \<^item> \<open>ServerLoop\<close> (the goroutines of \<open>ws/server.go\<close>): workers of the event loop as steps that interleave, with the claim on a connection; the
    drain loop of a shutdown against its timer and ticker, with a scheduler that may be late, and that it ends and closes what is left; the health check.
  \<^item> \<open>Programs\<close> (\<open>cmd/wsserver\<close>, \<open>cmd/matcher\<close>, \<open>cmd/moderator\<close>, \<open>database/migrate.go\<close>): configuration with \<open>strconv.Atoi\<close> and
    \<open>time.ParseDuration\<close>, connecting, serving and shutting down.
  \<^item> \<open>EpollOther\<close> (\<open>ws/epoll_other.go\<close>): the variant with a goroutine per connection, for other systems than Linux.
  \<^item> \<open>Startup\<close> (\<open>NewEpoll\<close>, \<open>Close\<close>, \<open>socketFD\<close>, \<open>Start\<close> of the WebSocket server): what a start returns, the routes,
    and that a server that answers them passes the first scenario of the end-to-end test.
  \<^item> \<open>LoadTest\<close> (\<open>loadtest/client\<close>, \<open>loadtest/stats/stats.go\<close>): the simulated client against the protocol of the server, percentiles and the report.
  \<^item> \<open>RampUp\<close> (\<open>loadtest/cmd/loadtest\<close>: \<open>main.go\<close>, \<open>saturate.go\<close>, the connection phases of \<open>match.go\<close> and \<open>chat.go\<close>): the main
    goroutine and those it starts as steps that interleave, with the semaphore.  Every run stops, and every attempt is counted once.
  \<^item> \<open>Scenarios\<close> (the matching and chat phases of \<open>match.go\<close> and \<open>chat.go\<close>): a pair of clients from the search to the end of its chat; what it
    reports; counters that goroutines increment without a lock, and so may lose updates.
  \<^item> \<open>EndToEnd\<close> (\<open>loadtest/cmd/e2etest/main.go\<close>): the seven scenarios, the exit code, and that no connection is left open.
  \<^item> \<open>Floats\<close>, \<open>Scraper\<close> (\<open>loadtest/stats/scraper.go\<close>, the names in \<open>internal/metrics/metrics.go\<close>): \<open>float64\<close> as rationals with rounding, \<open>strconv.ParseFloat\<close>;
    a page of metrics is read as the server means it; the peak is a maximum; after \<open>Stop\<close> the snapshots stay as they are.
  \<^item> \<open>Weaknesses\<close>: behaviour the comments do not intend, shown on the model: missing checks, a report counted twice, interests with commas or repetitions, a second search.

  \<^bold>\<open>Conventions.\<close>  Strings are byte sequences (\<open>char list\<close>), as in Go.  A Go error is a value of \<open>error\<close>, a result with an error a sum
  with \<open>Inl\<close> the error.  Go integers are \<open>int\<close> where the code cannot overflow; \<open>wrap64\<close> writes the wrap-around out where it may;
  SHA-256 works on \<open>32 word\<close>; a finite \<open>float64\<close> is a rational, without the sign of zero.  Scores of sorted sets and the times of joining are integers (milliseconds and seconds below \<open>2 ^ 53\<close>, exact as floats).  Iterating over a Go map
  takes an order as an argument.  A panic is \<open>None\<close> or the flag \<open>panicked\<close>.  The JSON parser takes fuel, twice the length of its input plus two,
  which is enough since each call consumes a character or descends into a shorter rest; nesting stops at the depth Go allows.

  \<^bold>\<open>Not modelled.\<close>  The HTTP listener (a start only hands it the routes); counting the metrics in the handlers, and log lines; the
  callbacks of the NATS connection, which only log; the terms of the default block list, which are data (the filter is modelled for any
  list); the flags, the progress lines and the layout of the reports of the
  load test; the helper scripts.  Goroutines of the server are interleaved at the granularity of an event (a frame, a tick, a message from NATS), and workers also at the claim and
  the release of a connection: the code's mutexes make the registry, the buffer and the subscription map
  atomic, but the bodies of two handlers do not interleave in the model.  The goroutines of the load test are interleaved within their bodies.
\<close>

end
